(* ===== verification/Prelude.thy ===== *)
theory Prelude
  imports Main "HOL-Library.Word" "HOL-Library.Monad_Syntax" "HOL-Library.State_Monad"
    "HOL-Library.AList"
begin

text \<open>
  What every component of the development shares: the machine types, checked reads of a
  caller's buffer, the big-endian byte order the code writes out by hand in many places
  (with both round-trip laws, as interpretations of one locale), the hexadecimal keys of the
  two hash tables, and the table interface itself.

  Conventions. A C++ pointer with a size is a \<open>byte list option\<close>: \<open>None\<close> is the null
  pointer and the list holds exactly the bytes the size covers. A read goes through \<open>rd\<close>
  or \<open>rds\<close>, whose result \<open>None\<close> is a read outside these bytes (undefined behaviour in
  the code), so a theorem that a parser never returns \<open>None\<close> is memory safety of its reads.
  A \<open>std::array<uint8_t, N>\<close> is a byte list whose length is fixed by the well-formedness
  predicate of the record that holds it.
\<close>

unbundle bit_operations_syntax

named_theorems codec_simps "lengths and round trips of the byte encodings"
named_theorems rd_simps "checked reads inside the buffer"

section \<open>Machine types\<close>

type_synonym byte = "8 word"
type_synonym u16 = "16 word"
type_synonym u32 = "32 word"
type_synonym u64 = "64 word"

text \<open>The largest \<open>size_t\<close> of the 64-bit Windows targets.\<close>

definition SIZE_MAX :: nat where
  "SIZE_MAX = 2 ^ 64 - 1"

section \<open>Checked reads\<close>

definition rd :: "byte list \<Rightarrow> nat \<Rightarrow> byte option" where
  "rd buf i = (if i < length buf then Some (buf ! i) else None)"

definition rds :: "byte list \<Rightarrow> nat \<Rightarrow> nat \<Rightarrow> byte list option" where
  "rds buf off n = (if off + n \<le> length buf then Some (take n (drop off buf)) else None)"

lemma rd_in [rd_simps]: "i < length buf \<Longrightarrow> rd buf i = Some (buf ! i)"
  by (simp add: rd_def)

lemma rd_out: "length buf \<le> i \<Longrightarrow> rd buf i = None"
  by (simp add: rd_def)

lemma rds_in [rd_simps]: "off + n \<le> length buf \<Longrightarrow> rds buf off n = Some (take n (drop off buf))"
  by (simp add: rds_def)

lemma join_fields: "take n (drop m xs) @ drop (m + n) xs = drop m xs"
  by (metis append_take_drop_id drop_drop add.commute)

text \<open>
  \<open>wr buf off bs\<close>: \<open>memcpy(&buf[off], bs, n)\<close>, or the assignments to \<open>buf[off]\<close>,
  \<open>buf[off + 1]\<close> and so on, into a buffer that was allocated large enough. Filling a zeroed
  buffer from the front appends the fields.
\<close>

definition wr :: "byte list \<Rightarrow> nat \<Rightarrow> byte list \<Rightarrow> byte list" where
  "wr buf off bs = take off buf @ bs @ drop (off + length bs) buf"

lemma length_wr [simp]: "off + length bs \<le> length buf \<Longrightarrow> length (wr buf off bs) = length buf"
  by (simp add: wr_def)

lemma wr_first: "wr (replicate n 0) 0 bs = bs @ replicate (n - length bs) 0"
  by (simp add: wr_def)

lemma wr_next: "length a = off \<Longrightarrow>
    wr (a @ replicate n 0) off bs = (a @ bs) @ replicate (n - length bs) 0"
  by (simp add: wr_def)

text \<open>
  \<open>overwrite buf bs\<close>: what a call leaves in the caller's buffer when it stores \<open>bs\<close> there;
  it never changes the size of the buffer.
\<close>

definition overwrite :: "byte list \<Rightarrow> byte list \<Rightarrow> byte list" where
  "overwrite buf bs = take (length buf) bs @ drop (length bs) buf"

lemma length_overwrite [simp]: "length (overwrite buf bs) = length buf"
  by (simp add: overwrite_def)

lemma overwrite_take: "length buf \<le> n \<Longrightarrow> overwrite buf (take n bs) = overwrite buf bs"
  by (auto simp: overwrite_def min_def)

lemma overwrite_full: "length bs = length buf \<Longrightarrow> overwrite buf bs = bs"
  by (simp add: overwrite_def)

text \<open>\<open>fill n bs\<close>: what a system call leaves in a zeroed buffer of \<open>n\<close> bytes.\<close>

definition fill :: "nat \<Rightarrow> byte list \<Rightarrow> byte list" where
  "fill n bs = take n (bs @ replicate n 0)"

lemma length_fill [simp]: "length (fill n bs) = n"
  by (simp add: fill_def)

lemma fill_id: "length bs = n \<Longrightarrow> fill n bs = bs"
  by (simp add: fill_def)

section \<open>Big-endian integers\<close>

text \<open>
  The code writes every integer with the same shift-and-mask lines and reads it with the same
  shift-and-or lines; each definition is one of these groups of lines.
\<close>

definition put_be16 :: "u16 \<Rightarrow> byte list" where
  "put_be16 v = [ucast (drop_bit 8 v AND 0xFF), ucast (v AND 0xFF)]"

definition get_be16 :: "byte \<Rightarrow> byte \<Rightarrow> u16" where
  "get_be16 b0 b1 = push_bit 8 (ucast b0) OR ucast b1"

definition put_be32 :: "u32 \<Rightarrow> byte list" where
  "put_be32 v = [ucast (drop_bit 24 v AND 0xFF), ucast (drop_bit 16 v AND 0xFF),
                 ucast (drop_bit 8 v AND 0xFF), ucast (v AND 0xFF)]"

definition get_be32 :: "byte \<Rightarrow> byte \<Rightarrow> byte \<Rightarrow> byte \<Rightarrow> u32" where
  "get_be32 b0 b1 b2 b3 =
     push_bit 24 (ucast b0) OR push_bit 16 (ucast b1) OR push_bit 8 (ucast b2) OR ucast b3"

text \<open>The two 64-bit loops: \<open>i\<close> from 7 down to 0 when writing, an accumulator when reading.\<close>

definition put_be64 :: "u64 \<Rightarrow> byte list" where
  "put_be64 v = map (\<lambda>i. ucast (drop_bit (i * 8) v AND 0xFF)) (rev [0..<8])"

definition get_be64 :: "byte list \<Rightarrow> u64" where
  "get_be64 bs = foldl (\<lambda>acc b. push_bit 8 acc OR ucast b) 0 bs"

definition rd16 :: "byte list \<Rightarrow> nat \<Rightarrow> u16 option" where
  "rd16 buf i = do { b0 \<leftarrow> rd buf i; b1 \<leftarrow> rd buf (i + 1); Some (get_be16 b0 b1) }"

definition rd32 :: "byte list \<Rightarrow> nat \<Rightarrow> u32 option" where
  "rd32 buf i = do { b0 \<leftarrow> rd buf i; b1 \<leftarrow> rd buf (i + 1); b2 \<leftarrow> rd buf (i + 2); b3 \<leftarrow> rd buf (i + 3);
     Some (get_be32 b0 b1 b2 b3) }"

definition dec_be16 :: "byte list \<Rightarrow> u16" where
  "dec_be16 bs = get_be16 (bs ! 0) (bs ! 1)"

definition dec_be32 :: "byte list \<Rightarrow> u32" where
  "dec_be32 bs = get_be32 (bs ! 0) (bs ! 1) (bs ! 2) (bs ! 3)"

text \<open>
  The contract of a fixed-width encoding, and what its clients use: the encoding is injective
  and a field can be read back from the middle of a message.
\<close>

locale be_codec =
  fixes enc :: "'a \<Rightarrow> byte list" and dec :: "byte list \<Rightarrow> 'a" and width :: nat
  assumes length_enc: "length (enc v) = width"
    and dec_enc: "dec (enc v) = v"
    and enc_dec: "length bs = width \<Longrightarrow> enc (dec bs) = bs"
begin

lemma enc_inj: "enc v = enc w \<longleftrightarrow> v = w"
  using dec_enc by metis

lemma dec_field: "dec (take width (enc v @ ys)) = v"
  by (simp add: length_enc dec_enc)

lemma field_enc: "off + width \<le> length buf \<Longrightarrow> enc (dec (take width (drop off buf))) = take width (drop off buf)"
  by (rule enc_dec) simp

lemma dec_eq_iff: "length bs = width \<Longrightarrow> dec bs = v \<longleftrightarrow> bs = enc v"
  using dec_enc enc_dec by metis

end

lemma ucast_low_byte: "(ucast (v AND 0xFF) :: byte) = ucast (v :: 'a::len word)"
proof (rule bit_word_eqI)
  fix n assume n: "n < LENGTH(8)"
  have eq: "(0xFF :: 'a word) = mask 8" by (simp add: mask_eq_exp_minus_1)
  have "bit (0xFF :: 'a word) n \<longleftrightarrow> n < LENGTH('a) \<and> n < 8"
    by (simp only: eq bit_mask_iff) (simp add: possible_bit_word)
  with n show "bit (ucast (v AND 0xFF) :: byte) n \<longleftrightarrow> bit (ucast v :: byte) n"
    by (auto simp: bit_simps dest: bit_imp_le_length)
qed

lemma xor_cancel: "c XOR x = c XOR y \<longleftrightarrow> x = (y :: 'a::len word)"
proof
  assume "c XOR x = c XOR y"
  then have "c XOR (c XOR x) = c XOR (c XOR y)" by (rule arg_cong)
  then show "x = y" by (simp flip: xor.assoc)
qed simp

lemma byte_bit_high [simp]: "8 \<le> n \<Longrightarrow> \<not> bit (b :: byte) n"
  by (auto dest: bit_imp_le_length)

lemma length_2_conv: "length bs = 2 \<longleftrightarrow> (\<exists>a b. bs = [a, b])"
  by (auto simp: numeral_2_eq_2 length_Suc_conv)

lemma length_4_conv: "length bs = 4 \<longleftrightarrow> (\<exists>a b c d. bs = [a, b, c, d])"
  by (auto simp: numeral_eq_Suc length_Suc_conv)

lemma put_get16: "put_be16 (get_be16 a b) = [a, b]"
  by (auto simp: get_be16_def put_be16_def ucast_low_byte bit_simps intro!: bit_word_eqI)

lemma put_get32: "put_be32 (get_be32 a b c d) = [a, b, c, d]"
  by (auto simp: get_be32_def put_be32_def ucast_low_byte bit_simps intro!: bit_word_eqI)

lemma get_put16: "dec_be16 (put_be16 v) = v"
proof (rule bit_word_eqI)
  fix n assume "n < LENGTH(16)"
  then consider "n < 8" | "8 \<le> n" "n - 8 < 8" "n < 16" by fastforce
  then show "bit (dec_be16 (put_be16 v)) n = bit v n"
    by cases (simp_all add: dec_be16_def get_be16_def put_be16_def ucast_low_byte bit_simps)
qed

lemma get_put32: "dec_be32 (put_be32 v) = v"
proof (rule bit_word_eqI)
  fix n assume "n < LENGTH(32)"
  then consider "n < 8" | "8 \<le> n" "n - 8 < 8" "n < 16" | "16 \<le> n" "n - 16 < 8" "n < 24"
    | "24 \<le> n" "n - 24 < 8" "n < 32" by fastforce
  then show "bit (dec_be32 (put_be32 v)) n = bit v n"
    by cases (auto simp: dec_be32_def get_be32_def put_be32_def ucast_low_byte bit_simps)
qed

lemma put_dec16: "length bs = 2 \<Longrightarrow> put_be16 (dec_be16 bs) = bs"
  by (auto simp: length_2_conv dec_be16_def put_get16)

lemma put_dec32: "length bs = 4 \<Longrightarrow> put_be32 (dec_be32 bs) = bs"
  by (auto simp: length_4_conv dec_be32_def put_get32)

lemma get_be64_snoc: "get_be64 (bs @ [b]) = push_bit 8 (get_be64 bs) OR ucast b"
  by (simp add: get_be64_def)

lemma bit_get_be64:
  "bit (get_be64 bs) n \<longleftrightarrow> n < 64 \<and> n div 8 < length bs \<and> bit (rev bs ! (n div 8)) (n mod 8)"
proof (induction bs arbitrary: n rule: rev_induct)
  case Nil
  then show ?case by (simp add: get_be64_def)
next
  case (snoc b bs)
  show ?case
  proof (cases "n < 8")
    case True
    then show ?thesis by (simp add: get_be64_snoc bit_simps)
  next
    case False
    then have "n div 8 = Suc ((n - 8) div 8)" "n mod 8 = (n - 8) mod 8"
      by (simp_all add: le_div_geq le_mod_geq)
    with False snoc.IH [of "n - 8"] show ?thesis by (auto simp: get_be64_snoc bit_simps)
  qed
qed

lemma length_put_be16 [simp]: "length (put_be16 v) = 2"
  by (simp add: put_be16_def)

lemma length_put_be32 [simp]: "length (put_be32 v) = 4"
  by (simp add: put_be32_def)

lemma length_put_be64 [simp]: "length (put_be64 v) = 8"
  by (simp add: put_be64_def)

lemma nth_put_be64: "i < 8 \<Longrightarrow> rev (put_be64 v) ! i = ucast (drop_bit (i * 8) v)"
  by (simp add: put_be64_def rev_map ucast_low_byte)

lemma get_put64: "get_be64 (put_be64 v) = v"
proof (rule bit_word_eqI)
  fix n assume "n < LENGTH(64)"
  then have "n div 8 < 8" "n mod 8 < 8" "n div 8 * 8 + n mod 8 = n" by auto
  with \<open>n < LENGTH(64)\<close> show "bit (get_be64 (put_be64 v)) n = bit v n"
    by (auto simp: bit_get_be64 nth_put_be64 bit_simps)
qed

lemma put_get64:
  assumes "length bs = 8"
  shows "put_be64 (get_be64 bs) = bs"
proof -
  have "rev (put_be64 (get_be64 bs)) = rev bs"
  proof (rule nth_equalityI)
    fix i assume "i < length (rev (put_be64 (get_be64 bs)))"
    then have i: "i < 8" by simp
    show "rev (put_be64 (get_be64 bs)) ! i = rev bs ! i"
    proof (rule bit_word_eqI)
      fix n assume "n < LENGTH(8)"
      then have n: "n < 8" by simp
      with i have "(i * 8 + n) div 8 = i" "(i * 8 + n) mod 8 = n" "i * 8 + n < 64" by auto
      with i n assms show "bit (rev (put_be64 (get_be64 bs)) ! i) n = bit (rev bs ! i) n"
        by (simp add: nth_put_be64 bit_simps bit_get_be64)
    qed
  qed (simp add: assms)
  then show ?thesis by simp
qed

interpretation be16: be_codec put_be16 dec_be16 2
  by unfold_locales (simp_all add: get_put16 put_dec16)

interpretation be32: be_codec put_be32 dec_be32 4
  by unfold_locales (simp_all add: get_put32 put_dec32)

interpretation be64: be_codec put_be64 get_be64 8
  by unfold_locales (simp_all add: get_put64 put_get64)

declare get_put16 [codec_simps] get_put32 [codec_simps] get_put64 [codec_simps] put_get64 [codec_simps]

lemma rd16_in [rd_simps]: "i + 2 \<le> length buf \<Longrightarrow> rd16 buf i = Some (dec_be16 (take 2 (drop i buf)))"
  by (simp add: rd16_def rd_simps dec_be16_def)

lemma rd32_in [rd_simps]: "i + 4 \<le> length buf \<Longrightarrow> rd32 buf i = Some (dec_be32 (take 4 (drop i buf)))"
  by (simp add: rd32_def rd_simps dec_be32_def)

section \<open>Hexadecimal keys and hash tables\<close>

text \<open>
  \<open>oss << std::hex << std::setw(2) << std::setfill('0') << static_cast<int>(data[i])\<close>:
  two lower-case digits per byte.
\<close>

definition hex_digit :: "nat \<Rightarrow> char" where
  "hex_digit n = ''0123456789abcdef'' ! n"

definition hex_byte :: "byte \<Rightarrow> string" where
  "hex_byte b = [hex_digit (unat b div 16), hex_digit (unat b mod 16)]"

definition hex_of_bytes :: "byte list \<Rightarrow> string" where
  "hex_of_bytes bs = concat (map hex_byte bs)"

lemma hex_digit_inj: "m < 16 \<Longrightarrow> n < 16 \<Longrightarrow> hex_digit m = hex_digit n \<Longrightarrow> m = n"
proof -
  have "distinct ''0123456789abcdef''" by simp
  then show "m < 16 \<Longrightarrow> n < 16 \<Longrightarrow> hex_digit m = hex_digit n \<Longrightarrow> m = n"
    unfolding hex_digit_def by (subst (asm) nth_eq_iff_index_eq) simp_all
qed

lemma hex_byte_inj: "hex_byte a = hex_byte b \<Longrightarrow> a = b"
proof -
  assume eq: "hex_byte a = hex_byte b"
  have bound: "unat x div 16 < 16" "unat x mod 16 < 16" for x :: byte
    using unsigned_less [where 'a = nat, of x] by (simp_all add: less_mult_imp_div_less)
  from eq have "unat a div 16 = unat b div 16" "unat a mod 16 = unat b mod 16"
    by (auto simp: hex_byte_def intro: hex_digit_inj bound)
  then have "unat a = unat b" by (metis div_mult_mod_eq)
  then show ?thesis by (simp add: word_unat_eq_iff)
qed

lemma hex_of_bytes_inj: "hex_of_bytes xs = hex_of_bytes ys \<Longrightarrow> xs = ys"
proof (induction xs arbitrary: ys)
  case Nil
  then show ?case by (cases ys) (auto simp: hex_of_bytes_def hex_byte_def)
next
  case (Cons x xs)
  then obtain y ys' where ys: "ys = y # ys'"
    by (cases ys) (auto simp: hex_of_bytes_def hex_byte_def)
  from Cons.prems have "hex_byte x = hex_byte y" "hex_of_bytes xs = hex_of_bytes ys'"
    by (auto simp: ys hex_of_bytes_def hex_byte_def)
  with Cons.IH show ?case by (auto simp: ys dest: hex_byte_inj)
qed

text \<open>Decimal digits, as \<open>std::to_string\<close> and the stream operators write an unsigned number.\<close>

fun decimal :: "nat \<Rightarrow> string" where
  "decimal n = (if n < 10 then [hex_digit n] else decimal (n div 10) @ [hex_digit (n mod 10)])"

declare decimal.simps [simp del]

text \<open>Reading the digits back.\<close>

definition digit_value :: "char \<Rightarrow> nat" where
  "digit_value c = of_char c - 48"

definition decimal_value :: "string \<Rightarrow> nat" where
  "decimal_value ds = foldl (\<lambda>n c. 10 * n + digit_value c) 0 ds"

lemma digit_value_hex_digit: "n < 10 \<Longrightarrow> digit_value (hex_digit n) = n"
proof -
  have "\<forall>n \<in> set [0..<10]. digit_value (hex_digit n) = n" by code_simp
  then show "n < 10 \<Longrightarrow> digit_value (hex_digit n) = n" by simp
qed

lemma decimal_value_decimal: "decimal_value (decimal n) = n"
proof (induction n rule: decimal.induct)
  case (1 n)
  then show ?case
    by (cases "n < 10")
      (simp_all add: decimal.simps [of n] decimal_value_def digit_value_hex_digit)
qed

lemma length_decimal: "10 ^ k \<le> n \<Longrightarrow> n < 10 ^ Suc k \<Longrightarrow> length (decimal n) = Suc k"
proof (induction k arbitrary: n)
  case 0
  then show ?case by (simp add: decimal.simps [of n])
next
  case (Suc k)
  then have "length (decimal (n div 10)) = Suc k" by (intro Suc.IH) (auto simp: div_le_mono less_mult_imp_div_less)
  moreover have "10 \<le> n"
    using Suc.prems(1) by (rule order.trans [rotated]) (simp add: Suc_le_eq)
  ultimately show ?case by (subst decimal.simps) simp
qed

text \<open>
  \<open>std::unordered_map<std::string, V>\<close> keyed by the hexadecimal form of an identifier: an
  association list whose keys are distinct (the iteration order is unspecified in C++ and no
  operation depends on it). \<open>AList.update\<close> is \<open>m[key] = v\<close>, \<open>map_of\<close> is \<open>find\<close>,
  \<open>AList.delete\<close> is \<open>erase\<close>.
\<close>

type_synonym 'v table = "(string \<times> 'v) list"

locale keyed_table =
  fixes key :: "byte list \<Rightarrow> string"
  assumes key_inj: "key a = key b \<Longrightarrow> a = b"
begin

lemma key_eq_iff: "key a = key b \<longleftrightarrow> a = b"
  using key_inj by blast

lemma find_put: "map_of (AList.update (key a) v t) (key b) = (if a = b then Some v else map_of t (key b))"
  by (auto simp: update_conv' key_eq_iff)

lemma find_erase: "map_of (AList.delete (key a) t) (key b) = (if a = b then None else map_of t (key b))"
  by (auto simp: delete_conv' key_eq_iff)

lemma put_distinct: "distinct (map fst t) \<Longrightarrow> distinct (map fst (AList.update (key a) v t))"
  by (rule distinct_update)

lemma erase_distinct: "distinct (map fst t) \<Longrightarrow> distinct (map fst (AList.delete (key a) t))"
  by (simp add: distinct_delete)

end

end
