(* ===== verification/Crc32.thy ===== *)
theory Crc32
  imports Prelude
begin

text \<open>
  \<open>FrameProtocol::CalculateCrc32\<close> of \<open>windows/common/FrameProtocol.cpp\<close>: the byte-wise,
  reflected CRC-32. It is shown equal to the bit-serial definition of the IEEE 802.3 checksum
  (generator \<open>0x04C11DB7\<close>, most significant bit first, message bits in transmission order),
  and to detect every error burst of at most 32 bits.
\<close>

section \<open>The implementation\<close>

text \<open>One round of the inner loop.\<close>

definition crc_bit :: "u32 \<Rightarrow> u32" where
  "crc_bit crc = (if crc AND 1 \<noteq> 0 then drop_bit 1 crc XOR 0xEDB88320 else drop_bit 1 crc)"

text \<open>One round of the outer loop: \<open>crc ^= data[i]\<close> and eight rounds of the inner one.\<close>

definition crc_byte :: "u32 \<Rightarrow> byte \<Rightarrow> u32" where
  "crc_byte crc b = (crc_bit ^^ 8) (crc XOR ucast b)"

definition CalculateCrc32 :: "byte list option \<Rightarrow> u32" where
  "CalculateCrc32 data =
     (case data of
        None \<Rightarrow> 0
      | Some bs \<Rightarrow> if length bs = 0 then 0 else NOT (foldl crc_byte 0xFFFFFFFF bs))"

text \<open>The guard for the empty buffer agrees with what the loop would return.\<close>

lemma CalculateCrc32_eq: "CalculateCrc32 (Some bs) = NOT (foldl crc_byte 0xFFFFFFFF bs)"
  by (simp add: CalculateCrc32_def)

section \<open>Bits of a message\<close>

definition byte_bits :: "byte \<Rightarrow> bool list" where
  "byte_bits b = map (bit b) [0..<8]"

definition msg_bits :: "byte list \<Rightarrow> bool list" where
  "msg_bits bs = concat (map byte_bits bs)"

lemma length_byte_bits [simp]: "length (byte_bits b) = 8"
  by (simp add: byte_bits_def)

lemma byte_bits_inj: "byte_bits a = byte_bits b \<Longrightarrow> a = b"
  by (rule bit_word_eqI) (auto simp: byte_bits_def)

lemma msg_bits_Cons [simp]: "msg_bits (b # bs) = byte_bits b @ msg_bits bs"
  by (simp add: msg_bits_def)

lemma msg_bits_Nil [simp]: "msg_bits [] = []"
  by (simp add: msg_bits_def)

lemma msg_bits_append [simp]: "msg_bits (xs @ ys) = msg_bits xs @ msg_bits ys"
  by (simp add: msg_bits_def)

lemma length_msg_bits [simp]: "length (msg_bits bs) = 8 * length bs"
  by (induction bs) auto

lemma msg_bits_inj: "length xs = length ys \<Longrightarrow> msg_bits xs = msg_bits ys \<Longrightarrow> xs = ys"
  by (induction xs ys rule: list_induct2) (auto dest: byte_bits_inj)

section \<open>The round is linear and loses nothing\<close>

lemma crc_bit_alt: "crc_bit c = drop_bit 1 c XOR (if bit c 0 then 0xEDB88320 else 0)"
  by (simp add: crc_bit_def bit_0 and_one_eq odd_iff_mod_2_eq_one)

lemma crc_bit_linear: "crc_bit (x XOR y) = crc_bit x XOR crc_bit y"
  by (simp add: crc_bit_alt drop_bit_xor bit_xor_iff ac_simps)

lemma crc_bit_kernel:
  assumes "crc_bit x = 0"
  shows "x = 0"
proof -
  have top: "\<not> bit (drop_bit 1 x) 31"
    by (auto simp: bit_simps dest: bit_imp_le_length)
  have gen: "bit (0xEDB88320 :: u32) 31"
    by (simp add: bit_numeral_rec)
  have even: "\<not> bit x 0"
  proof
    assume "bit x 0"
    then have "drop_bit 1 x XOR 0xEDB88320 = 0" using assms by (simp add: crc_bit_alt)
    then have "bit (drop_bit 1 x XOR 0xEDB88320) 31 = bit (0 :: u32) 31" by simp
    with top gen show False by (simp add: bit_xor_iff)
  qed
  then have shifted: "drop_bit 1 x = 0" using assms by (simp add: crc_bit_alt)
  show "x = 0"
  proof (rule bit_word_eqI)
    fix n assume "n < LENGTH(32)"
    show "bit x n = bit (0 :: u32) n"
    proof (cases n)
      case 0
      then show ?thesis using even by simp
    next
      case (Suc m)
      have "bit (drop_bit 1 x) m = bit (0 :: u32) m" using shifted by simp
      with Suc show ?thesis by (simp add: bit_simps)
    qed
  qed
qed

lemma crc_bit_inj: "crc_bit x = crc_bit y \<longleftrightarrow> x = y"
proof
  assume "crc_bit x = crc_bit y"
  then have "crc_bit (x XOR y) = 0" by (simp add: crc_bit_linear)
  then have "x XOR y = x XOR x" by (simp add: crc_bit_kernel)
  then show "x = y" unfolding xor_cancel by simp
qed simp

lemma crc_bits_inj: "(crc_bit ^^ n) x = (crc_bit ^^ n) y \<longleftrightarrow> x = y"
  by (induction n) (auto simp: crc_bit_inj)

lemma crc_bits_linear: "(crc_bit ^^ n) (x XOR y) = (crc_bit ^^ n) x XOR (crc_bit ^^ n) y"
  by (induction n) (auto simp: crc_bit_linear)

section \<open>Bit-serial form\<close>

text \<open>A left shift by one, with the bits it leaves.\<close>

definition shl1 :: "u32 \<Rightarrow> u32" where
  "shl1 w = push_bit 1 w"

lemma bit_shl1: "bit (shl1 w) n \<longleftrightarrow> 0 < n \<and> n < 32 \<and> bit w (n - 1)"
  unfolding shl1_def bit_push_bit_iff by auto

definition crc_serial :: "u32 \<Rightarrow> bool \<Rightarrow> u32" where
  "crc_serial c d = crc_bit (c XOR of_bool d)"

text \<open>The bits of a list as a word, the first one least significant.\<close>

fun bits_word :: "bool list \<Rightarrow> u32" where
  "bits_word [] = 0"
| "bits_word (d # ds) = of_bool d XOR shl1 (bits_word ds)"

lemma bit_bits_word: "bit (bits_word ds) n \<longleftrightarrow> n < 32 \<and> n < length ds \<and> ds ! n"
proof (induction ds arbitrary: n)
  case Nil
  then show ?case by simp
next
  case (Cons d ds)
  show ?case
  proof (cases n)
    case 0
    then show ?thesis by (simp add: bit_shl1 bit_xor_iff)
  next
    case (Suc m)
    then show ?thesis using Cons.IH [of m] by (simp add: bit_shl1 bit_xor_iff) arith
  qed
qed

lemma bits_word_inj:
  assumes "length as = length bs" "length as \<le> 32" "bits_word as = bits_word bs"
  shows "as = bs"
proof (rule nth_equalityI)
  fix i assume "i < length as"
  moreover have "bit (bits_word as) i = bit (bits_word bs) i" using assms(3) by simp
  ultimately show "as ! i = bs ! i" using assms(1,2) by (simp add: bit_bits_word)
qed (rule assms(1))

lemma crc_bit_push:
  assumes "\<not> bit w 31"
  shows "crc_bit (shl1 w) = w"
proof (rule bit_word_eqI)
  fix n assume n: "n < LENGTH(32)"
  with assms have "n = 31 \<Longrightarrow> \<not> bit w n" by simp
  with n show "bit (crc_bit (shl1 w)) n = bit w n"
    by (cases "n = 31") (simp_all add: crc_bit_alt bit_shl1 bit_drop_bit_eq)
qed

text \<open>
  Feeding at most 32 bits one by one is the same as combining them with the register at once
  and running the rounds: the reason the byte-wise loop is correct.
\<close>

lemma crc_serial_bits:
  "length ds \<le> 32 \<Longrightarrow> foldl crc_serial c ds = (crc_bit ^^ length ds) (c XOR bits_word ds)"
proof (induction ds arbitrary: c)
  case Nil
  then show ?case by simp
next
  case (Cons d ds)
  then have "\<not> bit (bits_word ds) 31" by (simp add: bit_bits_word)
  note shift = crc_bit_push [OF this]
  have push: "crc_bit (c XOR of_bool d) XOR bits_word ds
      = crc_bit (c XOR (of_bool d XOR shl1 (bits_word ds)))"
    by (simp only: crc_bit_linear shift xor.assoc)
  have "foldl crc_serial c (d # ds) = (crc_bit ^^ length ds) (crc_bit (c XOR of_bool d) XOR bits_word ds)"
    using Cons by (simp add: crc_serial_def [of c d])
  also have "\<dots> = (crc_bit ^^ Suc (length ds)) (c XOR bits_word (d # ds))"
    by (simp add: push funpow_Suc_right del: funpow.simps)
  finally show ?case by simp
qed

lemma bits_word_byte: "bits_word (byte_bits b) = ucast b"
proof (rule bit_word_eqI)
  fix n assume n: "n < LENGTH(32)"
  show "bit (bits_word (byte_bits b)) n = bit (ucast b :: u32) n"
    using n by (cases "n < 8") (simp_all add: bit_bits_word byte_bits_def bit_simps)
qed

lemma crc_byte_serial: "crc_byte c b = foldl crc_serial c (byte_bits b)"
  by (simp add: crc_byte_def crc_serial_bits bits_word_byte)

lemma crc_bytes_serial: "foldl crc_byte c bs = foldl crc_serial c (msg_bits bs)"
  by (induction bs arbitrary: c) (simp_all add: crc_byte_serial)

section \<open>The IEEE 802.3 definition\<close>

text \<open>
  The reference: a 32-bit shift register with its most significant bit first, started at all
  ones; a message bit (each byte least significant bit first, as on the wire) that differs from
  the bit shifted out adds the generator polynomial; the result is the register, bit-reversed
  and complemented.
\<close>

definition ieee_step :: "u32 \<Rightarrow> bool \<Rightarrow> u32" where
  "ieee_step r d = shl1 r XOR (if bit r 31 \<noteq> d then 0x04C11DB7 else 0)"

definition ieee_crc32 :: "byte list \<Rightarrow> u32" where
  "ieee_crc32 bs = NOT (word_reverse (foldl ieee_step 0xFFFFFFFF (msg_bits bs)))"

lemma bit_reverse32: "bit (word_reverse (w :: u32)) n \<longleftrightarrow> n < 32 \<and> bit w (31 - n)"
  by (simp add: bit_word_reverse_iff)

lemma reverse_generator: "word_reverse (0x04C11DB7 :: u32) = 0xEDB88320"
  by code_simp

lemma reverse_xor: "word_reverse (x XOR y) = word_reverse x XOR (word_reverse y :: u32)"
  by (rule bit_word_eqI) (simp add: bit_reverse32 bit_xor_iff)

lemma reverse_push: "word_reverse (shl1 r) = drop_bit 1 (word_reverse r)"
  by (rule bit_word_eqI) (auto simp: bit_reverse32 bit_shl1 bit_drop_bit_eq)

lemma reverse_zero: "word_reverse (0 :: u32) = 0"
  by (rule bit_word_eqI) (simp add: bit_reverse32)

lemma crc_serial_ieee: "word_reverse (ieee_step r d) = crc_serial (word_reverse r) d"
proof -
  have "bit (word_reverse r XOR of_bool d) 0 \<longleftrightarrow> bit r 31 \<noteq> d"
    by (simp add: bit_reverse32 bit_xor_iff)
  moreover have "drop_bit 1 (word_reverse r XOR of_bool d) = drop_bit 1 (word_reverse r)"
    by (rule bit_word_eqI) (simp add: bit_simps)
  ultimately show ?thesis
    by (simp add: ieee_step_def crc_serial_def crc_bit_alt reverse_xor reverse_push reverse_generator
        reverse_zero)
qed

lemma crc_serial_ieee_run: "word_reverse (foldl ieee_step r ds) = foldl crc_serial (word_reverse r) ds"
  by (induction ds arbitrary: r) (simp_all add: crc_serial_ieee)

lemma CalculateCrc32_ieee: "CalculateCrc32 (Some bs) = ieee_crc32 bs"
proof -
  have "word_reverse (0xFFFFFFFF :: u32) = 0xFFFFFFFF" by code_simp
  then show ?thesis
    by (simp add: CalculateCrc32_eq ieee_crc32_def crc_bytes_serial crc_serial_ieee_run)
qed

text \<open>
  C22. \<open>FrameProtocol::CalculateCrc32\<close> computes the IEEE 802.3 checksum its comment names, for
  every buffer, the empty one included.
\<close>

theorem CalculateCrc32_is_ieee: "CalculateCrc32 (Some bs) = ieee_crc32 bs"
  by (rule CalculateCrc32_ieee)

section \<open>Error detection\<close>

text \<open>
  Two messages that differ by a burst: their bit strings agree outside a window of at most 32
  bits.
\<close>

definition burst32 :: "byte list \<Rightarrow> byte list \<Rightarrow> bool" where
  "burst32 xs ys \<longleftrightarrow> xs \<noteq> ys \<and> (\<exists>p a b s. msg_bits xs = p @ a @ s \<and> msg_bits ys = p @ b @ s
     \<and> length a = length b \<and> length a \<le> 32)"

lemma crc_serial_inj: "foldl crc_serial x ds = foldl crc_serial y ds \<longleftrightarrow> x = y"
proof (induction ds arbitrary: x y)
  case Nil
  then show ?case by simp
next
  case (Cons d ds)
  have "x XOR of_bool d = y XOR of_bool d \<longleftrightarrow> x = y"
    by (simp add: xor_cancel xor.commute [of _ "of_bool d"])
  with Cons show ?case by (simp add: crc_serial_def crc_bit_inj)
qed

lemma crc_serial_window:
  assumes "length a = length b" "length a \<le> 32" "foldl crc_serial c a = foldl crc_serial c b"
  shows "a = b"
proof -
  have "(crc_bit ^^ length a) (c XOR bits_word a) = (crc_bit ^^ length a) (c XOR bits_word b)"
    using assms crc_serial_bits [of a c] crc_serial_bits [of b c] by simp
  then have "c XOR bits_word a = c XOR bits_word b" by (simp add: crc_bits_inj)
  then have "bits_word a = bits_word b" by (simp add: xor_cancel)
  with assms(1,2) show ?thesis by (rule bits_word_inj)
qed

text \<open>A common prefix does not matter to a burst.\<close>

lemma burst32_prefix:
  assumes "burst32 (drop n xs) mid"
  shows "burst32 xs (take n xs @ mid)"
proof -
  from assms obtain p a b s where "drop n xs \<noteq> mid" and split: "msg_bits (drop n xs) = p @ a @ s"
      "msg_bits mid = p @ b @ s" "length a = length b" "length a \<le> 32"
    unfolding burst32_def by blast
  have "msg_bits xs = (msg_bits (take n xs) @ p) @ a @ s"
    using split(1) by (metis append_assoc append_take_drop_id msg_bits_append)
  moreover have "msg_bits (take n xs @ mid) = (msg_bits (take n xs) @ p) @ b @ s"
    using split(2) by simp
  moreover have "xs \<noteq> take n xs @ mid"
    using \<open>drop n xs \<noteq> mid\<close> by (metis append_take_drop_id same_append_eq)
  ultimately show ?thesis unfolding burst32_def using split(3,4) by blast
qed

lemma burst32_detected:
  assumes "burst32 xs ys" "length xs = length ys"
  shows "CalculateCrc32 (Some xs) \<noteq> CalculateCrc32 (Some ys)"
proof
  assume "CalculateCrc32 (Some xs) = CalculateCrc32 (Some ys)"
  then have eq: "foldl crc_serial 0xFFFFFFFF (msg_bits xs) = foldl crc_serial 0xFFFFFFFF (msg_bits ys)"
    by (simp add: CalculateCrc32_eq crc_bytes_serial)
  from assms(1) obtain p a b s where split: "msg_bits xs = p @ a @ s" "msg_bits ys = p @ b @ s"
      "length a = length b" "length a \<le> 32" and "xs \<noteq> ys"
    unfolding burst32_def by blast
  from eq split have "foldl crc_serial (foldl crc_serial 0xFFFFFFFF p) a
      = foldl crc_serial (foldl crc_serial 0xFFFFFFFF p) b"
    by (simp add: crc_serial_inj)
  with split have "msg_bits xs = msg_bits ys" by (simp add: crc_serial_window)
  with assms(2) \<open>xs \<noteq> ys\<close> show False by (simp add: msg_bits_inj)
qed

text \<open>
  Error detection: two buffers of the same length that differ by a burst of at most 32 bits
  have different checksums.
\<close>

theorem CalculateCrc32_detects_burst:
  assumes "burst32 xs ys" "length xs = length ys"
  shows "CalculateCrc32 (Some xs) \<noteq> CalculateCrc32 (Some ys)"
  using assms by (rule burst32_detected)

theorem CalculateCrc32_detects_burst_witness:
  "CalculateCrc32 (Some [0x11, 0x22, 0x33]) \<noteq> CalculateCrc32 (Some [0x11, 0xDD, 0x33])"
proof (rule CalculateCrc32_detects_burst)
  show "burst32 [0x11, 0x22, 0x33] [0x11, 0xDD, 0x33]"
    unfolding burst32_def
    by (intro conjI exI [of _ "byte_bits 0x11"] exI [of _ "byte_bits 0x22"]
        exI [of _ "byte_bits 0xDD"] exI [of _ "byte_bits 0x33"]) simp_all
qed simp

end
