(* ===== verification/Frame_Protocol.thy ===== *)
theory Frame_Protocol
  imports Crc32
begin

text \<open>
  The frame format of \<open>windows/common/TransportInterface.h\<close> and the codec of
  \<open>windows/common/FrameProtocol.cpp\<close>: 14 header bytes, at most 64 KB of payload and a
  CRC-32 over both. The parser is shown to read inside its buffer only, to accept exactly the
  buffers that start with a serialised frame, and to reject every burst of up to 32 corrupted
  bits in the part of a frame the checksum protects.
\<close>

section \<open>Frames\<close>

definition FRAME_MAGIC :: u32 where "FRAME_MAGIC = 0x504B4652"
definition MAX_PAYLOAD_SIZE :: nat where "MAX_PAYLOAD_SIZE = 65536"

datatype TransportMessageType = PAIR_REQ | PAIR_RESP | UNLOCK_REQ | UNLOCK_RESP | ERROR_MSG

fun message_type_value :: "TransportMessageType \<Rightarrow> byte" where
  "message_type_value PAIR_REQ = 0x01"
| "message_type_value PAIR_RESP = 0x02"
| "message_type_value UNLOCK_REQ = 0x10"
| "message_type_value UNLOCK_RESP = 0x11"
| "message_type_value ERROR_MSG = 0xFF"

lemma message_type_value_inj: "message_type_value a = message_type_value b \<longleftrightarrow> a = b"
  by (cases a; cases b) simp_all

text \<open>\<open>static_cast<TransportMessageType>\<close> of a byte that passed the range check.\<close>

definition message_type_of :: "byte \<Rightarrow> TransportMessageType option" where
  "message_type_of b =
     (if b = message_type_value PAIR_REQ then Some PAIR_REQ
      else if b = message_type_value PAIR_RESP then Some PAIR_RESP
      else if b = message_type_value UNLOCK_REQ then Some UNLOCK_REQ
      else if b = message_type_value UNLOCK_RESP then Some UNLOCK_RESP
      else if b = message_type_value ERROR_MSG then Some ERROR_MSG
      else None)"

lemma message_type_of_value [simp]: "message_type_of (message_type_value t) = Some t"
  by (cases t) (simp_all add: message_type_of_def)

lemma message_type_of_Some: "message_type_of b = Some t \<longleftrightarrow> b = message_type_value t"
  by (cases t) (auto simp: message_type_of_def split: if_splits)

record TransportFrame =
  f_magic :: u32
  f_payloadLength :: u32
  f_messageType :: TransportMessageType
  f_flags :: byte
  f_sequenceNumber :: u32
  f_payload :: "byte list"
  f_checksum :: u32

definition TransportFrame_init :: TransportFrame where
  "TransportFrame_init =
     \<lparr>f_magic = FRAME_MAGIC, f_payloadLength = 0, f_messageType = UNLOCK_REQ, f_flags = 0,
      f_sequenceNumber = 0, f_payload = [], f_checksum = 0\<rparr>"

section \<open>Writing a frame\<close>

definition SerializeFrame :: "TransportFrame \<Rightarrow> byte list" where
  "SerializeFrame frame =
     (if length (f_payload frame) > MAX_PAYLOAD_SIZE then []
      else
        let payloadLen = (of_nat (length (f_payload frame)) :: u32);
            totalLen = 14 + unat payloadLen + 4;
            buffer = replicate totalLen 0;
            buffer = wr buffer 0 (put_be32 FRAME_MAGIC);
            buffer = wr buffer 4 (put_be32 payloadLen);
            buffer = wr buffer 8 [message_type_value (f_messageType frame)];
            buffer = wr buffer 9 [f_flags frame];
            buffer = wr buffer 10 (put_be32 (f_sequenceNumber frame));
            (buffer, offset) =
              (if payloadLen > 0 then (wr buffer 14 (f_payload frame), 14 + unat payloadLen)
               else (buffer, 14));
            checksum = CalculateCrc32 (Some (take (14 + unat payloadLen) buffer));
            buffer = wr buffer offset (put_be32 checksum)
        in buffer)"

text \<open>Header and payload, the part the checksum covers.\<close>

definition frame_body :: "TransportFrame \<Rightarrow> byte list" where
  "frame_body f = put_be32 FRAME_MAGIC @ put_be32 (of_nat (length (f_payload f)))
     @ [message_type_value (f_messageType f)] @ [f_flags f] @ put_be32 (f_sequenceNumber f)
     @ f_payload f"

lemma length_frame_body [simp]: "length (frame_body f) = 14 + length (f_payload f)"
  by (simp add: frame_body_def)

lemma unat_payload_length:
  "n \<le> MAX_PAYLOAD_SIZE \<Longrightarrow> unat (of_nat n :: u32) = n"
  by (simp add: MAX_PAYLOAD_SIZE_def unat_of_nat take_bit_nat_eq_self)

lemma payload_length_pos:
  "n \<le> MAX_PAYLOAD_SIZE \<Longrightarrow> (of_nat n :: u32) > 0 \<longleftrightarrow> 0 < n"
  using unat_payload_length [of n] by (simp add: word_less_nat_alt)

lemma SerializeFrame_layout:
  assumes "length (f_payload f) \<le> MAX_PAYLOAD_SIZE"
  shows "SerializeFrame f = frame_body f @ put_be32 (CalculateCrc32 (Some (frame_body f)))"
proof (cases "f_payload f = []")
  case True
  then show ?thesis
    by (simp add: SerializeFrame_def frame_body_def MAX_PAYLOAD_SIZE_def wr_first wr_next Let_def
        del: append_assoc) simp
next
  case False
  note n = unat_payload_length [OF assms] payload_length_pos [OF assms]
  from False assms show ?thesis
    by (simp add: SerializeFrame_def n wr_first wr_next Let_def frame_body_def del: append_assoc) simp
qed

lemma length_SerializeFrame:
  "length (f_payload f) \<le> MAX_PAYLOAD_SIZE \<Longrightarrow> length (SerializeFrame f) = 18 + length (f_payload f)"
  by (simp add: SerializeFrame_layout)

lemma SerializeFrame_oversized: "length (f_payload f) > MAX_PAYLOAD_SIZE \<Longrightarrow> SerializeFrame f = []"
  by (simp add: SerializeFrame_def)

section \<open>Reading a frame\<close>

definition DeserializeFrame ::
    "byte list option \<Rightarrow> TransportFrame \<Rightarrow> (bool \<times> TransportFrame \<times> string) option" where
  "DeserializeFrame data outFrame =
     (case data of
        None \<Rightarrow> Some (False, outFrame, ''Null buffer pointer'')
      | Some buf \<Rightarrow>
          if length buf < 18
          then Some (False, outFrame, ''Frame buffer under 18 bytes minimum length'')
          else do {
            magic \<leftarrow> rd32 buf 0;
            if magic \<noteq> FRAME_MAGIC then Some (False, outFrame, ''Invalid magic bytes'')
            else do {
              payloadLen \<leftarrow> rd32 buf 4;
              if unat payloadLen > MAX_PAYLOAD_SIZE
              then Some (False, outFrame, ''Payload size exceeds 64KB security limit'')
              else do {
                let safePayloadLen = unat payloadLen;
                if safePayloadLen > SIZE_MAX - 18
                then Some (False, outFrame, ''Integer overflow in frame size computation'')
                else do {
                  let totalFrameLen = 14 + safePayloadLen + 4;
                  if length buf < totalFrameLen
                  then Some (False, outFrame,
                    ''Incomplete frame buffer: provided size less than calculated frame length'')
                  else do {
                    let checksumOffset = 14 + safePayloadLen;
                    expectedChecksum \<leftarrow> rd32 buf checksumOffset;
                    covered \<leftarrow> rds buf 0 checksumOffset;
                    let actualChecksum = CalculateCrc32 (Some covered);
                    if actualChecksum \<noteq> expectedChecksum
                    then Some (False, outFrame, ''CRC32 checksum mismatch (Frame corrupted)'')
                    else do {
                      rawMessageType \<leftarrow> rd buf 8;
                      (case message_type_of rawMessageType of
                         None \<Rightarrow> Some (False, outFrame, ''Unknown message type identifier'')
                       | Some messageType \<Rightarrow> do {
                           flags \<leftarrow> rd buf 9;
                           sequenceNumber \<leftarrow> rd32 buf 10;
                           payload \<leftarrow> (if safePayloadLen > 0 then rds buf 14 safePayloadLen else Some []);
                           Some (True,
                             \<lparr>f_magic = magic, f_payloadLength = payloadLen,
                              f_messageType = messageType, f_flags = flags,
                              f_sequenceNumber = sequenceNumber, f_payload = payload,
                              f_checksum = actualChecksum\<rparr>, [])
                         })
                    }}}}}})"

text \<open>The fields of a buffer, once it is long enough.\<close>

definition fr_magic :: "byte list \<Rightarrow> u32" where "fr_magic buf = dec_be32 (take 4 buf)"
definition fr_plen :: "byte list \<Rightarrow> nat" where "fr_plen buf = unat (dec_be32 (take 4 (drop 4 buf)))"
definition fr_crc :: "byte list \<Rightarrow> u32" where
  "fr_crc buf = dec_be32 (take 4 (drop (14 + fr_plen buf) buf))"

lemmas fr_defs = fr_magic_def fr_plen_def fr_crc_def

lemma DeserializeFrame_short:
  "length buf < 18 \<Longrightarrow> DeserializeFrame (Some buf) out
     = Some (False, out, ''Frame buffer under 18 bytes minimum length'')"
  by (simp add: DeserializeFrame_def)

lemma DeserializeFrame_view:
  assumes "18 \<le> length buf"
  shows "DeserializeFrame (Some buf) out = Some
    (if fr_magic buf \<noteq> FRAME_MAGIC then (False, out, ''Invalid magic bytes'')
     else if fr_plen buf > MAX_PAYLOAD_SIZE then (False, out, ''Payload size exceeds 64KB security limit'')
     else if length buf < 18 + fr_plen buf then (False, out,
       ''Incomplete frame buffer: provided size less than calculated frame length'')
     else if CalculateCrc32 (Some (take (14 + fr_plen buf) buf)) \<noteq> fr_crc buf
       then (False, out, ''CRC32 checksum mismatch (Frame corrupted)'')
     else case message_type_of (buf ! 8) of
       None \<Rightarrow> (False, out, ''Unknown message type identifier'')
     | Some t \<Rightarrow> (True, \<lparr>f_magic = FRAME_MAGIC, f_payloadLength = of_nat (fr_plen buf),
         f_messageType = t, f_flags = buf ! 9, f_sequenceNumber = dec_be32 (take 4 (drop 10 buf)),
         f_payload = take (fr_plen buf) (drop 14 buf), f_checksum = fr_crc buf\<rparr>, []))"
proof -
  have no_overflow: "\<not> SIZE_MAX - 18 < n" if "n \<le> MAX_PAYLOAD_SIZE" for n
    using that by (simp add: SIZE_MAX_def MAX_PAYLOAD_SIZE_def)
  show ?thesis
    using assms
    by (auto simp: DeserializeFrame_def rd_simps fr_defs no_overflow Let_def not_less unat_eq_zero
        split: option.splits)
qed

subsection \<open>Safety of the parser\<close>

text \<open>
  \<open>FrameProtocol::DeserializeFrame\<close> on any pointer and size: no read leaves the buffer, it
  returns true exactly when the error string is empty, it leaves \<open>outFrame\<close> as it was when
  it fails, and the integer-overflow branch is never taken (the 64 KB limit rules it out).
\<close>

theorem DeserializeFrame_safe:
  "\<exists>ok out' err. DeserializeFrame data out = Some (ok, out', err) \<and> (ok \<longleftrightarrow> err = [])
     \<and> (ok \<or> out' = out) \<and> err \<noteq> ''Integer overflow in frame size computation''"
proof (cases data)
  case None
  then show ?thesis by (auto simp: DeserializeFrame_def)
next
  case (Some buf)
  then show ?thesis
    by (cases "18 \<le> length buf")
      (auto simp: DeserializeFrame_view DeserializeFrame_short split: option.split)
qed

subsection \<open>Acceptance is exactly the image of the writer\<close>

text \<open>The fields the parser fills in, whatever the sender's object held in them.\<close>

definition frame_norm :: "TransportFrame \<Rightarrow> TransportFrame" where
  "frame_norm f = f\<lparr>f_magic := FRAME_MAGIC, f_payloadLength := of_nat (length (f_payload f)),
     f_checksum := CalculateCrc32 (Some (frame_body f))\<rparr>"

lemma frame_body_norm [simp]: "frame_body (frame_norm f) = frame_body f"
  by (simp add: frame_body_def frame_norm_def)

lemma f_payload_norm [simp]: "f_payload (frame_norm f) = f_payload f"
  by (simp add: frame_norm_def)

lemma SerializeFrame_norm: "SerializeFrame (frame_norm f) = SerializeFrame f"
  by (cases "length (f_payload f) \<le> MAX_PAYLOAD_SIZE")
    (simp_all add: SerializeFrame_layout SerializeFrame_oversized)

lemma SerializeFrame_fields:
  assumes "length (f_payload f) \<le> MAX_PAYLOAD_SIZE" and buf: "buf = SerializeFrame f @ rest"
  shows "fr_magic buf = FRAME_MAGIC" "fr_plen buf = length (f_payload f)"
    "fr_crc buf = CalculateCrc32 (Some (frame_body f))"
    "take (14 + length (f_payload f)) buf = frame_body f"
    "buf ! 8 = message_type_value (f_messageType f)" "buf ! 9 = f_flags f"
    "dec_be32 (take 4 (drop 10 buf)) = f_sequenceNumber f"
    "take (length (f_payload f)) (drop 14 buf) = f_payload f"
    "length buf = 18 + length (f_payload f) + length rest"
proof -
  let ?n = "length (f_payload f)"
  have split: "buf = frame_body f @ put_be32 (CalculateCrc32 (Some (frame_body f))) @ rest"
    using assms by (simp add: SerializeFrame_layout)
  show "take (14 + ?n) buf = frame_body f" "length buf = 18 + ?n + length rest"
    unfolding split by simp_all
  show "fr_magic buf = FRAME_MAGIC" and plen: "fr_plen buf = ?n"
    unfolding split using assms(1)
    by (simp_all add: fr_defs frame_body_def get_put32 unat_payload_length)
  show "fr_crc buf = CalculateCrc32 (Some (frame_body f))"
    unfolding fr_crc_def plen unfolding split by (simp add: get_put32)
  show "buf ! 8 = message_type_value (f_messageType f)" "buf ! 9 = f_flags f"
    "dec_be32 (take 4 (drop 10 buf)) = f_sequenceNumber f" "take ?n (drop 14 buf) = f_payload f"
    unfolding split by (simp_all add: frame_body_def get_put32 nth_append)
qed

lemma DeserializeFrame_SerializeFrame:
  assumes small: "length (f_payload f) \<le> MAX_PAYLOAD_SIZE"
  shows "DeserializeFrame (Some (SerializeFrame f @ rest)) out = Some (True, frame_norm f, [])"
proof -
  obtain buf where buf: "buf = SerializeFrame f @ rest" by simp
  note fields = SerializeFrame_fields [OF small buf]
  have "18 \<le> length buf" using fields(9) by simp
  then show ?thesis
    using small by (simp add: DeserializeFrame_view fields frame_norm_def flip: buf)
qed

lemma take_single: "i < length xs \<Longrightarrow> take (Suc 0) (drop i xs) = [xs ! i]"
  by (simp add: take_Suc_conv_app_nth hd_drop_conv_nth take_Suc)

lemma header_join:
  assumes "14 + n \<le> length buf"
  shows "take 4 buf @ take 4 (drop 4 buf) @ [buf ! 8] @ [buf ! 9] @ take 4 (drop 10 buf)
    @ take n (drop 14 buf) = take (14 + n) buf"
proof -
  have "take (4 + (4 + (Suc 0 + (Suc 0 + (4 + n))))) buf = take 4 buf @ take 4 (drop 4 buf)
      @ take (Suc 0) (drop 8 buf) @ take (Suc 0) (drop 9 buf) @ take 4 (drop 10 buf) @ take n (drop 14 buf)"
    by (simp only: take_add drop_drop) (simp add: numeral_eq_Suc)
  with assms show ?thesis by (simp add: take_single)
qed

lemma DeserializeFrame_accepted:
  assumes "DeserializeFrame (Some buf) out = Some (True, g, e)"
  shows "e = []" "length (f_payload g) \<le> MAX_PAYLOAD_SIZE" "frame_norm g = g"
    "buf = SerializeFrame g @ drop (18 + length (f_payload g)) buf"
proof -
  have len: "18 \<le> length buf"
    using assms DeserializeFrame_short by (cases "18 \<le> length buf") auto
  let ?n = "fr_plen buf"
  from assms [unfolded DeserializeFrame_view [OF len]] obtain t where
    acc: "fr_magic buf = FRAME_MAGIC" "?n \<le> MAX_PAYLOAD_SIZE" "18 + ?n \<le> length buf"
      "CalculateCrc32 (Some (take (14 + ?n) buf)) = fr_crc buf" "message_type_of (buf ! 8) = Some t"
    and g: "g = \<lparr>f_magic = FRAME_MAGIC, f_payloadLength = of_nat ?n, f_messageType = t,
      f_flags = buf ! 9, f_sequenceNumber = dec_be32 (take 4 (drop 10 buf)),
      f_payload = take ?n (drop 14 buf), f_checksum = fr_crc buf\<rparr>"
    and "e = []"
    by (auto split: if_splits option.splits)
  then show "e = []" by simp
  have plen: "length (f_payload g) = ?n" using acc(3) by (simp add: g)
  then show small: "length (f_payload g) \<le> MAX_PAYLOAD_SIZE" using acc(2) by simp
  have fields: "put_be32 FRAME_MAGIC = take 4 buf" "put_be32 (of_nat ?n) = take 4 (drop 4 buf)"
      "message_type_value t = buf ! 8" "put_be32 (dec_be32 (take 4 (drop 10 buf))) = take 4 (drop 10 buf)"
    using acc len put_dec32 [of "take 4 buf"] put_dec32 [of "take 4 (drop 4 buf)"]
    by (simp_all add: fr_magic_def fr_plen_def message_type_of_Some put_dec32)
  have body: "frame_body g = take (14 + ?n) buf"
    using acc(3) header_join [of ?n buf] by (simp add: frame_body_def g fields)
  then show "frame_norm g = g"
    using acc(3,4) by (simp add: frame_norm_def g)
  have "put_be32 (fr_crc buf) = take 4 (drop (14 + ?n) buf)"
    using acc(3) by (simp add: fr_crc_def put_dec32)
  then have "SerializeFrame g = take (14 + ?n) buf @ take 4 (drop (14 + ?n) buf)"
    using small acc(4) by (simp add: SerializeFrame_layout body)
  also have "\<dots> = take (18 + ?n) buf"
    by (simp flip: take_add add: add.commute)
  finally show "buf = SerializeFrame g @ drop (18 + length (f_payload g)) buf"
    by (simp add: plen)
qed

text \<open>
  C19. The parser and the writer agree exactly: a buffer is accepted with the frame \<open>g\<close> if and
  only if it starts with the serialisation of \<open>g\<close>, \<open>g\<close> carries at most 64 KB, and its
  redundant fields (magic, length, checksum) are the right ones.
\<close>

theorem DeserializeFrame_iff:
  "DeserializeFrame (Some buf) out = Some (True, g, e) \<longleftrightarrow>
     e = [] \<and> length (f_payload g) \<le> MAX_PAYLOAD_SIZE \<and> frame_norm g = g
     \<and> (\<exists>rest. buf = SerializeFrame g @ rest)"
proof
  assume "DeserializeFrame (Some buf) out = Some (True, g, e)"
  from DeserializeFrame_accepted [OF this] show "e = [] \<and> length (f_payload g) \<le> MAX_PAYLOAD_SIZE
      \<and> frame_norm g = g \<and> (\<exists>rest. buf = SerializeFrame g @ rest)"
    by blast
next
  assume "e = [] \<and> length (f_payload g) \<le> MAX_PAYLOAD_SIZE \<and> frame_norm g = g
      \<and> (\<exists>rest. buf = SerializeFrame g @ rest)"
  then show "DeserializeFrame (Some buf) out = Some (True, g, e)"
    using DeserializeFrame_SerializeFrame [of g] by metis
qed

subsection \<open>Corruption\<close>

lemma burst_in_body:
  assumes "length (f_payload f) \<le> MAX_PAYLOAD_SIZE"
    and "length mid = 6 + length (f_payload f)"
    and "burst32 (drop 8 (frame_body f)) mid"
  shows "DeserializeFrame (Some (take 8 (SerializeFrame f) @ mid @ drop (14 + length (f_payload f)) (SerializeFrame f))) out
    = Some (False, out, ''CRC32 checksum mismatch (Frame corrupted)'')"
proof -
  let ?n = "length (f_payload f)"
  let ?s = "take 8 (SerializeFrame f) @ mid @ drop (14 + ?n) (SerializeFrame f)"
  let ?body = "take 8 (frame_body f) @ mid"
  have s: "?s = ?body @ put_be32 (CalculateCrc32 (Some (frame_body f)))"
    using assms(1) by (simp add: SerializeFrame_layout)
  have len: "length ?body = 14 + ?n" using assms(2) by simp
  have head: "take 8 (frame_body f) = put_be32 FRAME_MAGIC @ put_be32 (of_nat ?n)"
    by (simp add: frame_body_def)
  have "fr_magic ?s = FRAME_MAGIC" "fr_plen ?s = ?n"
    unfolding s head using assms(1) by (simp_all add: fr_defs get_put32 unat_payload_length)
  moreover from this have "fr_crc ?s = CalculateCrc32 (Some (frame_body f))"
    unfolding fr_crc_def using len by (simp add: s get_put32)
  moreover have "burst32 (frame_body f) ?body"
    using assms(3) by (rule burst32_prefix)
  then have "CalculateCrc32 (Some (frame_body f)) \<noteq> CalculateCrc32 (Some ?body)"
    using len by (intro burst32_detected) simp_all
  moreover have "take (14 + ?n) ?s = ?body" "18 \<le> length ?s" "length ?s = 18 + ?n"
    unfolding s using len by simp_all
  ultimately show ?thesis
    using assms(1) by (simp add: DeserializeFrame_view)
qed

lemma damaged_magic:
  assumes "length (f_payload f) \<le> MAX_PAYLOAD_SIZE" "length m = 4" "m \<noteq> take 4 (SerializeFrame f)"
  shows "DeserializeFrame (Some (m @ drop 4 (SerializeFrame f))) out = Some (False, out, ''Invalid magic bytes'')"
proof -
  let ?s = "m @ drop 4 (SerializeFrame f)"
  have "take 4 (SerializeFrame f) = put_be32 FRAME_MAGIC"
    using assms(1) by (simp add: SerializeFrame_layout frame_body_def)
  then have "fr_magic ?s \<noteq> FRAME_MAGIC"
    using assms(2,3) put_dec32 [of m] by (auto simp: fr_magic_def)
  moreover have "18 \<le> length ?s" using assms(1,2) by (simp add: length_SerializeFrame)
  ultimately show ?thesis by (simp add: DeserializeFrame_view)
qed

lemma damaged_checksum:
  assumes "length (f_payload f) \<le> MAX_PAYLOAD_SIZE" "length c = 4" "c \<noteq> drop (14 + length (f_payload f)) (SerializeFrame f)"
  shows "DeserializeFrame (Some (take (14 + length (f_payload f)) (SerializeFrame f) @ c)) out
    = Some (False, out, ''CRC32 checksum mismatch (Frame corrupted)'')"
proof -
  let ?n = "length (f_payload f)"
  have s: "take (14 + ?n) (SerializeFrame f) = frame_body f"
    "drop (14 + ?n) (SerializeFrame f) = put_be32 (CalculateCrc32 (Some (frame_body f)))"
    using assms(1) by (simp_all add: SerializeFrame_layout)
  have "fr_magic (frame_body f @ c) = FRAME_MAGIC" and plen: "fr_plen (frame_body f @ c) = ?n"
    using assms(1) by (simp_all add: fr_defs frame_body_def get_put32 unat_payload_length)
  moreover have "fr_crc (frame_body f @ c) = dec_be32 c" using assms(2) by (simp add: fr_crc_def plen)
  moreover have "dec_be32 c \<noteq> CalculateCrc32 (Some (frame_body f))"
    using assms(2,3) put_dec32 [of c] by (auto simp: s)
  ultimately show ?thesis using assms(1,2) by (simp add: DeserializeFrame_view s)
qed

text \<open>
  C20. Corruption of a frame in one of its protected parts is caught and nothing is delivered: any
  change of the four magic bytes (\<open>Invalid magic bytes\<close>), a burst of at most 32 bits inside the
  type, flags, sequence number and payload, and any change of the four checksum bytes (both
  reported as a checksum mismatch). A burst in the length field, or one that runs across the end
  of the payload into the checksum, is not covered.
\<close>

theorem DeserializeFrame_detects_burst:
  assumes "length (f_payload f) \<le> MAX_PAYLOAD_SIZE"
  shows "(\<forall>m. length m = 4 \<and> m \<noteq> take 4 (SerializeFrame f) \<longrightarrow>
      DeserializeFrame (Some (m @ drop 4 (SerializeFrame f))) out = Some (False, out, ''Invalid magic bytes''))
    \<and> (\<forall>mid. length mid = 6 + length (f_payload f) \<and> burst32 (drop 8 (frame_body f)) mid \<longrightarrow>
      DeserializeFrame (Some (take 8 (SerializeFrame f) @ mid @ drop (14 + length (f_payload f)) (SerializeFrame f))) out
        = Some (False, out, ''CRC32 checksum mismatch (Frame corrupted)''))
    \<and> (\<forall>c. length c = 4 \<and> c \<noteq> drop (14 + length (f_payload f)) (SerializeFrame f) \<longrightarrow>
      DeserializeFrame (Some (take (14 + length (f_payload f)) (SerializeFrame f) @ c)) out
        = Some (False, out, ''CRC32 checksum mismatch (Frame corrupted)''))"
  using assms damaged_magic burst_in_body damaged_checksum by blast

theorem DeserializeFrame_detects_burst_witness:
  "let f = TransportFrame_init\<lparr>f_payload := [0x11, 0x22]\<rparr>
   in DeserializeFrame (Some (take 8 (SerializeFrame f) @ [0x10, 0, 0, 0, 0, 0, 0xEE, 0x22]
        @ drop 16 (SerializeFrame f))) TransportFrame_init
      = Some (False, TransportFrame_init, ''CRC32 checksum mismatch (Frame corrupted)'')"
proof -
  let ?f = "TransportFrame_init\<lparr>f_payload := [0x11, 0x22]\<rparr>"
  have bits: "burst32 (drop 8 (frame_body ?f)) [0x10, 0, 0, 0, 0, 0, 0xEE, 0x22]"
    unfolding burst32_def
    by (intro conjI exI [of _ "msg_bits [0x10, 0, 0, 0, 0, 0]"] exI [of _ "msg_bits [0x11]"]
        exI [of _ "msg_bits [0xEE]"] exI [of _ "msg_bits [0x22]"])
      (simp_all add: frame_body_def TransportFrame_init_def put_be32_def)
  have small: "length (f_payload ?f) \<le> MAX_PAYLOAD_SIZE"
    by (simp add: MAX_PAYLOAD_SIZE_def)
  show ?thesis
    unfolding Let_def
    using DeserializeFrame_detects_burst [OF small, of TransportFrame_init, THEN conjunct2, THEN conjunct1,
        THEN spec [of _ "[0x10, 0, 0, 0, 0, 0, 0xEE, 0x22]"], THEN mp] bits by simp
qed

end
