(* ===== verification/Win_Api.thy ===== *)
theory Win_Api
  imports Prelude "HOL-Library.Multiset"
begin

text \<open>
  The Windows interfaces the program calls (CNG, DPAPI, files, Winsock, named pipes, COM
  and the registry) are not part of the repository. They are a parameter of every definition that
  uses them: an environment \<open>w\<close> that answers each call as an arbitrary function of the calls
  made before and of the call itself. A definition records the calls it makes, with their
  answers, in a log; nothing is assumed about the answers except where a theorem names the
  documented behaviour as a hypothesis.

  The log also carries the resource accounting: \<open>held\<close> is the multiset of handles that were
  acquired and not yet released, and \<open>releases_ok\<close> says that no handle was ever released
  without being held (no double close, no close of a stale handle).
\<close>

type_synonym handle = nat

abbreviation (input) NULL :: handle where "NULL \<equiv> 0"

text \<open>\<open>INVALID_SOCKET\<close> and \<open>INVALID_HANDLE_VALUE\<close>: all bits set.\<close>

definition INVALID_SOCKET :: handle where "INVALID_SOCKET = SIZE_MAX"
definition INVALID_HANDLE_VALUE :: handle where "INVALID_HANDLE_VALUE = SIZE_MAX"

text \<open>
  A public-key blob as the code builds it: \<open>BCRYPT_ECCKEY_BLOB\<close> with its \<open>dwMagic\<close> (by the
  name of the SDK constant) and \<open>cbKey\<close>, followed by the coordinates.
\<close>

datatype ecc_blob = EccBlob (dwMagic: string) (cbKey: nat) (xy: "byte list")

datatype cng_call =
    BCryptOpenAlgorithmProvider string string
  | BCryptCloseAlgorithmProvider handle
  | BCryptGenRandom handle nat
  | BCryptImportKeyPair handle ecc_blob
  | BCryptGenerateKeyPair handle nat
  | BCryptFinalizeKeyPair handle
  | BCryptExportKey handle
  | BCryptDestroyKey handle
  | BCryptCreateHash handle "byte list"
  | BCryptHashData handle "byte list"
  | BCryptFinishHash handle nat
  | BCryptDestroyHash handle
  | BCryptVerifySignature handle "byte list" "byte list"
  | BCryptSecretAgreement handle handle
  | BCryptDeriveKey handle
  | BCryptDestroySecret handle

datatype store_call =
    CryptProtectData "byte list"
  | CryptUnprotectData "byte list"
  | LocalFree handle
  | FileOpenWrite string
  | FileWrite string "byte list"
  | FileClose string
  | FileOpenRead string
  | FileRead string

datatype com_call =
    CoTaskMemAlloc nat
  | SHStrDup string
  | OperatorNew string
  | ObjectDelete handle
  | QISearch handle "string list" string
  | EventsAddRef handle
  | EventsRelease handle
  | RegCreateKey string
  | RegSetValue handle string
  | RegCloseKey handle
  | RegDeleteKey string

datatype sock_call =
    WinSocket
  | WinSetReuseAddr handle
  | WinBind handle u16
  | WinListen handle
  | WinAccept handle
  | WinConnect handle string u16
  | WinSend handle "byte list"
  | WinRecv handle nat
  | WinCloseSocket handle
  | WSAStartup
  | WSACleanup

datatype pipe_call =
    WaitNamedPipe nat
  | CreateNamedPipe
  | ConnectNamedPipe handle
  | OpenPipe
  | PipeSetMessageMode handle
  | PipeRead handle nat
  | PipeWrite handle "byte list"
  | PipeFlush handle
  | PipeDisconnect handle
  | CloseHandle handle

datatype os_call = Cng cng_call | Store store_call | Sock sock_call | Pipe pipe_call
  | Com com_call

text \<open>
  An answer: success (\<open>NT_SUCCESS\<close>, a true \<open>BOOL\<close>, no \<open>SOCKET_ERROR\<close>), a handle, the
  bytes stored through an out-pointer, and a count.
\<close>

record answer =
  a_ok :: bool
  a_handle :: handle
  a_bytes :: "byte list"
  a_num :: int

type_synonym os_log = "(os_call \<times> answer) list"
type_synonym env = "os_log \<Rightarrow> os_call \<Rightarrow> answer"

definition sys :: "env \<Rightarrow> os_call \<Rightarrow> (os_log, answer) state" where
  "sys w c = State (\<lambda>l. (w l c, l @ [(c, w l c)]))"

lemma run_sys [simp]: "run_state (sys w c) l = (w l c, l @ [(c, w l c)])"
  by (simp add: sys_def)

lemma run_if: "run_state (if b then m else n) l = (if b then run_state m l else run_state n l)"
  by simp

abbreviation cng :: "env \<Rightarrow> cng_call \<Rightarrow> (os_log, answer) state" where
  "cng w c \<equiv> sys w (Cng c)"

abbreviation sock :: "env \<Rightarrow> sock_call \<Rightarrow> (os_log, answer) state" where
  "sock w c \<equiv> sys w (Sock c)"

abbreviation store :: "env \<Rightarrow> store_call \<Rightarrow> (os_log, answer) state" where
  "store w c \<equiv> sys w (Store c)"

abbreviation com :: "env \<Rightarrow> com_call \<Rightarrow> (os_log, answer) state" where
  "com w c \<equiv> sys w (Com c)"

abbreviation pipe :: "env \<Rightarrow> pipe_call \<Rightarrow> (os_log, answer) state" where
  "pipe w c \<equiv> sys w (Pipe c)"

text \<open>
  \<open>static_cast<DWORD>(v.size())\<close>: the size the API is given is the size modulo \<open>2 ^ 32\<close>, so it
  sees that many bytes of the vector.
\<close>

definition dword_blob :: "byte list \<Rightarrow> byte list" where
  "dword_blob v = take (length v mod 2 ^ 32) v"

lemma dword_blob_id: "length v < 2 ^ 32 \<Longrightarrow> dword_blob v = v"
  by (simp add: dword_blob_def)

lemma dword_blob_take: "n < 2 ^ 32 \<Longrightarrow> dword_blob (take n v) = take n v"
  by (rule dword_blob_id) simp

section \<open>Resources\<close>

datatype resource = RAlg handle | RKey handle | RHash handle | RSecret handle
  | RSock handle | RPipe handle | RMem handle | RReg handle | RObj handle | REvents handle
  | RWinsock

fun cng_acquires :: "cng_call \<Rightarrow> handle \<Rightarrow> resource option" where
  "cng_acquires (BCryptOpenAlgorithmProvider _ _) h = Some (RAlg h)"
| "cng_acquires (BCryptImportKeyPair _ _) h = Some (RKey h)"
| "cng_acquires (BCryptGenerateKeyPair _ _) h = Some (RKey h)"
| "cng_acquires (BCryptCreateHash _ _) h = Some (RHash h)"
| "cng_acquires (BCryptSecretAgreement _ _) h = Some (RSecret h)"
| "cng_acquires _ h = None"

fun cng_releases :: "cng_call \<Rightarrow> resource option" where
  "cng_releases (BCryptCloseAlgorithmProvider h) = Some (RAlg h)"
| "cng_releases (BCryptDestroyKey h) = Some (RKey h)"
| "cng_releases (BCryptDestroyHash h) = Some (RHash h)"
| "cng_releases (BCryptDestroySecret h) = Some (RSecret h)"
| "cng_releases _ = None"

fun sock_acquires :: "sock_call \<Rightarrow> answer \<Rightarrow> resource option" where
  "sock_acquires WinSocket a = (if a_handle a \<noteq> INVALID_SOCKET then Some (RSock (a_handle a)) else None)"
| "sock_acquires (WinAccept _) a = (if a_handle a \<noteq> INVALID_SOCKET then Some (RSock (a_handle a)) else None)"
| "sock_acquires WSAStartup a = (if a_ok a then Some RWinsock else None)"
| "sock_acquires _ a = None"

fun sock_releases :: "sock_call \<Rightarrow> resource option" where
  "sock_releases (WinCloseSocket h) = Some (RSock h)"
| "sock_releases WSACleanup = Some RWinsock"
| "sock_releases _ = None"

fun pipe_acquires :: "pipe_call \<Rightarrow> handle \<Rightarrow> resource option" where
  "pipe_acquires CreateNamedPipe h = Some (RPipe h)"
| "pipe_acquires OpenPipe h = Some (RPipe h)"
| "pipe_acquires _ h = None"

fun pipe_releases :: "pipe_call \<Rightarrow> resource option" where
  "pipe_releases (CloseHandle h) = Some (RPipe h)"
| "pipe_releases _ = None"

text \<open>
  A protected or unprotected blob is memory of the caller until \<open>LocalFree\<close>. Memory from
  \<open>CoTaskMemAlloc\<close> and \<open>SHStrDup\<close>, an object from \<open>new\<close>, a registry key and a reference to
  the caller's event sink are the other things the credential provider acquires; an allocation
  that fails answers null.
\<close>

fun store_acquires :: "store_call \<Rightarrow> handle \<Rightarrow> resource option" where
  "store_acquires (CryptProtectData _) h = Some (RMem h)"
| "store_acquires (CryptUnprotectData _) h = Some (RMem h)"
| "store_acquires _ h = None"

fun store_releases :: "store_call \<Rightarrow> resource option" where
  "store_releases (LocalFree h) = Some (RMem h)"
| "store_releases _ = None"

fun com_acquires :: "com_call \<Rightarrow> answer \<Rightarrow> resource option" where
  "com_acquires (CoTaskMemAlloc _) a = (if a_handle a = NULL then None else Some (RMem (a_handle a)))"
| "com_acquires (OperatorNew _) a = (if a_handle a = NULL then None else Some (RObj (a_handle a)))"
| "com_acquires (SHStrDup _) a = (if a_ok a then Some (RMem (a_handle a)) else None)"
| "com_acquires (RegCreateKey _) a = (if a_ok a then Some (RReg (a_handle a)) else None)"
| "com_acquires (EventsAddRef h) a = Some (REvents h)"
| "com_acquires _ a = None"

fun com_releases :: "com_call \<Rightarrow> resource option" where
  "com_releases (ObjectDelete h) = Some (RObj h)"
| "com_releases (EventsRelease h) = Some (REvents h)"
| "com_releases (RegCloseKey h) = Some (RReg h)"
| "com_releases _ = None"

definition opt_mset :: "'a option \<Rightarrow> 'a multiset" where
  "opt_mset x = (case x of None \<Rightarrow> {#} | Some y \<Rightarrow> {#y#})"

lemma opt_mset_simps [simp]: "opt_mset None = {#}" "opt_mset (Some y) = {#y#}"
  "opt_mset (if b then x else x') = (if b then opt_mset x else opt_mset x')"
  by (simp_all add: opt_mset_def)

text \<open>
  A failed call acquires nothing (CNG says so by its status, the others by the invalid handle);
  a release releases whatever the call answers.
\<close>

fun acquires :: "os_call \<times> answer \<Rightarrow> resource multiset" where
  "acquires (Cng c, a) = (if a_ok a then opt_mset (cng_acquires c (a_handle a)) else {#})"
| "acquires (Sock c, a) = opt_mset (sock_acquires c a)"
| "acquires (Pipe c, a) = (if a_handle a \<noteq> INVALID_HANDLE_VALUE then opt_mset (pipe_acquires c (a_handle a)) else {#})"
| "acquires (Store c, a) = (if a_ok a then opt_mset (store_acquires c (a_handle a)) else {#})"
| "acquires (Com c, a) = opt_mset (com_acquires c a)"

fun releases :: "os_call \<times> answer \<Rightarrow> resource multiset" where
  "releases (Cng c, a) = opt_mset (cng_releases c)"
| "releases (Sock c, a) = opt_mset (sock_releases c)"
| "releases (Pipe c, a) = opt_mset (pipe_releases c)"
| "releases (Store c, a) = opt_mset (store_releases c)"
| "releases (Com c, a) = opt_mset (com_releases c)"

definition held :: "os_log \<Rightarrow> resource multiset" where
  "held l = foldl (\<lambda>m e. m - releases e + acquires e) {#} l"

lemma held_Nil [simp]: "held [] = {#}"
  by (simp add: held_def)

lemma held_append [simp]:
  "held (l @ es) = foldl (\<lambda>m e. m - releases e + acquires e) (held l) es"
  by (simp add: held_def)

fun releases_ok_from :: "resource multiset \<Rightarrow> os_log \<Rightarrow> bool" where
  "releases_ok_from m [] = True"
| "releases_ok_from m (e # l) = (releases e \<subseteq># m \<and> releases_ok_from (m - releases e + acquires e) l)"

definition releases_ok :: "os_log \<Rightarrow> bool" where
  "releases_ok l = releases_ok_from {#} l"

lemma releases_ok_from_append:
  "releases_ok_from m (l @ es) \<longleftrightarrow> releases_ok_from m l
     \<and> releases_ok_from (foldl (\<lambda>m e. m - releases e + acquires e) m l) es"
  by (induction l arbitrary: m) auto

lemma releases_ok_Nil [simp]: "releases_ok []"
  by (simp add: releases_ok_def)

lemma releases_ok_append [simp]:
  "releases_ok (l @ es) \<longleftrightarrow> releases_ok l \<and> releases_ok_from (held l) es"
  by (simp add: releases_ok_def releases_ok_from_append held_def)

text \<open>
  A computation is neutral when it gives back every resource it takes, whatever the answers,
  and never releases one it does not hold.
\<close>

definition resource_neutral :: "(os_log, 'a) state \<Rightarrow> bool" where
  "resource_neutral m \<longleftrightarrow> (\<forall>l. held (snd (run_state m l)) = held l
     \<and> (releases_ok l \<longrightarrow> releases_ok (snd (run_state m l))))"

text \<open>
  Compositional form: \<open>spends R m\<close> says that \<open>m\<close>, run by a holder of \<open>R\<close>, gives all of \<open>R\<close> back
  and keeps nothing. The rule for a call moves what it releases and acquires in and out of \<open>R\<close>.
\<close>

definition spends :: "resource multiset \<Rightarrow> (os_log, 'a) state \<Rightarrow> bool" where
  "spends R m \<longleftrightarrow> (\<forall>l X. held l = X + R \<longrightarrow> held (snd (run_state m l)) = X
     \<and> (releases_ok l \<longrightarrow> releases_ok (snd (run_state m l))))"

lemma spends_neutral: "spends {#} m \<Longrightarrow> resource_neutral m"
  by (simp add: spends_def resource_neutral_def)

lemma neutral_spends: "resource_neutral m \<Longrightarrow> spends {#} m"
  by (simp add: spends_def resource_neutral_def)

lemma spends_return: "spends {#} (State_Monad.return x)"
  by (simp add: spends_def)

lemma spends_sys:
  assumes "\<And>a. releases (c, a) \<subseteq># R" "\<And>a. spends (R - releases (c, a) + acquires (c, a)) (f a)"
  shows "spends R (sys w c \<bind> f)"
  unfolding spends_def
proof (intro allI impI)
  fix l X assume held: "held l = X + R"
  let ?a = "w l c"
  let ?l1 = "l @ [(c, ?a)]"
  have "held ?l1 = X + R - releases (c, ?a) + acquires (c, ?a)" by (simp add: held)
  also have "\<dots> = X + (R - releases (c, ?a) + acquires (c, ?a))"
    unfolding multiset_diff_union_assoc [OF assms(1)] by (rule add.assoc)
  finally have l1: "held ?l1 = X + (R - releases (c, ?a) + acquires (c, ?a))" .
  have "releases (c, ?a) \<subseteq># X + R" using assms(1) by (rule subset_mset.add_increasing [OF subset_mset.zero_le])
  then have "releases_ok l \<longrightarrow> releases_ok ?l1" by (simp add: held)
  moreover have "run_state (sys w c \<bind> f) l = run_state (f ?a) ?l1" by simp
  ultimately show "held (snd (run_state (sys w c \<bind> f) l)) = X
      \<and> (releases_ok l \<longrightarrow> releases_ok (snd (run_state (sys w c \<bind> f) l)))"
    using assms(2) [of ?a, unfolded spends_def, rule_format, OF l1] by argo
qed

lemma spends_bind:
  assumes "resource_neutral m" "\<And>x. spends R (f x)"
  shows "spends R (m \<bind> f)"
  unfolding spends_def
proof (intro allI impI)
  fix l X assume held: "held l = X + R"
  obtain x l1 where r: "run_state m l = (x, l1)" by fastforce
  have "held (snd (run_state m l)) = held l" "releases_ok l \<longrightarrow> releases_ok (snd (run_state m l))"
    using assms(1) unfolding resource_neutral_def by blast+
  then have "held l1 = X + R" "releases_ok l \<longrightarrow> releases_ok l1" by (simp_all add: r held)
  moreover have "run_state (m \<bind> f) l = run_state (f x) l1" by (simp add: r)
  ultimately show "held (snd (run_state (m \<bind> f) l)) = X
      \<and> (releases_ok l \<longrightarrow> releases_ok (snd (run_state (m \<bind> f) l)))"
    using assms(2) [of x, unfolded spends_def, rule_format, of l1 X] by argo
qed

lemma spends_if: "(b \<Longrightarrow> spends R m) \<Longrightarrow> (\<not> b \<Longrightarrow> spends R n) \<Longrightarrow> spends R (if b then m else n)"
  by simp

lemma neutral_return: "resource_neutral (State_Monad.return x)"
  by (simp add: resource_neutral_def)

lemma neutral_bind:
  assumes "resource_neutral m" "\<And>x. resource_neutral (f x)"
  shows "resource_neutral (m \<bind> f)"
  by (rule spends_neutral, rule spends_bind [OF assms(1)], rule neutral_spends, rule assms(2))

lemma neutral_run:
  assumes "resource_neutral m" "run_state m l = (r, l')"
  shows "held l' = held l" "releases_ok l \<longrightarrow> releases_ok l'"
  using assms(1) unfolding resource_neutral_def by (metis assms(2) snd_conv)+

lemma bind_if: "((if b then m else n) :: (os_log, 'a) state) \<bind> f = (if b then m \<bind> f else n \<bind> f)"
  by simp

text \<open>The rules that walk through a computation.\<close>

lemmas spends_intros = spends_return spends_sys spends_if

end
