(* ===== verification/Tcp_Transport.thy ===== *)
theory Tcp_Transport
  imports Frame_Protocol Win_Api
begin

text \<open>
  \<open>windows/common/TcpTransport.cpp\<close>, the interface of \<open>TransportInterface.h\<close> it implements, and
  \<open>BluetoothTransport.cpp\<close>. The receiving loop is modelled over an arbitrary listener acting on
  an arbitrary state, so that its theorems hold for the agent as for any other listener: what a
  peer sends frame by frame is what the listener is called with, in the same order, however the
  network cuts the stream.
\<close>

section \<open>Listener and transport state\<close>

text \<open>The calls of \<open>ITransportListener\<close>.\<close>

datatype listener_event =
    OnFrameReceived TransportFrame
  | OnConnectionStateChanged bool string
  | OnError string

datatype worker = NoThread | ListenerThread | ReceiverThread

text \<open>\<open>t_listener\<close> says whether \<open>m_listener\<close> is set; \<open>t_worker\<close> is what \<open>m_workerThread\<close> runs.\<close>

record TcpTransport =
  t_listenSocket :: handle
  t_clientSocket :: handle
  t_listener :: bool
  t_isConnected :: bool
  t_isRunning :: bool
  t_sequenceCounter :: u32
  t_worker :: worker

definition TcpTransport_init :: TcpTransport where
  "TcpTransport_init = \<lparr>t_listenSocket = INVALID_SOCKET, t_clientSocket = INVALID_SOCKET,
     t_listener = False, t_isConnected = False, t_isRunning = False, t_sequenceCounter = 1,
     t_worker = NoThread\<rparr>"

text \<open>The constructor; the answer of \<open>WSAStartup\<close> is not looked at.\<close>

definition TcpTransport_new :: "env \<Rightarrow> (os_log, TcpTransport) state" where
  "TcpTransport_new w = do { _ \<leftarrow> sock w WSAStartup; State_Monad.return TcpTransport_init }"

definition SetListener :: "bool \<Rightarrow> TcpTransport \<Rightarrow> TcpTransport" where
  "SetListener listener t = t\<lparr>t_listener := listener\<rparr>"

definition IsConnected :: "TcpTransport \<Rightarrow> bool" where
  "IsConnected t = t_isConnected t"

text \<open>\<open>if (m_listener) m_listener->...\<close>\<close>

definition notify :: "TcpTransport \<Rightarrow> listener_event \<Rightarrow> listener_event list" where
  "notify t ev = (if t_listener t then [ev] else [])"

definition Close :: "env \<Rightarrow> TcpTransport \<Rightarrow> (os_log, TcpTransport) state" where
  "Close w t = do {
     let t = t\<lparr>t_isRunning := False, t_isConnected := False\<rparr>;
     t \<leftarrow> (if t_listenSocket t \<noteq> INVALID_SOCKET
           then do { _ \<leftarrow> sock w (WinCloseSocket (t_listenSocket t));
                     State_Monad.return (t\<lparr>t_listenSocket := INVALID_SOCKET\<rparr>) }
           else State_Monad.return t);
     t \<leftarrow> (if t_clientSocket t \<noteq> INVALID_SOCKET
           then do { _ \<leftarrow> sock w (WinCloseSocket (t_clientSocket t));
                     State_Monad.return (t\<lparr>t_clientSocket := INVALID_SOCKET\<rparr>) }
           else State_Monad.return t);
     State_Monad.return (if t_worker t \<noteq> NoThread then t\<lparr>t_worker := NoThread\<rparr> else t)
   }"

definition TcpTransport_destroy :: "env \<Rightarrow> TcpTransport \<Rightarrow> (os_log, unit) state" where
  "TcpTransport_destroy w t = do { _ \<leftarrow> Close w t; _ \<leftarrow> sock w WSACleanup; State_Monad.return () }"

definition StartListener ::
    "env \<Rightarrow> u16 \<Rightarrow> TcpTransport \<Rightarrow> (os_log, bool \<times> TcpTransport \<times> listener_event list) state" where
  "StartListener w port t = do {
     t \<leftarrow> Close w t;
     a \<leftarrow> sock w WinSocket;
     let t = t\<lparr>t_listenSocket := a_handle a\<rparr>;
     if t_listenSocket t = INVALID_SOCKET
     then State_Monad.return (False, t, notify t (OnError ''Failed to create listen socket''))
     else do {
       _ \<leftarrow> sock w (WinSetReuseAddr (t_listenSocket t));
       b \<leftarrow> sock w (WinBind (t_listenSocket t) port);
       if \<not> a_ok b
       then do {
         _ \<leftarrow> sock w (WinCloseSocket (t_listenSocket t));
         let t = t\<lparr>t_listenSocket := INVALID_SOCKET\<rparr>;
         State_Monad.return (False, t, notify t (OnError ''Failed to bind listen socket''))
       }
       else do {
         c \<leftarrow> sock w (WinListen (t_listenSocket t));
         if \<not> a_ok c
         then do {
           _ \<leftarrow> sock w (WinCloseSocket (t_listenSocket t));
           let t = t\<lparr>t_listenSocket := INVALID_SOCKET\<rparr>;
           State_Monad.return (False, t, notify t (OnError ''Failed to listen on socket''))
         }
         else State_Monad.return (True, t\<lparr>t_isRunning := True, t_worker := ListenerThread\<rparr>, [])
       }}}"

text \<open>The dotted form that \<open>inet_ntop\<close> gives an address, a colon, and the port.\<close>

definition peer_address :: "byte list \<Rightarrow> u16 \<Rightarrow> string" where
  "peer_address ip port =
     decimal (unat (ip ! 0)) @ ''.'' @ decimal (unat (ip ! 1)) @ ''.'' @ decimal (unat (ip ! 2)) @ ''.''
       @ decimal (unat (ip ! 3)) @ '':'' @ decimal (unat port)"

text \<open>
  The listener thread, from the moment \<open>accept\<close> returns; \<open>t\<close> is the transport at that moment
  (\<open>Close\<close> may have run since the thread started). The answer of \<open>accept\<close> carries the peer's
  address in \<open>a_bytes\<close> and its port in \<open>a_num\<close>. When it returns true the thread goes on as
  \<open>ReceiverWorker\<close>.
\<close>

definition ListenerWorker ::
    "env \<Rightarrow> TcpTransport \<Rightarrow> (os_log, bool \<times> TcpTransport \<times> listener_event list) state" where
  "ListenerWorker w t = do {
     a \<leftarrow> sock w (WinAccept (t_listenSocket t));
     let acceptedSocket = a_handle a;
     if acceptedSocket = INVALID_SOCKET \<or> \<not> t_isRunning t then State_Monad.return (False, t, [])
     else do {
       let t = t\<lparr>t_clientSocket := acceptedSocket, t_isConnected := True\<rparr>;
       let peerAddr = peer_address (fill 4 (a_bytes a)) (of_int (a_num a));
       State_Monad.return (True, t\<lparr>t_worker := ReceiverThread\<rparr>,
         notify t (OnConnectionStateChanged True peerAddr))
     }}"

definition Connect ::
    "env \<Rightarrow> string \<Rightarrow> u16 \<Rightarrow> TcpTransport \<Rightarrow> (os_log, bool \<times> TcpTransport \<times> listener_event list) state" where
  "Connect w address port t = do {
     t \<leftarrow> Close w t;
     a \<leftarrow> sock w WinSocket;
     let t = t\<lparr>t_clientSocket := a_handle a\<rparr>;
     if t_clientSocket t = INVALID_SOCKET
     then State_Monad.return (False, t, notify t (OnError ''Failed to create client socket''))
     else do {
       b \<leftarrow> sock w (WinConnect (t_clientSocket t) address port);
       if \<not> a_ok b
       then do {
         _ \<leftarrow> sock w (WinCloseSocket (t_clientSocket t));
         let t = t\<lparr>t_clientSocket := INVALID_SOCKET\<rparr>;
         State_Monad.return (False, t, notify t (OnError ''Failed to connect to target host''))
       }
       else do {
         let t = t\<lparr>t_isConnected := True, t_isRunning := True\<rparr>;
         State_Monad.return (True, t\<lparr>t_worker := ReceiverThread\<rparr>,
           notify t (OnConnectionStateChanged True (address @ '':'' @ decimal (unat port))))
       }}}"

section \<open>Receiving\<close>

text \<open>
  The inner loop of \<open>ReceiverWorker\<close> on the bytes received so far: the calls made to the
  listener, the bytes left, and whether the connection is to be dropped. \<open>None\<close> stands for a
  read outside the buffer in \<open>DeserializeFrame\<close>.
\<close>

function drain :: "byte list \<Rightarrow> (listener_event list \<times> byte list \<times> bool) option" where
  "drain rxBuffer =
     (if length rxBuffer < 18 then Some ([], rxBuffer, False)
      else
        let magic = get_be32 (rxBuffer ! 0) (rxBuffer ! 1) (rxBuffer ! 2) (rxBuffer ! 3) in
        if magic \<noteq> FRAME_MAGIC
        then map_option (\<lambda>(evs, rest, dropped). (OnError
               ''Stream corruption: invalid magic bytes. Discarding invalid stream byte.'' # evs, rest, dropped))
             (drain (drop 1 rxBuffer))
        else
          let payloadLen = unat (get_be32 (rxBuffer ! 4) (rxBuffer ! 5) (rxBuffer ! 6) (rxBuffer ! 7)) in
          if payloadLen > MAX_PAYLOAD_SIZE
          then Some ([OnError
            ''Stream security alert: frame payload size exceeds 64KB ceiling. Dropping connection.''],
            rxBuffer, True)
          else
            let totalFrameLen = 14 + payloadLen + 4 in
            if length rxBuffer < totalFrameLen then Some ([], rxBuffer, False)
            else
              (case DeserializeFrame (Some (take totalFrameLen rxBuffer)) TransportFrame_init of
                 None \<Rightarrow> None
               | Some (ok, frame, err) \<Rightarrow>
                   map_option (\<lambda>(evs, rest, dropped).
                     ((if ok then OnFrameReceived frame
                       else OnError (''Frame deserialization error: '' @ err)) # evs, rest, dropped))
                   (drain (drop totalFrameLen rxBuffer))))"
  by pat_completeness auto

termination
  by (relation "measure length") auto

declare drain.simps [simp del]

text \<open>\<open>char tempBuf[4096]\<close>; \<open>recv\<close> is given its size and stores no more than that.\<close>

definition TEMP_BUF_SIZE :: nat where
  "TEMP_BUF_SIZE = 4096"

definition recv_bytes :: "int \<Rightarrow> byte list \<Rightarrow> byte list" where
  "recv_bytes bytesRead tempBuf = take (nat bytesRead) (take TEMP_BUF_SIZE tempBuf)"

text \<open>
  One turn of the outer loop, on the result of one \<open>recv\<close> call (the count it returned and the bytes
  it stored). \<open>call\<close> is a call of the listener, which may do anything to the state, \<open>running\<close> the
  loop's condition \<open>m_isRunning && m_isConnected\<close>, and \<open>disconnect\<close> clears \<open>m_isConnected\<close>. The result
  says whether the loop goes on, and gives \<open>rxBuffer\<close> and the state; \<open>None\<close> is a read outside the
  buffer.
\<close>

definition receive_turn ::
    "(listener_event \<Rightarrow> 's \<Rightarrow> 's) \<Rightarrow> ('s \<Rightarrow> bool) \<Rightarrow> ('s \<Rightarrow> 's) \<Rightarrow> int \<times> byte list
      \<Rightarrow> byte list \<Rightarrow> 's \<Rightarrow> (bool \<times> byte list \<times> 's) option" where
  "receive_turn call running disconnect = (\<lambda>(bytesRead, tempBuf) rxBuffer s.
     if \<not> running s then Some (False, rxBuffer, s)
     else if bytesRead \<le> 0
     then Some (False, rxBuffer, call (OnConnectionStateChanged False ''Disconnected'') (disconnect s))
     else
       let rxBuffer = rxBuffer @ recv_bytes bytesRead tempBuf in
       (case drain rxBuffer of
          None \<Rightarrow> None
        | Some (evs, rest, dropped) \<Rightarrow>
            let s = fold call evs s;
                s = (if dropped then disconnect s else s)
            in Some (True, rest, s)))"

text \<open>
  The outer loop, over the results of the successive \<open>recv\<close> calls; at the end of the list the
  thread is waiting in \<open>recv\<close>, or has found the loop's condition false.
\<close>

fun receive_loop ::
    "(listener_event \<Rightarrow> 's \<Rightarrow> 's) \<Rightarrow> ('s \<Rightarrow> bool) \<Rightarrow> ('s \<Rightarrow> 's) \<Rightarrow> (int \<times> byte list) list
      \<Rightarrow> byte list \<Rightarrow> 's \<Rightarrow> (bool \<times> byte list \<times> 's) option" where
  "receive_loop call running disconnect [] rxBuffer s = Some (True, rxBuffer, s)"
| "receive_loop call running disconnect (r # recvs) rxBuffer s =
     (case receive_turn call running disconnect r rxBuffer s of
        None \<Rightarrow> None
      | Some (go_on, rxBuffer, s) \<Rightarrow>
          if go_on then receive_loop call running disconnect recvs rxBuffer s
          else Some (False, rxBuffer, s))"

definition ReceiverWorker ::
    "(listener_event \<Rightarrow> 's \<Rightarrow> 's) \<Rightarrow> ('s \<Rightarrow> bool) \<Rightarrow> ('s \<Rightarrow> 's) \<Rightarrow> (int \<times> byte list) list
      \<Rightarrow> byte list \<Rightarrow> 's \<Rightarrow> 's option" where
  "ReceiverWorker call running disconnect recvs rxBuffer s =
     map_option (\<lambda>(go_on, rxBuffer, s). s) (receive_loop call running disconnect recvs rxBuffer s)"

section \<open>Sending\<close>

text \<open>
  The loop around \<open>send\<close>. Each call is offered the bytes not yet sent; what it returns is
  trusted, as in the source.
\<close>

function send_loop :: "env \<Rightarrow> handle \<Rightarrow> byte list \<Rightarrow> int \<Rightarrow> os_log \<Rightarrow> bool \<times> os_log" where
  "send_loop w s serialized totalSent l =
     (if totalSent < int (length serialized)
      then
        let c = Sock (WinSend s (drop (nat totalSent) serialized));
            sent = a_num (w l c);
            l' = l @ [(c, w l c)]
        in if sent \<le> 0 then (False, l') else send_loop w s serialized (totalSent + sent) l'
      else (True, l))"
  by pat_completeness auto

termination
  by (relation "measure (\<lambda>(w, s, serialized, totalSent, l). nat (int (length serialized) - totalSent))") auto

declare send_loop.simps [simp del]

definition SendFrame ::
    "env \<Rightarrow> TransportMessageType \<Rightarrow> byte list \<Rightarrow> TcpTransport \<Rightarrow> (os_log, bool \<times> TcpTransport) state" where
  "SendFrame w messageType payload t =
     (if \<not> t_isConnected t \<or> t_clientSocket t = INVALID_SOCKET then State_Monad.return (False, t)
      else do {
        let frame = TransportFrame_init\<lparr>f_messageType := messageType,
              f_sequenceNumber := t_sequenceCounter t, f_payload := payload\<rparr>;
        let t = t\<lparr>t_sequenceCounter := t_sequenceCounter t + 1\<rparr>;
        let serialized = SerializeFrame frame;
        if serialized = [] then State_Monad.return (False, t)
        else do {
          ok \<leftarrow> State (send_loop w (t_clientSocket t) serialized 0);
          State_Monad.return (if ok then (True, t) else (False, t\<lparr>t_isConnected := False\<rparr>))
        }})"

section \<open>Bluetooth\<close>

record BluetoothTransport =
  b_listener :: bool
  b_isConnected :: bool
  b_isRunning :: bool
  b_sequenceCounter :: u32

definition BluetoothTransport_init :: BluetoothTransport where
  "BluetoothTransport_init = \<lparr>b_listener = False, b_isConnected = False, b_isRunning = False,
     b_sequenceCounter = 1\<rparr>"

definition b_notify :: "BluetoothTransport \<Rightarrow> listener_event \<Rightarrow> listener_event list" where
  "b_notify t ev = (if b_listener t then [ev] else [])"

definition Bluetooth_SetListener :: "bool \<Rightarrow> BluetoothTransport \<Rightarrow> BluetoothTransport" where
  "Bluetooth_SetListener listener t = t\<lparr>b_listener := listener\<rparr>"

definition Bluetooth_IsConnected :: "BluetoothTransport \<Rightarrow> bool" where
  "Bluetooth_IsConnected t = b_isConnected t"

definition Bluetooth_StartListener ::
    "u16 \<Rightarrow> BluetoothTransport \<Rightarrow> bool \<times> BluetoothTransport \<times> listener_event list" where
  "Bluetooth_StartListener portOrServiceChannel t =
     (let t = t\<lparr>b_isRunning := True, b_isConnected := True\<rparr>
      in (True, t, b_notify t (OnConnectionStateChanged True ''BLE:Listening'')))"

definition Bluetooth_Connect ::
    "string \<Rightarrow> u16 \<Rightarrow> BluetoothTransport \<Rightarrow> bool \<times> BluetoothTransport \<times> listener_event list" where
  "Bluetooth_Connect addressOrUuid portOrChannel t =
     (let t = t\<lparr>b_isRunning := True, b_isConnected := True\<rparr>
      in (True, t, b_notify t (OnConnectionStateChanged True addressOrUuid)))"

text \<open>The serialized frame is computed and thrown away.\<close>

definition Bluetooth_SendFrame ::
    "TransportMessageType \<Rightarrow> byte list \<Rightarrow> BluetoothTransport \<Rightarrow> bool \<times> BluetoothTransport" where
  "Bluetooth_SendFrame messageType payload t =
     (if \<not> b_isConnected t then (False, t)
      else
        let frame = TransportFrame_init\<lparr>f_messageType := messageType,
              f_sequenceNumber := b_sequenceCounter t, f_payload := payload\<rparr>;
            t = t\<lparr>b_sequenceCounter := b_sequenceCounter t + 1\<rparr>;
            serialized = SerializeFrame frame
        in (True, t))"

definition Bluetooth_Close :: "BluetoothTransport \<Rightarrow> BluetoothTransport \<times> listener_event list" where
  "Bluetooth_Close t =
     (let t = t\<lparr>b_isRunning := False, b_isConnected := False\<rparr>
      in (t, b_notify t (OnConnectionStateChanged False ''BLE:Disconnected'')))"

definition Bluetooth_destroy :: "BluetoothTransport \<Rightarrow> listener_event list" where
  "Bluetooth_destroy t = snd (Bluetooth_Close t)"

section \<open>Properties of the receiver\<close>

subsection \<open>Draining the buffer\<close>

definition bad_magic_error :: string where
  "bad_magic_error = ''Stream corruption: invalid magic bytes. Discarding invalid stream byte.''"

definition oversize_error :: string where
  "oversize_error = ''Stream security alert: frame payload size exceeds 64KB ceiling. Dropping connection.''"

text \<open>The same step over the header fields of the buffer; it never fails.\<close>

definition frame_event :: "byte list \<Rightarrow> listener_event" where
  "frame_event buf = (case DeserializeFrame (Some buf) TransportFrame_init of
     Some (ok, frame, err) \<Rightarrow> if ok then OnFrameReceived frame
       else OnError (''Frame deserialization error: '' @ err) | None \<Rightarrow> OnError [])"

definition cons_event :: "listener_event \<Rightarrow> listener_event list \<times> byte list \<times> bool \<Rightarrow> listener_event list \<times> byte list \<times> bool" where
  "cons_event ev r = (ev # fst r, snd r)"

lemma first_word: "4 \<le> length rx \<Longrightarrow> get_be32 (rx ! 0) (rx ! 1) (rx ! 2) (rx ! 3) = fr_magic rx"
  by (simp add: fr_magic_def dec_be32_def)

lemma second_word: "8 \<le> length rx \<Longrightarrow> unat (get_be32 (rx ! 4) (rx ! 5) (rx ! 6) (rx ! 7)) = fr_plen rx"
  by (simp add: fr_plen_def dec_be32_def)

lemma drain_step:
  "drain rx =
     (if length rx < 18 then Some ([], rx, False)
      else if fr_magic rx \<noteq> FRAME_MAGIC then map_option (cons_event (OnError bad_magic_error)) (drain (drop 1 rx))
      else if fr_plen rx > MAX_PAYLOAD_SIZE then Some ([OnError oversize_error], rx, True)
      else if length rx < 18 + fr_plen rx then Some ([], rx, False)
      else map_option (cons_event (frame_event (take (18 + fr_plen rx) rx))) (drain (drop (18 + fr_plen rx) rx)))"
proof -
  have "DeserializeFrame (Some buf) TransportFrame_init \<noteq> None" for buf
    by (cases "18 \<le> length buf") (simp_all add: DeserializeFrame_view DeserializeFrame_short)
  then obtain ok frame err where
    r: "DeserializeFrame (Some (take (18 + fr_plen rx) rx)) TransportFrame_init = Some (ok, frame, err)"
    by (metis not_None_eq surj_pair)
  have cons: "(\<lambda>(evs, rest, dropped). (ev # evs, rest, dropped)) = cons_event ev" for ev
    by (auto simp: cons_event_def)
  have len: "14 + fr_plen rx + 4 = 18 + fr_plen rx" by simp
  show ?thesis
  proof (cases "length rx < 18")
    case True
    then show ?thesis by (subst drain.simps) simp
  next
    case False
    then have words: "get_be32 (rx ! 0) (rx ! 1) (rx ! 2) (rx ! 3) = fr_magic rx"
      "unat (get_be32 (rx ! 4) (rx ! 5) (rx ! 6) (rx ! 7)) = fr_plen rx"
      by (simp_all only: first_word second_word)
    show ?thesis
      unfolding drain.simps [of rx] words Let_def len r cons bad_magic_error_def oversize_error_def
        frame_event_def option.case prod.case by (rule refl)
  qed
qed

lemma drain_total: "\<exists>evs rest dropped. drain rx = Some (evs, rest, dropped)"
proof (induction "length rx" arbitrary: rx rule: less_induct)
  case less
  have "\<exists>evs rest dropped. drain (drop n rx) = Some (evs, rest, dropped)" if "0 < n" "18 \<le> length rx" for n
    using that by (intro less) simp
  from this [of 1] this [of "18 + fr_plen rx"] show ?case
    by (subst drain_step) (auto simp: cons_event_def)
qed

lemma fr_append:
  "4 \<le> length x \<Longrightarrow> fr_magic (x @ y) = fr_magic x" "8 \<le> length x \<Longrightarrow> fr_plen (x @ y) = fr_plen x"
  by (simp_all add: fr_magic_def fr_plen_def)

text \<open>What was drained before more bytes came stays drained, and the rest is where it goes on.\<close>

definition then_drain :: "listener_event list \<times> byte list \<times> bool \<Rightarrow> byte list \<Rightarrow> (listener_event list \<times> byte list \<times> bool) option" where
  "then_drain r y = (if snd (snd r) then Some (fst r, fst (snd r) @ y, True)
     else map_option (\<lambda>r2. (fst r @ fst r2, snd r2)) (drain (fst (snd r) @ y)))"

lemma then_drain_cons: "then_drain (cons_event ev r) y = map_option (cons_event ev) (then_drain r y)"
  by (simp add: then_drain_def cons_event_def option.map_comp o_def)

lemma drain_append:
  "drain x = Some r \<Longrightarrow> drain (x @ y) = then_drain r y"
proof (induction "length x" arbitrary: x r rule: less_induct)
  case less
  have stuck: "drain (x @ y) = then_drain ([], x, False) y"
    by (simp add: then_drain_def option.map_ident)
  have IH: "drain (drop n x @ y) = then_drain r' y" if "0 < n" "18 \<le> length x" "drain (drop n x) = Some r'" for n r'
    using that by (intro less) auto
  show ?case
  proof (cases "length x < 18")
    case True
    with less.prems stuck show ?thesis by (simp add: drain_step [of x])
  next
    case False
    note app = fr_append [of x y]
    consider "fr_magic x \<noteq> FRAME_MAGIC" | "fr_magic x = FRAME_MAGIC" "fr_plen x > MAX_PAYLOAD_SIZE"
      | "fr_magic x = FRAME_MAGIC" "fr_plen x \<le> MAX_PAYLOAD_SIZE" "length x < 18 + fr_plen x"
      | "fr_magic x = FRAME_MAGIC" "fr_plen x \<le> MAX_PAYLOAD_SIZE" "18 + fr_plen x \<le> length x"
      by linarith
    then show ?thesis
    proof cases
      case 1
      then obtain r' where "drain (drop 1 x) = Some r'" "r = cons_event (OnError bad_magic_error) r'"
        using less.prems False by (auto simp: drain_step [of x])
      with 1 False IH [of 1 r'] app show ?thesis
        by (simp add: drain_step [of "x @ y"] then_drain_cons)
    next
      case 2
      then have "r = ([OnError oversize_error], x, True)"
        using less.prems False by (simp add: drain_step [of x])
      with 2 False app show ?thesis by (simp add: drain_step [of "x @ y"] then_drain_def)
    next
      case 3
      with less.prems False stuck show ?thesis by (simp add: drain_step [of x])
    next
      case 4
      then obtain r' where "drain (drop (18 + fr_plen x) x) = Some r'"
        "r = cons_event (frame_event (take (18 + fr_plen x) x)) r'"
        using less.prems False by (auto simp: drain_step [of x])
      with 4 False IH [of "18 + fr_plen x" r'] app show ?thesis
        by (simp add: drain_step [of "x @ y"] then_drain_cons)
    qed
  qed
qed

lemma drain_rest:
  assumes "drain x = Some (evs, rest, False)"
  shows "drain rest = Some ([], rest, False) \<and> length rest < 18 + MAX_PAYLOAD_SIZE"
  using assms
proof (induction "length x" arbitrary: x evs rule: less_induct)
  case less
  have IH: ?case if "0 < n" "18 \<le> length x" "drain (drop n x) = Some (evs', rest, False)" for n evs'
    using that by (intro less(1) [of "drop n x" evs']) auto
  show ?case
  proof (cases "length x < 18 \<or> fr_magic x = FRAME_MAGIC \<and> fr_plen x \<le> MAX_PAYLOAD_SIZE \<and> length x < 18 + fr_plen x")
    case True
    then have "drain x = Some ([], x, False)" by (subst drain_step) auto
    with less.prems True show ?thesis by auto
  next
    case False
    with less.prems IH [of 1] IH [of "18 + fr_plen x"] show ?thesis
      by (auto simp: drain_step [of x] cons_event_def split: if_splits)
  qed
qed

subsection \<open>The receiving loop and its listener\<close>

text \<open>The bytes that a run of \<open>recv\<close> calls appended to the buffer.\<close>

definition received :: "(int \<times> byte list) list \<Rightarrow> byte list" where
  "received recvs = concat (map (\<lambda>(n, buf). recv_bytes n buf) recvs)"

lemma recv_bytes_min: "recv_bytes n buf = take (min (nat n) 4096) buf"
  by (simp add: recv_bytes_def TEMP_BUF_SIZE_def)

lemma received_simps [simp]:
  "received [] = []" "received ((n, buf) # recvs) = take (min (nat n) 4096) buf @ received recvs"
  by (simp_all add: received_def recv_bytes_min)

text \<open>Any bytes can arrive, for instance one at a time.\<close>

lemma received_single: "received (map (\<lambda>b. (1, [b])) bs) = bs"
  by (induction bs) simp_all

lemma ReceiverWorker_simps:
  "ReceiverWorker call running disconnect [] rx s = Some s"
  "ReceiverWorker call running disconnect ((n, buf) # recvs) rx s =
     (if \<not> running s then Some s
      else if n \<le> 0 then Some (call (OnConnectionStateChanged False ''Disconnected'') (disconnect s))
      else case drain (rx @ recv_bytes n buf) of
          None \<Rightarrow> None
        | Some (evs, rest, dropped) \<Rightarrow> ReceiverWorker call running disconnect recvs rest
            (if dropped then disconnect (fold call evs s) else fold call evs s))"
  by (simp_all add: ReceiverWorker_def receive_turn_def Let_def split: option.split)

definition finish :: "(listener_event \<Rightarrow> 's \<Rightarrow> 's) \<Rightarrow> ('s \<Rightarrow> 's) \<Rightarrow> listener_event list \<times> byte list \<times> bool \<Rightarrow> 's \<Rightarrow> 's" where
  "finish call disconnect r s = (let s' = fold call (fst r) s in if snd (snd r) then disconnect s' else s')"

text \<open>
  What the loop relies on in its listener and its transport: in the states called \<open>steady\<close> the
  loop goes on and calls of the listener keep the state steady, and clearing \<open>m_isConnected\<close>
  ends the loop. Then how the network cuts the stream does not matter.
\<close>

locale listener =
  fixes call :: "listener_event \<Rightarrow> 's \<Rightarrow> 's"
    and steady running :: "'s \<Rightarrow> bool"
    and disconnect :: "'s \<Rightarrow> 's"
  assumes steady_running: "steady s \<Longrightarrow> running s"
    and call_steady: "steady s \<Longrightarrow> steady (call ev s)"
    and disconnect_stops: "\<not> running (disconnect s)"
begin

lemma calls_steady: "steady s \<Longrightarrow> steady (fold call evs s)"
  by (induction evs arbitrary: s) (auto intro: call_steady)

lemma stopped: "\<not> running s \<Longrightarrow> ReceiverWorker call running disconnect recvs rx s = Some s"
  by (cases recvs) (auto simp: ReceiverWorker_simps)

lemma worker_stream:
  assumes "\<forall>(n, buf) \<in> set recvs. 0 < n" "steady s" "drain rx = Some ([], rx, False)"
    and "drain (rx @ received recvs) = Some r"
  shows "ReceiverWorker call running disconnect recvs rx s = Some (finish call disconnect r s)"
  using assms
proof (induction recvs arbitrary: rx s r)
  case Nil
  then show ?case by (auto simp: finish_def ReceiverWorker_simps)
next
  case (Cons e recvs)
  obtain n buf where e: "e = (n, buf)" by (cases e)
  let ?rx = "rx @ recv_bytes n buf"
  obtain evs rest dropped where d: "drain ?rx = Some (evs, rest, dropped)" using drain_total by blast
  have all: "then_drain (evs, rest, dropped) (received recvs) = Some r"
    using drain_append [OF d, of "received recvs"] Cons.prems(4) by (simp add: e recv_bytes_min)
  have step: "ReceiverWorker call running disconnect (e # recvs) rx s =
      ReceiverWorker call running disconnect recvs rest
        (if dropped then disconnect (fold call evs s) else fold call evs s)"
    using Cons.prems steady_running by (simp add: e d ReceiverWorker_simps)
  show ?case
  proof (cases dropped)
    case True
    with all have "r = (evs, rest @ received recvs, True)" by (simp add: then_drain_def)
    with True step show ?thesis by (simp add: stopped disconnect_stops finish_def)
  next
    case False
    with all obtain r2 where r2: "drain (rest @ received recvs) = Some r2" "r = (evs @ fst r2, snd r2)"
      by (auto simp: then_drain_def)
    have "ReceiverWorker call running disconnect recvs rest (fold call evs s)
        = Some (finish call disconnect r2 (fold call evs s))"
      using False d drain_rest Cons.prems(1,2) r2(1) by (intro Cons.IH calls_steady) (auto simp: e)
    with False step r2(2) show ?thesis by (simp add: finish_def)
  qed
qed

lemma worker_frames:
  assumes "\<forall>(n, buf) \<in> set recvs. 0 < n" "steady s"
    and "drain (received recvs) = Some (evs, rest, False)"
  shows "ReceiverWorker call running disconnect recvs [] s = Some (fold call evs s)"
  using worker_stream [of recvs s "[]"] assms by (simp add: drain_step [of "[]"] finish_def)

end

text \<open>
  The transport with the list of the calls its listener has got: a listener that does not touch
  the transport.
\<close>

definition deliver :: "listener_event \<Rightarrow> TcpTransport \<times> listener_event list \<Rightarrow> TcpTransport \<times> listener_event list" where
  "deliver ev s = (fst s, snd s @ notify (fst s) ev)"

definition receiving :: "TcpTransport \<times> listener_event list \<Rightarrow> bool" where
  "receiving s \<longleftrightarrow> t_isRunning (fst s) \<and> t_isConnected (fst s)"

definition lose_connection :: "TcpTransport \<times> listener_event list \<Rightarrow> TcpTransport \<times> listener_event list" where
  "lose_connection s = ((fst s)\<lparr>t_isConnected := False\<rparr>, snd s)"

interpretation tcp: listener deliver receiving receiving lose_connection
  by unfold_locales (auto simp: deliver_def receiving_def lose_connection_def)

lemma fold_deliver: "t_listener t \<Longrightarrow> fold deliver evs (t, es) = (t, es @ evs)"
  by (induction evs arbitrary: es) (simp_all add: deliver_def notify_def)

subsection \<open>Frames\<close>

lemma frame_event_frame:
  assumes "length (f_payload f) \<le> MAX_PAYLOAD_SIZE"
  shows "frame_event (SerializeFrame f) = OnFrameReceived (frame_norm f)"
  using DeserializeFrame_SerializeFrame [OF assms, of "[]" TransportFrame_init]
  by (simp add: frame_event_def)

lemma drain_frame:
  assumes "length (f_payload f) \<le> MAX_PAYLOAD_SIZE"
  shows "drain (SerializeFrame f @ y) = map_option (cons_event (OnFrameReceived (frame_norm f))) (drain y)"
proof -
  note fields = SerializeFrame_fields [OF assms, of "SerializeFrame f @ y" y]
  have len: "length (SerializeFrame f) = 18 + length (f_payload f)" using assms by (rule length_SerializeFrame)
  show ?thesis
    using assms len frame_event_frame [OF assms]
    by (subst drain_step) (simp add: fields(1,2))
qed

text \<open>A frame of which the end is missing is waited for: nothing is delivered and nothing is reported.\<close>

lemma drain_partial:
  assumes "length (f_payload f) \<le> MAX_PAYLOAD_SIZE" "k < length (SerializeFrame f)"
  shows "drain (take k (SerializeFrame f)) = Some ([], take k (SerializeFrame f), False)"
proof (cases "k < 18")
  case True
  then have "length (take k (SerializeFrame f)) < 18" by simp
  then show ?thesis by (simp only: drain_step [of "take k (SerializeFrame f)"] if_True)
next
  case False
  let ?s = "SerializeFrame f"
  note fields = SerializeFrame_fields [OF assms(1), of ?s "[]", simplified]
  have len: "length (take k ?s) = k" using assms(2) by simp
  have "fr_magic (take k ?s) = FRAME_MAGIC" "fr_plen (take k ?s) = length (f_payload f)"
    using fr_append [of "take k ?s" "drop k ?s"] fields(1,2) len False by simp_all
  then show ?thesis
    using assms False by (subst drain_step) (simp add: length_SerializeFrame)
qed

lemma drain_frames:
  assumes "\<forall>f \<in> set fs. length (f_payload f) \<le> MAX_PAYLOAD_SIZE"
  shows "drain (concat (map SerializeFrame fs)) = Some (map (OnFrameReceived \<circ> frame_norm) fs, [], False)"
  using assms
proof (induction fs)
  case Nil
  then show ?case by (simp add: drain_step [of "[]"])
next
  case (Cons f fs)
  then show ?case by (simp add: drain_frame cons_event_def)
qed

text \<open>
  Delivery: when the bytes of a sequence of frames (as \<open>SerializeFrame\<close> writes them, payloads
  within the 64 KB limit) arrive, cut into \<open>recv\<close> results in any way, \<open>ReceiverWorker\<close> calls
  \<open>OnFrameReceived\<close> once for each frame, in order and with its fields, reports no error, and
  the connection stays up.
\<close>

theorem receiver_delivers_frames:
  assumes "t_listener t" "t_isRunning t" "t_isConnected t" "\<forall>(n, buf) \<in> set recvs. 0 < n"
    and "\<forall>f \<in> set fs. length (f_payload f) \<le> MAX_PAYLOAD_SIZE"
    and "received recvs = concat (map SerializeFrame fs)"
  shows "ReceiverWorker deliver receiving lose_connection recvs [] (t, es)
    = Some (t, es @ map (OnFrameReceived \<circ> frame_norm) fs)"
  using tcp.worker_frames [of recvs "(t, es)"] drain_frames [OF assms(5)] assms
  by (simp add: receiving_def fold_deliver)

definition sample_frame :: TransportFrame where
  "sample_frame = TransportFrame_init\<lparr>f_messageType := UNLOCK_RESP, f_sequenceNumber := 7, f_payload := [1, 2]\<rparr>"

definition connected_transport :: TcpTransport where
  "connected_transport = TcpTransport_init\<lparr>t_clientSocket := 3, t_listener := True, t_isConnected := True,
     t_isRunning := True, t_worker := ReceiverThread\<rparr>"

theorem receiver_delivers_frames_witness:
  "ReceiverWorker deliver receiving lose_connection
     [(5, SerializeFrame sample_frame), (35, drop 5 (SerializeFrame sample_frame @ SerializeFrame sample_frame))] []
     (connected_transport, [])
   = Some (connected_transport, [] @ map (OnFrameReceived \<circ> frame_norm) [sample_frame, sample_frame])"
proof (rule receiver_delivers_frames)
  have "length (SerializeFrame sample_frame) = 20"
    by (simp add: length_SerializeFrame sample_frame_def MAX_PAYLOAD_SIZE_def)
  then show "received [(5, SerializeFrame sample_frame),
      (35, drop 5 (SerializeFrame sample_frame @ SerializeFrame sample_frame))]
    = concat (map SerializeFrame [sample_frame, sample_frame])"
    by simp
qed (simp_all add: connected_transport_def sample_frame_def MAX_PAYLOAD_SIZE_def)

text \<open>
  C18. For every listener that leaves the connection up (\<open>steady\<close> is kept by each of its calls and
  implies the loop's condition), the result of \<open>ReceiverWorker\<close> depends on the bytes that arrive
  and not on how \<open>recv\<close> cuts them, whatever the bytes are (frames, damaged frames, garbage, an
  oversized header): the same calls of the listener in the same order, and the same final state.
  It is never stuck on a read outside the buffer. A listener that takes the connection down in the
  middle of a frame is outside the claim, since frames received together with it are still served.
\<close>

theorem receiver_chunking:
  assumes "\<forall>s. steady s \<longrightarrow> running s" "\<forall>ev s. steady s \<longrightarrow> steady (call ev s)" "\<forall>s. \<not> running (disconnect s)"
    and "steady s" "received recvs = received recvs'"
    and "\<forall>(n, buf) \<in> set recvs. 0 < n" "\<forall>(n, buf) \<in> set recvs'. 0 < n"
  shows "ReceiverWorker call running disconnect recvs [] s = ReceiverWorker call running disconnect recvs' [] s
    \<and> ReceiverWorker call running disconnect recvs [] s \<noteq> None"
proof -
  have L: "listener call steady running disconnect" using assms(1-3) by unfold_locales auto
  obtain r where r: "drain (received recvs) = Some r" using drain_total by blast
  have "ReceiverWorker call running disconnect rs [] s = Some (finish call disconnect r s)"
    if "\<forall>(n, buf) \<in> set rs. 0 < n" "received rs = received recvs" for rs
    using that assms(4) r by (intro listener.worker_stream [OF L]) (auto simp: drain_step [of "[]"])
  with assms show ?thesis by simp
qed

theorem receiver_chunking_witness:
  "ReceiverWorker deliver receiving lose_connection [(1, [80]), (2, [75, 70])] [] (connected_transport, [])
      = ReceiverWorker deliver receiving lose_connection [(3, [80, 75, 70])] [] (connected_transport, [])
    \<and> ReceiverWorker deliver receiving lose_connection [(1, [80]), (2, [75, 70])] [] (connected_transport, []) \<noteq> None"
  by (rule receiver_chunking [where steady = receiving])
    (simp_all add: connected_transport_def deliver_def receiving_def lose_connection_def)

lemma drain_suffix: "drain rx = Some (evs, rest, dropped) \<Longrightarrow> length rest \<le> length rx"
proof (induction "length rx" arbitrary: rx evs rule: less_induct)
  case less
  have IH: "length rest \<le> length rx" if "0 < n" "18 \<le> length rx" "drain (drop n rx) = Some (evs', rest, dropped)" for n evs'
  proof -
    have "length (drop n rx) < length rx" using that(1,2) by auto
    from less(1) [OF this that(3)] this show ?thesis by simp
  qed
  show ?case
    using less.prems IH [of 1] IH [of "18 + fr_plen rx"]
    by (auto simp: drain_step [of rx] cons_event_def split: if_splits)
qed

lemma length_recv_bytes: "length (recv_bytes n buf) \<le> 4096"
  by (simp add: recv_bytes_min)

text \<open>What one turn leaves in the buffer, when the loop's condition still holds after it and in general.\<close>

lemma receive_turn_bounded:
  assumes "\<forall>s. \<not> running (disconnect s)" "length rx \<le> 65553"
  shows "\<exists>go_on rx' s'. receive_turn call running disconnect r rx s = Some (go_on, rx', s')
    \<and> length rx' \<le> 69649 \<and> (go_on \<and> running s' \<longrightarrow> length rx' \<le> 65553)"
proof -
  obtain n buf where r: "r = (n, buf)" by (cases r)
  obtain evs rest dropped where d: "drain (rx @ recv_bytes n buf) = Some (evs, rest, dropped)" using drain_total by blast
  have "length rest \<le> 69649" using drain_suffix [OF d] length_recv_bytes [of n buf] assms(2) by simp
  moreover have "\<not> dropped \<Longrightarrow> length rest \<le> 65553" using drain_rest d by (fastforce simp: MAX_PAYLOAD_SIZE_def)
  ultimately show ?thesis using assms d by (cases dropped) (auto simp: receive_turn_def r Let_def)
qed

text \<open>
  C28. The receive buffer is bounded, for every listener: whatever the peer sends and however many
  \<open>recv\<close> calls have returned, the loop has made no read outside its buffer; \<open>rxBuffer\<close> holds at
  most 69649 bytes, and at most 65553 = 17 + 65536 whenever the loop goes on to another \<open>recv\<close>, so
  that with the up to 4096 bytes of that call it holds at most 69649 again (the inner loop only
  takes bytes away). The one assumption is that clearing \<open>m_isConnected\<close> makes the loop's condition
  false, as the source's condition has it.
\<close>

theorem receiver_bounded:
  assumes "\<forall>s. \<not> running (disconnect s)"
  shows "\<exists>go_on rx s'. receive_loop call running disconnect recvs [] s = Some (go_on, rx, s')
    \<and> ReceiverWorker call running disconnect recvs [] s = Some s' \<and> length rx \<le> 69649
    \<and> (go_on \<and> running s' \<longrightarrow> length rx \<le> 65553 \<and> (\<forall>n buf. length (rx @ recv_bytes n buf) \<le> 69649))"
proof -
  have "\<exists>go_on rx' s'. receive_loop call running disconnect recvs rx s = Some (go_on, rx', s')
    \<and> length rx' \<le> 69649 \<and> (go_on \<and> running s' \<longrightarrow> length rx' \<le> 65553)"
    if "length rx \<le> 69649" "running s \<longrightarrow> length rx \<le> 65553" for rx s
    using that
  proof (induction recvs arbitrary: rx s)
    case (Cons r recvs)
    show ?case
    proof (cases "running s")
      case True
      then obtain go_on rx' s' where
        "receive_turn call running disconnect r rx s = Some (go_on, rx', s')" "length rx' \<le> 69649"
        "go_on \<and> running s' \<longrightarrow> length rx' \<le> 65553"
        using receive_turn_bounded [where running = running and disconnect = disconnect, OF assms, of rx call r s]
          Cons.prems(2) by blast
      with Cons.IH [of rx' s'] show ?thesis by (cases go_on) auto
    next
      case False
      with Cons.prems show ?thesis by (cases r) (auto simp: receive_turn_def)
    qed
  qed auto
  from this [of "[]" s] obtain go_on rx s' where L: "receive_loop call running disconnect recvs [] s = Some (go_on, rx, s')"
    "length rx \<le> 69649" "go_on \<and> running s' \<longrightarrow> length rx \<le> 65553" by auto
  moreover have "length (rx @ recv_bytes n buf) \<le> 69649" if "length rx \<le> 65553" for n buf
    using that length_recv_bytes [of n buf] by simp
  ultimately show ?thesis by (auto simp: ReceiverWorker_def)
qed

theorem receiver_bounded_witness:
  "\<exists>go_on rx s'. receive_loop deliver receiving lose_connection [(5000, replicate 5000 0x50)] [] (connected_transport, [])
      = Some (go_on, rx, s') \<and> length rx \<le> 69649"
  using receiver_bounded [of receiving lose_connection deliver "[(5000, replicate 5000 0x50)]" "(connected_transport, [])"]
  by (auto simp: receiving_def lose_connection_def)

subsection \<open>Resynchronisation\<close>

lemma magic_first_byte:
  assumes "4 \<le> length rx" "rx ! 0 \<noteq> 0x50"
  shows "fr_magic rx \<noteq> FRAME_MAGIC"
proof
  assume "fr_magic rx = FRAME_MAGIC"
  then have "take 4 rx = put_be32 FRAME_MAGIC"
    using be32.enc_dec [of "take 4 rx"] assms(1) by (simp add: fr_magic_def)
  then have "take 4 rx ! 0 = put_be32 FRAME_MAGIC ! 0" by simp
  moreover have "put_be32 FRAME_MAGIC ! 0 = 0x50" by (simp add: put_be32_def FRAME_MAGIC_def)
  ultimately show False using assms by simp
qed

lemma drain_garbage:
  assumes "0x50 \<notin> set g" "18 \<le> length y"
  shows "drain (g @ y) = map_option (\<lambda>r. (replicate (length g) (OnError bad_magic_error) @ fst r, snd r)) (drain y)"
  using assms(1)
proof (induction g)
  case Nil
  then show ?case by (simp add: option.map_ident)
next
  case (Cons b g)
  then have "fr_magic ((b # g) @ y) \<noteq> FRAME_MAGIC"
    using assms(2) by (intro magic_first_byte) auto
  with Cons assms(2) show ?case
    by (subst drain_step) (simp add: option.map_comp o_def cons_event_def)
qed

text \<open>
  Resynchronisation: garbage in front of a frame that contains no byte \<open>0x50\<close> (the first byte
  of the magic) is skipped, one error per byte, and every frame that follows is delivered.
\<close>

theorem receiver_resynchronises:
  assumes "t_listener t" "t_isRunning t" "t_isConnected t" "\<forall>(n, buf) \<in> set recvs. 0 < n"
    and "\<forall>f \<in> set fs. length (f_payload f) \<le> MAX_PAYLOAD_SIZE" "fs \<noteq> []" "0x50 \<notin> set g"
    and "received recvs = g @ concat (map SerializeFrame fs)"
  shows "ReceiverWorker deliver receiving lose_connection recvs [] (t, es)
    = Some (t, es @ replicate (length g) (OnError bad_magic_error) @ map (OnFrameReceived \<circ> frame_norm) fs)"
proof -
  have "18 \<le> length (concat (map SerializeFrame fs))"
    using assms(5,6) by (cases fs) (simp_all add: length_SerializeFrame)
  then have "drain (received recvs)
      = Some (replicate (length g) (OnError bad_magic_error) @ map (OnFrameReceived \<circ> frame_norm) fs, [], False)"
    using drain_garbage [OF assms(7)] drain_frames [OF assms(5)] by (simp add: assms(8))
  then show ?thesis
    using tcp.worker_frames [of recvs "(t, es)"] assms by (simp add: receiving_def fold_deliver)
qed

theorem receiver_resynchronises_witness:
  "ReceiverWorker deliver receiving lose_connection [(22, [1, 2] @ SerializeFrame sample_frame)] []
     (connected_transport, [])
   = Some (connected_transport, [] @ replicate (length [1, 2 :: byte]) (OnError bad_magic_error)
       @ map (OnFrameReceived \<circ> frame_norm) [sample_frame])"
proof (rule receiver_resynchronises)
  have "length (SerializeFrame sample_frame) = 20"
    by (simp add: length_SerializeFrame sample_frame_def MAX_PAYLOAD_SIZE_def)
  then show "received [(22, [1, 2] @ SerializeFrame sample_frame)] = [1, 2] @ concat (map SerializeFrame [sample_frame])"
    by simp
qed (simp_all add: connected_transport_def sample_frame_def MAX_PAYLOAD_SIZE_def)

section \<open>Properties of the sender\<close>

text \<open>The bytes that the network took on a socket: of each \<open>send\<close>, as many as it answered.\<close>

fun sent_by :: "handle \<Rightarrow> os_call \<times> answer \<Rightarrow> byte list" where
  "sent_by s (Sock (WinSend s' bs), a) = (if s = s' then take (nat (a_num a)) bs else [])"
| "sent_by s _ = []"

definition sent_on :: "handle \<Rightarrow> os_log \<Rightarrow> byte list" where
  "sent_on s l = concat (map (sent_by s) l)"

lemma sent_on_simps [simp]: "sent_on s [] = []" "sent_on s (e # l) = sent_by s e @ sent_on s l"
  "sent_on s (l @ l') = sent_on s l @ sent_on s l'"
  by (simp_all add: sent_on_def)

text \<open>Documented behaviour of \<open>send\<close>: it takes no more bytes than it is given.\<close>

definition send_counts :: "env \<Rightarrow> bool" where
  "send_counts w \<longleftrightarrow> (\<forall>l s bs. a_num (w l (Sock (WinSend s bs))) \<le> int (length bs))"

lemma send_loop_sent:
  assumes "send_counts w" "0 \<le> totalSent" "totalSent \<le> int (length bs)"
    and "send_loop w s bs totalSent l = (ok, l')"
  shows "\<exists>t. l' = l @ t \<and> (ok \<longrightarrow> sent_on s t = drop (nat totalSent) bs)
    \<and> (\<not> ok \<longrightarrow> (\<exists>rest \<noteq> []. sent_on s t @ rest = drop (nat totalSent) bs))"
  using assms
proof (induction w s bs totalSent l arbitrary: ok l' rule: send_loop.induct)
  case (1 w s bs totalSent l)
  let ?c = "Sock (WinSend s (drop (nat totalSent) bs))"
  let ?n = "a_num (w l ?c)"
  show ?case
  proof (cases "totalSent < int (length bs)")
    case False
    with "1.prems" show ?thesis by (subst (asm) send_loop.simps) simp
  next
    case more: True
    show ?thesis
    proof (cases "?n \<le> 0")
      case True
      with more "1.prems" have "ok = False" "l' = l @ [(?c, w l ?c)]"
        by (subst (asm) send_loop.simps, simp add: Let_def)+
      moreover have "drop (nat totalSent) bs \<noteq> []" using more "1.prems"(2) by simp
      ultimately show ?thesis using True by simp
    next
      case False
      have n: "?n \<le> int (length bs) - totalSent"
      proof -
        have "?n \<le> int (length (drop (nat totalSent) bs))"
          using "1.prems"(1) unfolding send_counts_def by blast
        then show ?thesis using more "1.prems"(2) by simp
      qed
      have "send_loop w s bs (totalSent + ?n) (l @ [(?c, w l ?c)]) = (ok, l')"
        using "1.prems"(4) more False by (subst (asm) send_loop.simps) (simp add: Let_def)
      with "1.IH" [OF more refl refl refl False] n False "1.prems"(1,2)
      obtain t where t: "l' = (l @ [(?c, w l ?c)]) @ t" "ok \<longrightarrow> sent_on s t = drop (nat (totalSent + ?n)) bs"
        "\<not> ok \<longrightarrow> (\<exists>rest \<noteq> []. sent_on s t @ rest = drop (nat (totalSent + ?n)) bs)"
        by auto
      have "nat (totalSent + ?n) = nat ?n + nat totalSent" using False "1.prems"(2) by simp
      then have split: "drop (nat totalSent) bs = take (nat ?n) (drop (nat totalSent) bs) @ drop (nat (totalSent + ?n)) bs"
        by (simp flip: drop_drop)
      have hd: "sent_on s ((?c, w l ?c) # t) = take (nat ?n) (drop (nat totalSent) bs) @ sent_on s t" by simp
      show ?thesis
      proof (intro exI [of _ "(?c, w l ?c) # t"] conjI impI)
        show "l' = l @ (?c, w l ?c) # t" using t(1) by simp
      next
        assume ok
        with t(2) show "sent_on s ((?c, w l ?c) # t) = drop (nat totalSent) bs"
          unfolding hd by (simp only: split [symmetric])
      next
        assume "\<not> ok"
        with t(3) obtain rest where "rest \<noteq> []" "sent_on s t @ rest = drop (nat (totalSent + ?n)) bs" by blast
        then show "\<exists>rest. rest \<noteq> [] \<and> sent_on s ((?c, w l ?c) # t) @ rest = drop (nat totalSent) bs"
          unfolding hd append_assoc by (metis split)
      qed
    qed
  qed
qed

text \<open>The frame a call of \<open>SendFrame\<close> builds.\<close>

definition out_frame :: "TransportMessageType \<Rightarrow> byte list \<Rightarrow> u32 \<Rightarrow> TransportFrame" where
  "out_frame messageType payload seq = TransportFrame_init\<lparr>f_messageType := messageType,
     f_sequenceNumber := seq, f_payload := payload\<rparr>"

lemma f_payload_out_frame [simp]: "f_payload (out_frame ty payload seq) = payload"
  by (simp add: out_frame_def)

lemma SendFrame_run:
  "run_state (SendFrame w ty payload t) l =
     (if \<not> t_isConnected t \<or> t_clientSocket t = INVALID_SOCKET then ((False, t), l)
      else if length payload > MAX_PAYLOAD_SIZE then ((False, t\<lparr>t_sequenceCounter := t_sequenceCounter t + 1\<rparr>), l)
      else let r = send_loop w (t_clientSocket t) (SerializeFrame (out_frame ty payload (t_sequenceCounter t))) 0 l;
               t' = t\<lparr>t_sequenceCounter := t_sequenceCounter t + 1\<rparr>
           in ((fst r, if fst r then t' else t'\<lparr>t_isConnected := False\<rparr>), snd r))"
proof (cases "length payload > MAX_PAYLOAD_SIZE")
  case True
  then have "SerializeFrame (out_frame ty payload (t_sequenceCounter t)) = []"
    by (simp add: SerializeFrame_oversized)
  with True show ?thesis by (simp add: SendFrame_def out_frame_def)
next
  case False
  then have "SerializeFrame (out_frame ty payload (t_sequenceCounter t)) \<noteq> []"
    using length_SerializeFrame [of "out_frame ty payload (t_sequenceCounter t)"] by auto
  with False show ?thesis by (simp add: SendFrame_def out_frame_def Let_def split: prod.split)
qed

lemma SendFrame_effect:
  assumes "send_counts w" "run_state (SendFrame w ty payload t) l = ((ok, t'), l')"
    and "t_isConnected t" "t_clientSocket t \<noteq> INVALID_SOCKET"
  shows "\<exists>x. l' = l @ x \<and> t_sequenceCounter t' = t_sequenceCounter t + 1 \<and>
    (if ok then length payload \<le> MAX_PAYLOAD_SIZE \<and> t_isConnected t'
       \<and> sent_on (t_clientSocket t) x = SerializeFrame (out_frame ty payload (t_sequenceCounter t))
     else if length payload > MAX_PAYLOAD_SIZE then x = [] \<and> t_isConnected t'
     else \<not> t_isConnected t' \<and> (\<exists>rest \<noteq> []. sent_on (t_clientSocket t) x @ rest
            = SerializeFrame (out_frame ty payload (t_sequenceCounter t))))"
proof (cases "length payload > MAX_PAYLOAD_SIZE")
  case True
  with assms show ?thesis by (auto simp: SendFrame_run)
next
  case False
  obtain r1 r2 where r: "send_loop w (t_clientSocket t)
      (SerializeFrame (out_frame ty payload (t_sequenceCounter t))) 0 l = (r1, r2)" by fastforce
  from send_loop_sent [OF assms(1) _ _ r] obtain x where "r2 = l @ x"
    "r1 \<longrightarrow> sent_on (t_clientSocket t) x = SerializeFrame (out_frame ty payload (t_sequenceCounter t))"
    "\<not> r1 \<longrightarrow> (\<exists>rest \<noteq> []. sent_on (t_clientSocket t) x @ rest
        = SerializeFrame (out_frame ty payload (t_sequenceCounter t)))"
    by auto
  with False r assms(2-) show ?thesis
    by (cases r1) (auto simp: SendFrame_run)
qed

text \<open>
  \<open>SendFrame\<close>: it answers true exactly when the network has taken the whole serialized frame,
  byte for byte, over however many partial sends, with the current sequence number, which is
  then counted up (modulo \<open>2 ^ 32\<close>). When it answers false on an open connection, either the
  payload was too large and nothing was sent, or the frame was cut short and the transport is
  marked disconnected, so that no later call sends behind the torn frame (a concurrent call that
  has passed the test may: \<open>Tcp_Senders\<close>).
\<close>

theorem SendFrame_correct:
  assumes "send_counts w" "run_state (SendFrame w ty payload t) l = ((ok, t'), l')"
    and "t_isConnected t" "t_clientSocket t \<noteq> INVALID_SOCKET"
  shows "\<exists>x. l' = l @ x \<and> t_sequenceCounter t' = t_sequenceCounter t + 1 \<and>
    (if ok then length payload \<le> MAX_PAYLOAD_SIZE \<and> t_isConnected t'
       \<and> sent_on (t_clientSocket t) x = SerializeFrame (out_frame ty payload (t_sequenceCounter t))
     else if length payload > MAX_PAYLOAD_SIZE then x = [] \<and> t_isConnected t'
     else \<not> t_isConnected t' \<and> (\<exists>rest \<noteq> []. sent_on (t_clientSocket t) x @ rest
            = SerializeFrame (out_frame ty payload (t_sequenceCounter t))))"
  using assms by (rule SendFrame_effect)

text \<open>An environment whose \<open>send\<close> takes at most ten bytes at a time.\<close>

definition slow_env :: env where
  "slow_env l c = \<lparr>a_ok = True, a_handle = 7, a_bytes = [], a_num =
     (case c of Sock (WinSend s bs) \<Rightarrow> int (min 10 (length bs)) | _ \<Rightarrow> 0)\<rparr>"

lemma send_counts_slow_env: "send_counts slow_env"
  by (simp add: send_counts_def slow_env_def)

lemma send_loop_slow_env:
  assumes "length bs = 18 \<or> length bs = 20"
  shows "\<exists>l'. send_loop slow_env s bs 0 l = (True, l')"
proof -
  have last: "send_loop slow_env s bs 10 l = (True, l @ [(Sock (WinSend s (drop 10 bs)),
      slow_env l (Sock (WinSend s (drop 10 bs))))])" for l
    using assms by (subst send_loop.simps, subst send_loop.simps) (auto simp: slow_env_def)
  show ?thesis
    using assms last by (subst send_loop.simps) (auto simp: slow_env_def)
qed

lemma SendFrame_slow_env:
  assumes "length payload = 0 \<or> length payload = 2" "t_isConnected t" "t_clientSocket t \<noteq> INVALID_SOCKET"
  shows "\<exists>l'. run_state (SendFrame slow_env ty payload t) l
    = ((True, t\<lparr>t_sequenceCounter := t_sequenceCounter t + 1\<rparr>), l')"
proof -
  have "length (SerializeFrame (out_frame ty payload (t_sequenceCounter t))) = 18
      \<or> length (SerializeFrame (out_frame ty payload (t_sequenceCounter t))) = 20"
    using assms(1) by (auto simp: length_SerializeFrame MAX_PAYLOAD_SIZE_def)
  from send_loop_slow_env [OF this, of "t_clientSocket t" l] assms show ?thesis
    by (auto simp: SendFrame_run MAX_PAYLOAD_SIZE_def)
qed

lemma connected_transport_simps [simp]:
  "t_isConnected connected_transport" "t_isRunning connected_transport" "t_listener connected_transport"
  "t_clientSocket connected_transport = 3" "t_sequenceCounter connected_transport = 1"
  by (simp_all add: connected_transport_def TcpTransport_init_def)

lemma socket3_valid [simp]: "INVALID_SOCKET \<noteq> 3"
  by (simp add: INVALID_SOCKET_def SIZE_MAX_def)

theorem SendFrame_correct_witness:
  "\<exists>t' l'. run_state (SendFrame slow_env UNLOCK_REQ [1, 2] connected_transport) [] = ((True, t'), l')
     \<and> sent_on 3 l' = SerializeFrame (out_frame UNLOCK_REQ [1, 2] 1)"
proof -
  obtain t' l' where r: "run_state (SendFrame slow_env UNLOCK_REQ [1, 2] connected_transport) [] = ((True, t'), l')"
    using SendFrame_slow_env [of "[1, 2]" connected_transport] by fastforce
  with SendFrame_correct [OF send_counts_slow_env r] show ?thesis by auto
qed

subsection \<open>From sender to receiver\<close>

fun send_all :: "env \<Rightarrow> (TransportMessageType \<times> byte list) list \<Rightarrow> TcpTransport \<Rightarrow> (os_log, bool \<times> TcpTransport) state" where
  "send_all w [] t = State_Monad.return (True, t)"
| "send_all w ((ty, payload) # msgs) t = do {
     r \<leftarrow> SendFrame w ty payload t;
     if fst r then send_all w msgs (snd r) else State_Monad.return (False, snd r) }"

fun out_frames :: "u32 \<Rightarrow> (TransportMessageType \<times> byte list) list \<Rightarrow> TransportFrame list" where
  "out_frames seq [] = []"
| "out_frames seq ((ty, payload) # msgs) = out_frame ty payload seq # out_frames (seq + 1) msgs"

lemma SendFrame_socket: "run_state (SendFrame w ty payload t) l = ((ok, t'), l') \<Longrightarrow> t_clientSocket t' = t_clientSocket t"
  by (auto simp: SendFrame_run Let_def split: if_splits)

lemma send_all_sent:
  assumes "send_counts w" "t_isConnected t" "t_clientSocket t \<noteq> INVALID_SOCKET"
    and "run_state (send_all w msgs t) l = ((True, t'), l')"
  shows "\<exists>x. l' = l @ x \<and> sent_on (t_clientSocket t) x
      = concat (map SerializeFrame (out_frames (t_sequenceCounter t) msgs))
    \<and> (\<forall>f \<in> set (out_frames (t_sequenceCounter t) msgs). length (f_payload f) \<le> MAX_PAYLOAD_SIZE)"
  using assms(2-)
proof (induction msgs arbitrary: t l)
  case Nil
  then show ?case by simp
next
  case (Cons m msgs)
  obtain ty payload where m: "m = (ty, payload)" by (cases m)
  obtain ok t1 l1 where r: "run_state (SendFrame w ty payload t) l = ((ok, t1), l1)" by (metis surj_pair)
  with Cons.prems(3) have ok: ok and rest: "run_state (send_all w msgs t1) l1 = ((True, t'), l')"
    by (auto simp: m split: if_splits)
  from SendFrame_effect [OF assms(1) r Cons.prems(1,2)] ok obtain x where
    x: "l1 = l @ x" "t_sequenceCounter t1 = t_sequenceCounter t + 1" "length payload \<le> MAX_PAYLOAD_SIZE"
      "t_isConnected t1" "sent_on (t_clientSocket t) x = SerializeFrame (out_frame ty payload (t_sequenceCounter t))"
    by auto
  note s1 = SendFrame_socket [OF r]
  from Cons.IH [OF x(4) _ rest] Cons.prems(2) obtain y where
    "l' = l1 @ y" "sent_on (t_clientSocket t) y = concat (map SerializeFrame (out_frames (t_sequenceCounter t1) msgs))"
    "\<forall>f \<in> set (out_frames (t_sequenceCounter t1) msgs). length (f_payload f) \<le> MAX_PAYLOAD_SIZE"
    by (auto simp: s1)
  with x show ?case by (intro exI [of _ "x @ y"]) (auto simp: m)
qed

text \<open>
  End to end: if a transport sends a sequence of messages and every \<open>SendFrame\<close> answers true,
  and the bytes the network took arrive at a peer in order (in pieces of any size), then the
  listener of the peer gets exactly these messages, once each and in order, numbered
  consecutively from the sender's counter.
\<close>

theorem send_receive:
  assumes "send_counts w" "t_isConnected t" "t_clientSocket t \<noteq> INVALID_SOCKET"
    and "run_state (send_all w msgs t) l = ((True, t'), l')"
    and "t_listener r" "t_isRunning r" "t_isConnected r" "\<forall>(n, buf) \<in> set recvs. 0 < n"
    and "received recvs = sent_on (t_clientSocket t) (drop (length l) l')"
  shows "ReceiverWorker deliver receiving lose_connection recvs [] (r, es)
    = Some (r, es @ map (OnFrameReceived \<circ> frame_norm) (out_frames (t_sequenceCounter t) msgs))"
proof -
  obtain x where "l' = l @ x"
    and bytes: "sent_on (t_clientSocket t) x = concat (map SerializeFrame (out_frames (t_sequenceCounter t) msgs))"
    and small: "\<forall>f \<in> set (out_frames (t_sequenceCounter t) msgs). length (f_payload f) \<le> MAX_PAYLOAD_SIZE"
    using send_all_sent [OF assms(1-4)] by blast
  with assms(9) have "received recvs = concat (map SerializeFrame (out_frames (t_sequenceCounter t) msgs))" by simp
  with drain_frames [OF small] tcp.worker_frames [of recvs "(r, es)"] assms(5-8) show ?thesis
    by (simp add: receiving_def fold_deliver)
qed

theorem send_receive_witness:
  "\<exists>t' l'. run_state (send_all slow_env [(UNLOCK_REQ, [1, 2]), (ERROR_MSG, [])] connected_transport) [] = ((True, t'), l')
     \<and> ReceiverWorker deliver receiving lose_connection [(1, sent_on 3 l'), (999, drop 1 (sent_on 3 l'))] []
         (connected_transport, [])
       = Some (connected_transport, map (OnFrameReceived \<circ> frame_norm) [out_frame UNLOCK_REQ [1, 2] 1, out_frame ERROR_MSG [] 2])"
proof -
  let ?msgs = "[(UNLOCK_REQ, [1, 2]), (ERROR_MSG, [])]"
  obtain l1 where "run_state (SendFrame slow_env UNLOCK_REQ [1, 2] connected_transport) []
      = ((True, connected_transport\<lparr>t_sequenceCounter := 2\<rparr>), l1)"
    using SendFrame_slow_env [of "[1, 2]" connected_transport] by fastforce
  moreover obtain t' l' where "run_state (SendFrame slow_env ERROR_MSG [] (connected_transport\<lparr>t_sequenceCounter := 2\<rparr>)) l1
      = ((True, t'), l')"
    using SendFrame_slow_env [of "[]" "connected_transport\<lparr>t_sequenceCounter := 2\<rparr>"] by fastforce
  ultimately have r: "run_state (send_all slow_env ?msgs connected_transport) [] = ((True, t'), l')" by simp
  from send_all_sent [OF send_counts_slow_env _ _ r]
  have "length (sent_on 3 l') = 38" by (auto simp: length_SerializeFrame MAX_PAYLOAD_SIZE_def)
  then have "received [(1, sent_on 3 l'), (999, drop 1 (sent_on 3 l'))] = sent_on 3 l'"
    by (simp add: append_take_drop_id [of 1, symmetric])
  with send_receive [OF send_counts_slow_env _ _ r, of connected_transport "[(1, sent_on 3 l'), (999, drop 1 (sent_on 3 l'))]" "[]"] r
  show ?thesis by auto
qed

section \<open>Ownership of the sockets\<close>

definition open_sock :: "handle \<Rightarrow> resource multiset" where
  "open_sock h = (if h = INVALID_SOCKET then {#} else {#RSock h#})"

lemma open_sock_INVALID [simp]: "open_sock INVALID_SOCKET = {#}"
  by (simp add: open_sock_def)

definition socks :: "TcpTransport \<Rightarrow> resource multiset" where
  "socks t = open_sock (t_listenSocket t) + open_sock (t_clientSocket t)"

text \<open>
  \<open>tcp_owns t l rest\<close>: what the process holds is the sockets of the transport and \<open>rest\<close>, and a
  thread that waits in \<open>accept\<close> has the client socket to itself.
\<close>

definition tcp_owns :: "TcpTransport \<Rightarrow> os_log \<Rightarrow> resource multiset \<Rightarrow> bool" where
  "tcp_owns t l rest \<longleftrightarrow> held l = socks t + rest \<and> releases_ok l
     \<and> (t_worker t = ListenerThread \<longrightarrow> t_isRunning t \<and> t_clientSocket t = INVALID_SOCKET)"

definition close_call :: "env \<Rightarrow> handle \<Rightarrow> os_log \<Rightarrow> os_log" where
  "close_call w h l = (if h = INVALID_SOCKET then l else l @ [(Sock (WinCloseSocket h), w l (Sock (WinCloseSocket h)))])"

definition closed_state :: "TcpTransport \<Rightarrow> TcpTransport" where
  "closed_state t = t\<lparr>t_listenSocket := INVALID_SOCKET, t_clientSocket := INVALID_SOCKET,
     t_isConnected := False, t_isRunning := False, t_worker := NoThread\<rparr>"

lemma Close_run:
  "run_state (Close w t) l = (closed_state t, close_call w (t_clientSocket t) (close_call w (t_listenSocket t) l))"
  by (cases t; cases "t_listenSocket t = INVALID_SOCKET"; cases "t_clientSocket t = INVALID_SOCKET")
    (simp_all add: Close_def close_call_def closed_state_def Let_def)

lemma close_call_held:
  assumes "open_sock h \<subseteq># held l" "releases_ok l"
  shows "held (close_call w h l) = held l - open_sock h \<and> releases_ok (close_call w h l)"
  using assms by (auto simp: close_call_def open_sock_def)

lemma Close_owns:
  assumes "tcp_owns t l rest" "run_state (Close w t) l = (t', l')"
  shows "t' = closed_state t \<and> held l' = rest \<and> releases_ok l'"
  using assms close_call_held [of "t_listenSocket t" l w]
    close_call_held [of "t_clientSocket t" "close_call w (t_listenSocket t) l" w]
  by (simp add: Close_run tcp_owns_def socks_def)

lemma closed_state_simps [simp]:
  "t_listenSocket (closed_state t) = INVALID_SOCKET" "t_clientSocket (closed_state t) = INVALID_SOCKET"
  "t_worker (closed_state t) = NoThread" "\<not> t_isRunning (closed_state t)" "\<not> t_isConnected (closed_state t)"
  by (simp_all add: closed_state_def)

lemma tcp_owns_closed: "releases_ok l \<Longrightarrow> tcp_owns (closed_state t) l (held l)"
  by (simp add: tcp_owns_def socks_def)

text \<open>The operations of the transport; \<open>accept\<close> returns only while a thread waits in it.\<close>

datatype tcp_op =
    OpStartListener u16
  | OpConnect string u16
  | OpAccepted
  | OpSendFrame TransportMessageType "byte list"
  | OpClose

fun tcp_step :: "env \<Rightarrow> tcp_op \<Rightarrow> TcpTransport \<Rightarrow> (os_log, TcpTransport) state" where
  "tcp_step w (OpStartListener port) t = do { r \<leftarrow> StartListener w port t; State_Monad.return (fst (snd r)) }"
| "tcp_step w (OpConnect address port) t = do { r \<leftarrow> Connect w address port t; State_Monad.return (fst (snd r)) }"
| "tcp_step w OpAccepted t =
     (if t_worker t = ListenerThread then do { r \<leftarrow> ListenerWorker w t; State_Monad.return (fst (snd r)) }
      else State_Monad.return t)"
| "tcp_step w (OpSendFrame ty payload) t = do { r \<leftarrow> SendFrame w ty payload t; State_Monad.return (snd r) }"
| "tcp_step w OpClose t = Close w t"

fun tcp_run :: "env \<Rightarrow> tcp_op list \<Rightarrow> TcpTransport \<Rightarrow> (os_log, TcpTransport) state" where
  "tcp_run w [] t = State_Monad.return t"
| "tcp_run w (op # ops) t = do { t' \<leftarrow> tcp_step w op t; tcp_run w ops t' }"

lemma send_loop_neutral:
  "send_loop w s bs n l = (ok, l') \<Longrightarrow> held l' = held l \<and> (releases_ok l \<longrightarrow> releases_ok l')"
proof (induction w s bs n l rule: send_loop.induct)
  case (1 w s bs n l)
  let ?c = "Sock (WinSend s (drop (nat n) bs))"
  show ?case
  proof (cases "n < int (length bs) \<and> 0 < a_num (w l ?c)")
    case True
    with "1.prems" "1.IH" show ?thesis by (subst (asm) send_loop.simps) (simp add: Let_def)
  next
    case False
    with "1.prems" show ?thesis by (subst (asm) send_loop.simps) (auto simp: Let_def split: if_splits)
  qed
qed

lemma SendFrame_owns:
  assumes "tcp_owns t l rest" "run_state (SendFrame w ty payload t) l = ((ok, t'), l')"
  shows "tcp_owns t' l' rest"
proof (cases "\<not> t_isConnected t \<or> t_clientSocket t = INVALID_SOCKET \<or> length payload > MAX_PAYLOAD_SIZE")
  case True
  with assms show ?thesis by (auto simp: SendFrame_run tcp_owns_def socks_def split: if_splits)
next
  case False
  obtain r1 r2 where r: "send_loop w (t_clientSocket t)
      (SerializeFrame (out_frame ty payload (t_sequenceCounter t))) 0 l = (r1, r2)" by fastforce
  from send_loop_neutral [OF r] assms False show ?thesis
    by (auto simp: SendFrame_run r tcp_owns_def socks_def Let_def split: if_splits)
qed

lemma StartListener_owns:
  assumes "tcp_owns t l rest" "run_state (StartListener w port t) l = ((ok, t', evs), l')"
  shows "tcp_owns t' l' rest"
proof -
  obtain t1 l1 where c: "run_state (Close w t) l = (t1, l1)" by fastforce
  from Close_owns [OF assms(1) c] have "t1 = closed_state t" "held l1 = rest" "releases_ok l1" by auto
  with assms(2) show ?thesis
    by (auto simp: StartListener_def c tcp_owns_def socks_def open_sock_def run_if Let_def split: if_splits)
qed

lemma Connect_owns:
  assumes "tcp_owns t l rest" "run_state (Connect w address port t) l = ((ok, t', evs), l')"
  shows "tcp_owns t' l' rest"
proof -
  obtain t1 l1 where c: "run_state (Close w t) l = (t1, l1)" by fastforce
  from Close_owns [OF assms(1) c] have "t1 = closed_state t" "held l1 = rest" "releases_ok l1" by auto
  with assms(2) show ?thesis
    by (auto simp: Connect_def c tcp_owns_def socks_def open_sock_def run_if Let_def split: if_splits)
qed

lemma ListenerWorker_owns:
  assumes "tcp_owns t l rest" "t_worker t = ListenerThread" "run_state (ListenerWorker w t) l = ((ok, t', evs), l')"
  shows "tcp_owns t' l' rest"
  using assms
  by (auto simp: ListenerWorker_def tcp_owns_def socks_def open_sock_def run_if Let_def split: if_splits)

lemma tcp_step_owns:
  assumes "tcp_owns t l rest" "run_state (tcp_step w op t) l = (t', l')"
  shows "tcp_owns t' l' rest"
proof (cases op)
  case (OpStartListener port)
  with assms show ?thesis by (auto intro: StartListener_owns split: prod.splits)
next
  case (OpConnect address port)
  with assms show ?thesis by (auto intro: Connect_owns split: prod.splits)
next
  case OpAccepted
  with assms show ?thesis by (auto intro: ListenerWorker_owns split: prod.splits if_splits)
next
  case (OpSendFrame ty payload)
  with assms show ?thesis by (auto intro: SendFrame_owns split: prod.splits)
next
  case OpClose
  with assms Close_owns [OF assms(1)] tcp_owns_closed [of l' t] show ?thesis by auto
qed

lemma tcp_run_owns:
  assumes "tcp_owns t l rest" "run_state (tcp_run w ops t) l = (t', l')"
  shows "tcp_owns t' l' rest"
  using assms
proof (induction ops arbitrary: t l)
  case Nil
  then show ?case by simp
next
  case (Cons op ops)
  obtain t1 l1 where step: "run_state (tcp_step w op t) l = (t1, l1)" by fastforce
  from tcp_step_owns [OF Cons.prems(1) step] Cons.prems(2) show ?case by (auto simp: step intro: Cons.IH)
qed

text \<open>
  No socket leaks and none is closed twice: through any sequence of \<open>StartListener\<close>,
  \<open>Connect\<close>, accepted connections, \<open>SendFrame\<close> and \<open>Close\<close>, with any of their calls failing, a
  final \<open>Close\<close> leaves the process with exactly the resources it held before the transport
  existed, disconnected and with no worker thread.
\<close>

theorem transport_no_leak:
  assumes "releases_ok l" "run_state (tcp_run w ops TcpTransport_init) l = (t, l1)"
    and "run_state (Close w t) l1 = (t', l2)"
  shows "held l2 = held l \<and> releases_ok l2 \<and> \<not> IsConnected t' \<and> t_worker t' = NoThread"
proof -
  have "tcp_owns TcpTransport_init l (held l)"
    using assms(1) by (simp add: tcp_owns_def socks_def TcpTransport_init_def)
  from Close_owns [OF tcp_run_owns [OF this assms(2)] assms(3)] show ?thesis
    by (auto simp: IsConnected_def)
qed

definition sample_tcp_ops :: "tcp_op list" where
  "sample_tcp_ops = [OpStartListener 8443, OpAccepted, OpConnect ''h'' 1, OpStartListener 9]"

theorem transport_no_leak_witness:
  "let r1 = run_state (tcp_run slow_env sample_tcp_ops TcpTransport_init) [];
       r2 = run_state (Close slow_env (fst r1)) (snd r1)
   in t_listenSocket (fst r1) = 7 \<and> held (snd r2) = {#} \<and> releases_ok (snd r2) \<and> t_worker (fst r2) = NoThread"
proof -
  let ?r1 = "run_state (tcp_run slow_env sample_tcp_ops TcpTransport_init) []"
  let ?r2 = "run_state (Close slow_env (fst ?r1)) (snd ?r1)"
  have "INVALID_SOCKET \<noteq> 7" by (simp add: INVALID_SOCKET_def SIZE_MAX_def)
  then have "t_listenSocket (fst ?r1) = 7"
    by (simp add: sample_tcp_ops_def StartListener_def ListenerWorker_def Connect_def Close_run slow_env_def Let_def)
  with transport_no_leak [of "[]" slow_env sample_tcp_ops "fst ?r1" "snd ?r1" "fst ?r2" "snd ?r2"] show ?thesis
    by (simp add: Let_def)
qed

section \<open>The Bluetooth stand-in\<close>

text \<open>
  \<open>BluetoothTransport\<close> sends nothing: once \<open>Connect\<close> or \<open>StartListener\<close> has been called,
  \<open>SendFrame\<close> answers true for every payload, also for one above the 64 KB limit for which
  \<open>SerializeFrame\<close> produces no frame at all and \<open>TcpTransport::SendFrame\<close> answers false.
\<close>

theorem Bluetooth_claims_success:
  "fst (Bluetooth_SendFrame ty payload (fst (snd (Bluetooth_Connect a p b)))) = True
   \<and> fst (Bluetooth_SendFrame ty payload (fst (snd (Bluetooth_StartListener p b)))) = True
   \<and> fst (Bluetooth_SendFrame ty payload (fst (Bluetooth_Close b))) = False
   \<and> (length payload > MAX_PAYLOAD_SIZE \<longrightarrow> SerializeFrame (out_frame ty payload (b_sequenceCounter b)) = []
       \<and> fst (fst (run_state (SendFrame w ty payload t) l)) = False)"
  by (auto simp: Bluetooth_SendFrame_def Bluetooth_Connect_def Bluetooth_StartListener_def Bluetooth_Close_def
      Let_def SerializeFrame_oversized SendFrame_run)

theorem Bluetooth_claims_success_witness:
  "fst (Bluetooth_SendFrame UNLOCK_REQ (replicate 65537 0)
      (fst (snd (Bluetooth_Connect ''x'' 1 BluetoothTransport_init)))) = True
   \<and> SerializeFrame (out_frame UNLOCK_REQ (replicate 65537 0) (b_sequenceCounter BluetoothTransport_init)) = []"
  using Bluetooth_claims_success [of UNLOCK_REQ "replicate 65537 0" "''x''" 1 BluetoothTransport_init]
  by (simp add: MAX_PAYLOAD_SIZE_def)

text \<open>
  The constructor does not look at the answer of \<open>WSAStartup\<close>: when it fails, the destructor still
  calls \<open>WSACleanup\<close>, and takes away a startup that some other part of the process made, or one that
  nobody made.
\<close>

theorem winsock_unbalanced:
  assumes "\<not> a_ok (w l (Sock WSAStartup))" "run_state (TcpTransport_new w) l = (t, l1)" "run_state (TcpTransport_destroy w t) l1 = ((), l2)"
  shows "held l2 = held l - {#RWinsock#}"
  using assms by (auto simp: TcpTransport_new_def TcpTransport_destroy_def Close_run close_call_def closed_state_def TcpTransport_init_def)

end
