(* ===== verification/Protocol.thy ===== *)
theory Protocol
  imports Prelude
begin

text \<open>
  \<open>windows/common/Protocol.h\<close> and \<open>Protocol.cpp\<close>: the protocol constants, the error codes,
  and the canonical 108-byte payload that the phone signs, with \<open>AuthPayload::Serialize\<close> and
  \<open>AuthPayload::Deserialize\<close>. The parser's reads are checked reads, and its out-parameters
  are part of its result, so that what it leaves in them on an error is part of the model.
\<close>

section \<open>Constants and error codes\<close>

definition DOMAIN_SIZE :: nat where "DOMAIN_SIZE = 16"
definition UUID_SIZE :: nat where "UUID_SIZE = 16"
definition CHALLENGE_SIZE :: nat where "CHALLENGE_SIZE = 32"
definition CANONICAL_PAYLOAD_SIZE :: nat where "CANONICAL_PAYLOAD_SIZE = 108"

text \<open>ASCII \<open>PhoneKey-Auth-v1\<close>.\<close>

definition DOMAIN_PREFIX :: "byte list" where
  "DOMAIN_PREFIX = [0x50, 0x68, 0x6F, 0x6E, 0x65, 0x4B, 0x65, 0x79,
                    0x2D, 0x41, 0x75, 0x74, 0x68, 0x2D, 0x76, 0x31]"

definition CURRENT_PROTOCOL_VERSION :: u16 where "CURRENT_PROTOCOL_VERSION = 0x0100"
definition ALGORITHM_ECDSA_P256_SHA256 :: u16 where "ALGORITHM_ECDSA_P256_SHA256 = 0x0001"
definition DEFAULT_CHALLENGE_TTL_MS :: u64 where "DEFAULT_CHALLENGE_TTL_MS = 30000"

lemmas size_defs = DOMAIN_SIZE_def UUID_SIZE_def CHALLENGE_SIZE_def CANONICAL_PAYLOAD_SIZE_def

lemma length_DOMAIN_PREFIX [simp]: "length DOMAIN_PREFIX = 16"
  by (simp add: DOMAIN_PREFIX_def)

datatype ErrorCode =
    SUCCESS | INVALID_REQUEST | INVALID_PROTOCOL_VERSION | INVALID_ALGORITHM | UNKNOWN_DEVICE
  | INVALID_SIGNATURE | CHALLENGE_NOT_FOUND | CHALLENGE_EXPIRED | CHALLENGE_ALREADY_CONSUMED
  | SESSION_MISMATCH | DEVICE_MISMATCH | PC_MISMATCH | MALFORMED_SIGNATURE | CRYPTO_ERROR
  | BIOMETRIC_REQUIRED | BIOMETRIC_FAILED | KEY_INVALIDATED

fun ErrorCode_value :: "ErrorCode \<Rightarrow> u16" where
  "ErrorCode_value SUCCESS = 0x0000"
| "ErrorCode_value INVALID_REQUEST = 0x0001"
| "ErrorCode_value INVALID_PROTOCOL_VERSION = 0x0002"
| "ErrorCode_value INVALID_ALGORITHM = 0x0003"
| "ErrorCode_value UNKNOWN_DEVICE = 0x0004"
| "ErrorCode_value INVALID_SIGNATURE = 0x0005"
| "ErrorCode_value CHALLENGE_NOT_FOUND = 0x0006"
| "ErrorCode_value CHALLENGE_EXPIRED = 0x0007"
| "ErrorCode_value CHALLENGE_ALREADY_CONSUMED = 0x0008"
| "ErrorCode_value SESSION_MISMATCH = 0x0009"
| "ErrorCode_value DEVICE_MISMATCH = 0x000A"
| "ErrorCode_value PC_MISMATCH = 0x000B"
| "ErrorCode_value MALFORMED_SIGNATURE = 0x000C"
| "ErrorCode_value CRYPTO_ERROR = 0x000D"
| "ErrorCode_value BIOMETRIC_REQUIRED = 0x000E"
| "ErrorCode_value BIOMETRIC_FAILED = 0x000F"
| "ErrorCode_value KEY_INVALIDATED = 0x0010"

fun ErrorCodeToString :: "ErrorCode \<Rightarrow> string" where
  "ErrorCodeToString SUCCESS = ''SUCCESS''"
| "ErrorCodeToString INVALID_REQUEST = ''INVALID_REQUEST''"
| "ErrorCodeToString INVALID_PROTOCOL_VERSION = ''INVALID_PROTOCOL_VERSION''"
| "ErrorCodeToString INVALID_ALGORITHM = ''INVALID_ALGORITHM''"
| "ErrorCodeToString UNKNOWN_DEVICE = ''UNKNOWN_DEVICE''"
| "ErrorCodeToString INVALID_SIGNATURE = ''INVALID_SIGNATURE''"
| "ErrorCodeToString CHALLENGE_NOT_FOUND = ''CHALLENGE_NOT_FOUND''"
| "ErrorCodeToString CHALLENGE_EXPIRED = ''CHALLENGE_EXPIRED''"
| "ErrorCodeToString CHALLENGE_ALREADY_CONSUMED = ''CHALLENGE_ALREADY_CONSUMED''"
| "ErrorCodeToString SESSION_MISMATCH = ''SESSION_MISMATCH''"
| "ErrorCodeToString DEVICE_MISMATCH = ''DEVICE_MISMATCH''"
| "ErrorCodeToString PC_MISMATCH = ''PC_MISMATCH''"
| "ErrorCodeToString MALFORMED_SIGNATURE = ''MALFORMED_SIGNATURE''"
| "ErrorCodeToString CRYPTO_ERROR = ''CRYPTO_ERROR''"
| "ErrorCodeToString BIOMETRIC_REQUIRED = ''BIOMETRIC_REQUIRED''"
| "ErrorCodeToString BIOMETRIC_FAILED = ''BIOMETRIC_FAILED''"
| "ErrorCodeToString KEY_INVALIDATED = ''KEY_INVALIDATED''"

text \<open>
  An \<open>enum class\<close> with an unsigned underlying type is ordered by its values; the order of the
  type is that order.
\<close>

lemma ErrorCode_value_inj: "ErrorCode_value a = ErrorCode_value b \<Longrightarrow> a = b"
  by (cases a; cases b) simp_all

instantiation ErrorCode :: linorder
begin

definition less_eq_ErrorCode :: "ErrorCode \<Rightarrow> ErrorCode \<Rightarrow> bool" where
  "less_eq_ErrorCode a b = (ErrorCode_value a \<le> ErrorCode_value b)"

definition less_ErrorCode :: "ErrorCode \<Rightarrow> ErrorCode \<Rightarrow> bool" where
  "less_ErrorCode a b = (ErrorCode_value a < ErrorCode_value b)"

instance
  by standard
    (auto simp: less_eq_ErrorCode_def less_ErrorCode_def dest: ErrorCode_value_inj order_antisym)

end

section \<open>The canonical payload\<close>

record AuthPayload =
  p_domain :: "byte list"
  p_protocolVersion :: u16
  p_algorithmId :: u16
  p_deviceId :: "byte list"
  p_sessionId :: "byte list"
  p_pcId :: "byte list"
  p_challenge :: "byte list"
  p_expirationTimestampMs :: u64

text \<open>The constructor.\<close>

definition AuthPayload_init :: AuthPayload where
  "AuthPayload_init =
     \<lparr>p_domain = DOMAIN_PREFIX, p_protocolVersion = CURRENT_PROTOCOL_VERSION,
      p_algorithmId = ALGORITHM_ECDSA_P256_SHA256,
      p_deviceId = replicate UUID_SIZE 0, p_sessionId = replicate UUID_SIZE 0,
      p_pcId = replicate UUID_SIZE 0, p_challenge = replicate CHALLENGE_SIZE 0,
      p_expirationTimestampMs = 0\<rparr>"

text \<open>The array sizes of the struct: true of every \<open>AuthPayload\<close> object by its type.\<close>

definition AuthPayload_wf :: "AuthPayload \<Rightarrow> bool" where
  "AuthPayload_wf p \<longleftrightarrow> length (p_domain p) = DOMAIN_SIZE \<and> length (p_deviceId p) = UUID_SIZE
     \<and> length (p_sessionId p) = UUID_SIZE \<and> length (p_pcId p) = UUID_SIZE
     \<and> length (p_challenge p) = CHALLENGE_SIZE"

text \<open>A payload of the current protocol: what the parser is meant to accept.\<close>

definition AuthPayload_current :: "AuthPayload \<Rightarrow> bool" where
  "AuthPayload_current p \<longleftrightarrow> AuthPayload_wf p \<and> p_domain p = DOMAIN_PREFIX
     \<and> p_protocolVersion p = CURRENT_PROTOCOL_VERSION
     \<and> p_algorithmId p = ALGORITHM_ECDSA_P256_SHA256"

definition Serialize :: "AuthPayload \<Rightarrow> byte list" where
  "Serialize p =
     (let buffer = replicate CANONICAL_PAYLOAD_SIZE 0;
          offset = 0;
          buffer = wr buffer offset (p_domain p);
          offset = offset + DOMAIN_SIZE;
          buffer = wr buffer offset (put_be16 (p_protocolVersion p));
          offset = offset + 2;
          buffer = wr buffer offset (put_be16 (p_algorithmId p));
          offset = offset + 2;
          buffer = wr buffer offset (p_deviceId p);
          offset = offset + UUID_SIZE;
          buffer = wr buffer offset (p_sessionId p);
          offset = offset + UUID_SIZE;
          buffer = wr buffer offset (p_pcId p);
          offset = offset + UUID_SIZE;
          buffer = wr buffer offset (p_challenge p);
          offset = offset + CHALLENGE_SIZE;
          buffer = wr buffer offset (put_be64 (p_expirationTimestampMs p))
      in buffer)"

text \<open>
  The result is the return value with the two out-parameters as the call leaves them; \<open>None\<close>
  is a read outside the buffer.
\<close>

definition Deserialize ::
    "byte list option \<Rightarrow> AuthPayload \<Rightarrow> (bool \<times> AuthPayload \<times> ErrorCode) option" where
  "Deserialize data outPayload =
     (case data of
        None \<Rightarrow> Some (False, outPayload, INVALID_REQUEST)
      | Some buf \<Rightarrow>
          if length buf \<noteq> CANONICAL_PAYLOAD_SIZE then Some (False, outPayload, INVALID_REQUEST)
          else do {
            let offset = 0;
            dom \<leftarrow> rds buf offset DOMAIN_SIZE;
            let outPayload = outPayload\<lparr>p_domain := dom\<rparr>;
            if p_domain outPayload \<noteq> DOMAIN_PREFIX then Some (False, outPayload, INVALID_REQUEST)
            else do {
              let offset = offset + DOMAIN_SIZE;
              ver \<leftarrow> rd16 buf offset;
              let outPayload = outPayload\<lparr>p_protocolVersion := ver\<rparr>;
              if p_protocolVersion outPayload \<noteq> CURRENT_PROTOCOL_VERSION
              then Some (False, outPayload, INVALID_PROTOCOL_VERSION)
              else do {
                let offset = offset + 2;
                alg \<leftarrow> rd16 buf offset;
                let outPayload = outPayload\<lparr>p_algorithmId := alg\<rparr>;
                if p_algorithmId outPayload \<noteq> ALGORITHM_ECDSA_P256_SHA256
                then Some (False, outPayload, INVALID_ALGORITHM)
                else do {
                  let offset = offset + 2;
                  dev \<leftarrow> rds buf offset UUID_SIZE;
                  let offset = offset + UUID_SIZE;
                  sess \<leftarrow> rds buf offset UUID_SIZE;
                  let offset = offset + UUID_SIZE;
                  pc \<leftarrow> rds buf offset UUID_SIZE;
                  let offset = offset + UUID_SIZE;
                  chal \<leftarrow> rds buf offset CHALLENGE_SIZE;
                  let offset = offset + CHALLENGE_SIZE;
                  ts \<leftarrow> rds buf offset 8;
                  Some (True,
                        outPayload\<lparr>p_deviceId := dev, p_sessionId := sess, p_pcId := pc,
                          p_challenge := chal, p_expirationTimestampMs := get_be64 ts\<rparr>,
                        SUCCESS)
                }}}})"

subsection \<open>Layout\<close>

lemma Serialize_layout:
  assumes "AuthPayload_wf p"
  shows "Serialize p = p_domain p @ put_be16 (p_protocolVersion p) @ put_be16 (p_algorithmId p)
    @ p_deviceId p @ p_sessionId p @ p_pcId p @ p_challenge p @ put_be64 (p_expirationTimestampMs p)"
  using assms
  by (simp add: Serialize_def AuthPayload_wf_def size_defs Let_def wr_first wr_next
      del: append_assoc)

lemma length_Serialize: "AuthPayload_wf p \<Longrightarrow> length (Serialize p) = CANONICAL_PAYLOAD_SIZE"
  by (simp add: Serialize_layout) (simp add: AuthPayload_wf_def size_defs)

subsection \<open>What the parser returns\<close>

text \<open>The error of a buffer, read off its bytes: the specification of the branches.\<close>

definition payload_error :: "byte list option \<Rightarrow> ErrorCode" where
  "payload_error data =
     (case data of
        None \<Rightarrow> INVALID_REQUEST
      | Some buf \<Rightarrow>
          if length buf \<noteq> 108 \<or> take 16 buf \<noteq> DOMAIN_PREFIX then INVALID_REQUEST
          else if take 2 (drop 16 buf) \<noteq> [0x01, 0x00] then INVALID_PROTOCOL_VERSION
          else if take 2 (drop 18 buf) \<noteq> [0x00, 0x01] then INVALID_ALGORITHM
          else SUCCESS)"

lemma put_be16_constants:
  "put_be16 CURRENT_PROTOCOL_VERSION = [0x01, 0x00]"
  "put_be16 ALGORITHM_ECDSA_P256_SHA256 = [0x00, 0x01]"
  by (simp_all add: put_be16_def CURRENT_PROTOCOL_VERSION_def ALGORITHM_ECDSA_P256_SHA256_def)

lemma dec_be16_constants:
  "dec_be16 [0x01, 0x00] = CURRENT_PROTOCOL_VERSION"
  "dec_be16 [0x00, 0x01] = ALGORITHM_ECDSA_P256_SHA256"
  using get_put16 [of CURRENT_PROTOCOL_VERSION] get_put16 [of ALGORITHM_ECDSA_P256_SHA256]
  by (simp_all add: put_be16_constants)

lemma dec_be16_field:
  "off + 2 \<le> length buf \<Longrightarrow> dec_be16 (take 2 (drop off buf)) = v \<longleftrightarrow> take 2 (drop off buf) = put_be16 v"
  by (rule be16.dec_eq_iff) simp

text \<open>On a buffer of the right size every read is inside it and the monad disappears.\<close>

lemma Deserialize_108:
  assumes "length buf = 108"
  shows "Deserialize (Some buf) out =
    (let out1 = out\<lparr>p_domain := take 16 buf\<rparr>;
         out2 = out1\<lparr>p_protocolVersion := dec_be16 (take 2 (drop 16 buf))\<rparr>;
         out3 = out2\<lparr>p_algorithmId := dec_be16 (take 2 (drop 18 buf))\<rparr>
     in Some (if take 16 buf \<noteq> DOMAIN_PREFIX then (False, out1, INVALID_REQUEST)
              else if take 2 (drop 16 buf) \<noteq> [0x01, 0x00] then (False, out2, INVALID_PROTOCOL_VERSION)
              else if take 2 (drop 18 buf) \<noteq> [0x00, 0x01] then (False, out3, INVALID_ALGORITHM)
              else (True, out3\<lparr>p_deviceId := take 16 (drop 20 buf),
                p_sessionId := take 16 (drop 36 buf), p_pcId := take 16 (drop 52 buf),
                p_challenge := take 32 (drop 68 buf),
                p_expirationTimestampMs := get_be64 (drop 100 buf)\<rparr>, SUCCESS)))"
  using assms
  by (simp add: Deserialize_def size_defs rd_simps dec_be16_field put_be16_constants Let_def)

lemma Deserialize_other_size:
  "length buf \<noteq> 108 \<Longrightarrow> Deserialize (Some buf) out = Some (False, out, INVALID_REQUEST)"
  by (simp add: Deserialize_def size_defs)

lemma Deserialize_null: "Deserialize None out = Some (False, out, INVALID_REQUEST)"
  by (simp add: Deserialize_def)

lemma Deserialize_result:
  "\<exists>p. Deserialize data out = Some (payload_error data = SUCCESS, p, payload_error data)"
proof (cases data)
  case None
  then show ?thesis by (simp add: Deserialize_null payload_error_def)
next
  case (Some buf)
  then show ?thesis
    by (cases "length buf = 108")
      (auto simp: Deserialize_108 Deserialize_other_size payload_error_def Let_def)
qed

text \<open>
  C25. \<open>AuthPayload::Deserialize\<close> on any pointer and size: no read leaves the buffer, the
  return value is true exactly when the error is \<open>SUCCESS\<close>, and the error is the first of
  size or domain, version, algorithm that the bytes violate.
\<close>

theorem Deserialize_classifies:
  "\<exists>p. Deserialize data out = Some (payload_error data = SUCCESS, p, payload_error data)"
  by (rule Deserialize_result)

lemma Deserialize_success_fields:
  assumes "Deserialize (Some buf) out = Some (True, p, e)"
  shows "length buf = 108" "take 16 buf = DOMAIN_PREFIX" "take 2 (drop 16 buf) = [0x01, 0x00]"
    "take 2 (drop 18 buf) = [0x00, 0x01]" "e = SUCCESS"
    "p = out\<lparr>p_domain := DOMAIN_PREFIX, p_protocolVersion := CURRENT_PROTOCOL_VERSION,
       p_algorithmId := ALGORITHM_ECDSA_P256_SHA256, p_deviceId := take 16 (drop 20 buf),
       p_sessionId := take 16 (drop 36 buf), p_pcId := take 16 (drop 52 buf),
       p_challenge := take 32 (drop 68 buf), p_expirationTimestampMs := get_be64 (drop 100 buf)\<rparr>"
proof -
  show len: "length buf = 108"
    using assms Deserialize_other_size by fastforce
  note eq = assms [unfolded Deserialize_108 [OF len] Let_def]
  show "take 16 buf = DOMAIN_PREFIX" "take 2 (drop 16 buf) = [0x01, 0x00]"
    "take 2 (drop 18 buf) = [0x00, 0x01]" "e = SUCCESS"
    using eq by (auto split: if_splits)
  then show "p = out\<lparr>p_domain := DOMAIN_PREFIX, p_protocolVersion := CURRENT_PROTOCOL_VERSION,
       p_algorithmId := ALGORITHM_ECDSA_P256_SHA256, p_deviceId := take 16 (drop 20 buf),
       p_sessionId := take 16 (drop 36 buf), p_pcId := take 16 (drop 52 buf),
       p_challenge := take 32 (drop 68 buf), p_expirationTimestampMs := get_be64 (drop 100 buf)\<rparr>"
    using eq by (auto simp: dec_be16_constants)
qed

lemma Deserialize_encoded:
  assumes "AuthPayload_current p"
  shows "Deserialize (Some (Serialize p)) out = Some (True, p, SUCCESS)"
proof -
  from assms have wf: "AuthPayload_wf p" by (simp add: AuthPayload_current_def)
  have len: "length (Serialize p) = 108"
    using length_Serialize [OF wf] by (simp add: size_defs)
  show ?thesis
    unfolding Deserialize_108 [OF len] Let_def
    using assms unfolding Serialize_layout [OF wf]
    by (simp add: AuthPayload_current_def AuthPayload_wf_def size_defs put_be16_constants
        dec_be16_constants get_put64)
qed

text \<open>
  Round trip: the parser accepts the serialisation of every payload of the current protocol
  and returns that payload, whatever the out-parameter held.
\<close>

theorem Deserialize_Serialize:
  assumes "AuthPayload_current p"
  shows "Deserialize (Some (Serialize p)) out = Some (True, p, SUCCESS)"
  using assms by (rule Deserialize_encoded)

theorem Deserialize_Serialize_witness:
  "Deserialize (Some (Serialize (AuthPayload_init\<lparr>p_expirationTimestampMs := 1776182400000\<rparr>)))
     AuthPayload_init
   = Some (True, AuthPayload_init\<lparr>p_expirationTimestampMs := 1776182400000\<rparr>, SUCCESS)"
  by (rule Deserialize_Serialize)
    (simp add: AuthPayload_current_def AuthPayload_wf_def AuthPayload_init_def size_defs)

lemma Deserialize_canonical:
  assumes "Deserialize (Some buf) out = Some (True, p, e)"
  shows "Serialize p = buf \<and> AuthPayload_current p \<and> e = SUCCESS"
proof -
  note f = Deserialize_success_fields [OF assms]
  have cur: "AuthPayload_current p"
    using f(1) by (simp add: f(6) AuthPayload_current_def AuthPayload_wf_def size_defs)
  then have wf: "AuthPayload_wf p" by (simp add: AuthPayload_current_def)
  have "Serialize p = take 16 buf @ take 2 (drop 16 buf) @ take 2 (drop 18 buf)
      @ take 16 (drop 20 buf) @ take 16 (drop 36 buf) @ take 16 (drop 52 buf)
      @ take 32 (drop 68 buf) @ drop 100 buf"
    using f(1) unfolding Serialize_layout [OF wf]
    by (simp add: f(2-4,6) put_be16_constants put_get64)
  also have "\<dots> = buf"
    using join_fields [of 32 68 buf] join_fields [of 16 52 buf] join_fields [of 16 36 buf]
      join_fields [of 16 20 buf] join_fields [of 2 18 buf] join_fields [of 2 16 buf]
    by simp
  finally show ?thesis using cur f(5) by simp
qed

text \<open>
  C23. Canonical form: a buffer the parser accepts is the serialisation of the payload it
  returns, which is a payload of the current protocol. Two different buffers never parse to
  the same payload, so the signed bytes are determined by the parsed fields.
\<close>

theorem Serialize_Deserialize:
  assumes "Deserialize (Some buf) out = Some (True, p, e)"
  shows "Serialize p = buf \<and> AuthPayload_current p \<and> e = SUCCESS"
  using assms by (rule Deserialize_canonical)

theorem Serialize_Deserialize_witness:
  "Serialize AuthPayload_init
     = DOMAIN_PREFIX @ [0x01, 0x00, 0x00, 0x01] @ replicate 88 0
   \<and> AuthPayload_current AuthPayload_init"
proof -
  have "Deserialize (Some (DOMAIN_PREFIX @ [0x01, 0x00, 0x00, 0x01] @ replicate 88 0)) AuthPayload_init
      = Some (True, AuthPayload_init, SUCCESS)"
    by code_simp
  from Serialize_Deserialize [OF this] show ?thesis by simp
qed

end
