(* ===== verification/Crypto_Engine.thy ===== *)
theory Crypto_Engine
  imports Win_Api
begin

text \<open>
  \<open>windows/common/CryptoEngine.cpp\<close> and \<open>PublicKeyImporter.cpp\<close>: the CNG providers, random
  bytes, import of P-256 public keys, conversion of a DER signature to the raw form CNG expects,
  and signature verification. A \<open>None\<close> in a result is a read outside the caller's buffer.
\<close>

section \<open>Engine state\<close>

record CryptoEngine =
  m_hEcdsaAlg :: handle
  m_hRngAlg :: handle
  m_hSha256Alg :: handle

definition CryptoEngine_init :: CryptoEngine where
  "CryptoEngine_init = \<lparr>m_hEcdsaAlg = NULL, m_hRngAlg = NULL, m_hSha256Alg = NULL\<rparr>"

definition close_if_open :: "env \<Rightarrow> handle \<Rightarrow> (os_log, unit) state" where
  "close_if_open w h =
     (if h \<noteq> NULL then do { _ \<leftarrow> cng w (BCryptCloseAlgorithmProvider h); State_Monad.return () }
      else State_Monad.return ())"

definition CryptoEngine_destroy :: "env \<Rightarrow> CryptoEngine \<Rightarrow> (os_log, unit) state" where
  "CryptoEngine_destroy w e = do {
     _ \<leftarrow> close_if_open w (m_hEcdsaAlg e);
     _ \<leftarrow> close_if_open w (m_hRngAlg e);
     close_if_open w (m_hSha256Alg e)
   }"

definition Initialize :: "env \<Rightarrow> CryptoEngine \<Rightarrow> (os_log, bool \<times> CryptoEngine) state" where
  "Initialize w e = do {
     a \<leftarrow> cng w (BCryptOpenAlgorithmProvider ''BCRYPT_ECDSA_P256_ALGORITHM'' '''');
     if \<not> a_ok a then State_Monad.return (False, e)
     else do {
       let e = e\<lparr>m_hEcdsaAlg := a_handle a\<rparr>;
       a \<leftarrow> cng w (BCryptOpenAlgorithmProvider ''BCRYPT_RNG_ALGORITHM'' '''');
       if \<not> a_ok a then State_Monad.return (False, e)
       else do {
         let e = e\<lparr>m_hRngAlg := a_handle a\<rparr>;
         a \<leftarrow> cng w (BCryptOpenAlgorithmProvider ''BCRYPT_SHA256_ALGORITHM'' '''');
         if \<not> a_ok a then State_Monad.return (False, e)
         else State_Monad.return (True, e\<lparr>m_hSha256Alg := a_handle a\<rparr>)
       }}}"

text \<open>
  The buffer pointer is \<open>None\<close> when null; the result is the flag and the buffer after the call. CNG is
  asked for \<open>static_cast<ULONG>(length)\<close> bytes and stores no more than that.
\<close>

definition GenerateRandomBytes ::
    "env \<Rightarrow> CryptoEngine \<Rightarrow> byte list option \<Rightarrow> (os_log, bool \<times> byte list option) state" where
  "GenerateRandomBytes w e buffer =
     (case buffer of
        None \<Rightarrow> State_Monad.return (False, buffer)
      | Some buf \<Rightarrow>
          if length buf = 0 then State_Monad.return (False, buffer)
          else do {
            let n = length buf mod 2 ^ 32;
            a \<leftarrow> cng w (BCryptGenRandom (m_hRngAlg e) n);
            if a_ok a then State_Monad.return (True, Some (overwrite buf (take n (a_bytes a))))
            else State_Monad.return (False, buffer)
          })"

section \<open>Public keys\<close>

definition PublicKeyImporter_ImportRawPublicKey ::
    "env \<Rightarrow> handle \<Rightarrow> byte list option \<Rightarrow> (os_log, handle) state" where
  "PublicKeyImporter_ImportRawPublicKey w hEcdsaAlg rawXyBytes =
     (case rawXyBytes of
        None \<Rightarrow> State_Monad.return NULL
      | Some raw \<Rightarrow>
          if hEcdsaAlg = NULL \<or> (length raw \<noteq> 64 \<and> length raw \<noteq> 65) then State_Monad.return NULL
          else do {
            let coords = (if length raw = 65 \<and> raw ! 0 = 0x04 then drop 1 raw else raw);
            let blob = EccBlob ''BCRYPT_ECDSA_PUBLIC_P256_MAGIC'' 32 (take 64 coords);
            a \<leftarrow> cng w (BCryptImportKeyPair hEcdsaAlg blob);
            State_Monad.return (if a_ok a then a_handle a else NULL)
          })"

text \<open>The search loop of \<open>ImportDerPublicKey\<close>, over the indices still to visit.\<close>

fun ImportDer_loop :: "env \<Rightarrow> handle \<Rightarrow> byte list \<Rightarrow> nat list \<Rightarrow> (os_log, handle) state" where
  "ImportDer_loop w hAlg der [] = State_Monad.return NULL"
| "ImportDer_loop w hAlg der (i # is) = do {
     h \<leftarrow> (if length der - i \<ge> 65 \<and> der ! i = 0x04
          then PublicKeyImporter_ImportRawPublicKey w hAlg (Some (take 64 (drop (i + 1) der)))
          else State_Monad.return NULL);
     if h \<noteq> NULL then State_Monad.return h
     else do {
       h \<leftarrow> PublicKeyImporter_ImportRawPublicKey w hAlg (Some (take 64 (drop i der)));
       if h \<noteq> NULL then State_Monad.return h
       else ImportDer_loop w hAlg der is
     }}"

definition PublicKeyImporter_ImportDerPublicKey ::
    "env \<Rightarrow> handle \<Rightarrow> byte list option \<Rightarrow> (os_log, handle) state" where
  "PublicKeyImporter_ImportDerPublicKey w hEcdsaAlg derBytes =
     (case derBytes of
        None \<Rightarrow> State_Monad.return NULL
      | Some der \<Rightarrow>
          if hEcdsaAlg = NULL \<or> length der < 64 then State_Monad.return NULL
          else ImportDer_loop w hEcdsaAlg der [0..<length der - 64 + 1])"

definition ImportRawPublicKey :: "env \<Rightarrow> CryptoEngine \<Rightarrow> byte list option \<Rightarrow> (os_log, handle) state" where
  "ImportRawPublicKey w e raw = PublicKeyImporter_ImportRawPublicKey w (m_hEcdsaAlg e) raw"

definition ImportDerPublicKey :: "env \<Rightarrow> CryptoEngine \<Rightarrow> byte list option \<Rightarrow> (os_log, handle) state" where
  "ImportDerPublicKey w e der = PublicKeyImporter_ImportDerPublicKey w (m_hEcdsaAlg e) der"

section \<open>DER signatures\<close>

text \<open>\<open>idx >= derSize || derData[idx] != 0x02\<close>.\<close>

definition not_integer_tag :: "byte list \<Rightarrow> nat \<Rightarrow> bool option" where
  "not_integer_tag der idx =
     (if idx \<ge> length der then Some True else do { t \<leftarrow> rd der idx; Some (t \<noteq> 0x02) })"

text \<open>\<open>while (len > 32 && bytes[0] == 0x00) { bytes++; len--; }\<close>, as offset and length.\<close>

fun strip_zeros :: "byte list \<Rightarrow> nat \<Rightarrow> nat \<Rightarrow> (nat \<times> nat) option" where
  "strip_zeros der off len =
     (if len > 32
      then do {
        b \<leftarrow> rd der off;
        if b = 0x00 then strip_zeros der (off + 1) (len - 1) else Some (off, len)
      }
      else Some (off, len))"

declare strip_zeros.simps [simp del]

text \<open>The result is the return value and \<open>rawRsOut\<close>.\<close>

definition ConvertDerToRawRSignature ::
    "byte list option \<Rightarrow> byte list \<Rightarrow> (bool \<times> byte list) option" where
  "ConvertDerToRawRSignature derData rawRsOut =
     (case derData of
        None \<Rightarrow> Some (False, rawRsOut)
      | Some der \<Rightarrow>
          if length der < 8 \<or> length der > 139 then Some (False, rawRsOut)
          else do {
            seq \<leftarrow> rd der 0;
            if seq \<noteq> 0x30 then Some (False, rawRsOut)
            else do {
              let idx = 2;
              bad \<leftarrow> not_integer_tag der idx;
              if bad then Some (False, rawRsOut)
              else do {
                let idx = idx + 1;
                rl \<leftarrow> rd der idx;
                let rLen = unat rl;
                let idx = idx + 1;
                if idx + rLen > length der then Some (False, rawRsOut)
                else do {
                  let rOff = idx;
                  let idx = idx + rLen;
                  bad \<leftarrow> not_integer_tag der idx;
                  if bad then Some (False, rawRsOut)
                  else do {
                    let idx = idx + 1;
                    sl \<leftarrow> rd der idx;
                    let sLen = unat sl;
                    let idx = idx + 1;
                    if idx + sLen > length der then Some (False, rawRsOut)
                    else do {
                      let sOff = idx;
                      (rOff, rLen) \<leftarrow> strip_zeros der rOff rLen;
                      (sOff, sLen) \<leftarrow> strip_zeros der sOff sLen;
                      if rLen > 32 \<or> sLen > 32 then Some (False, rawRsOut)
                      else do {
                        let raw = replicate 64 0;
                        r \<leftarrow> rds der rOff rLen;
                        let raw = wr raw (32 - rLen) r;
                        s \<leftarrow> rds der sOff sLen;
                        let raw = wr raw (32 + (32 - sLen)) s;
                        Some (True, raw)
                      }}}}}}})"

section \<open>Verification\<close>

text \<open>\<open>None\<close> stands for the undefined behaviour of the signature parser.\<close>

definition VerifySignature ::
    "env \<Rightarrow> CryptoEngine \<Rightarrow> handle \<Rightarrow> byte list option \<Rightarrow> byte list option \<Rightarrow> (os_log, bool option) state" where
  "VerifySignature w e hKey payloadData signatureData =
     (case (payloadData, signatureData) of
        (Some payload, Some sig) \<Rightarrow>
          if hKey = NULL \<or> length payload = 0 \<or> length sig = 0 then State_Monad.return (Some False)
          else do {
            a \<leftarrow> cng w (BCryptCreateHash (m_hSha256Alg e) []);
            if \<not> a_ok a then State_Monad.return (Some False)
            else do {
              let hHash = a_handle a;
              a \<leftarrow> cng w (BCryptHashData hHash (dword_blob payload));
              if \<not> a_ok a
              then do { _ \<leftarrow> cng w (BCryptDestroyHash hHash); State_Monad.return (Some False) }
              else do {
                a \<leftarrow> cng w (BCryptFinishHash hHash 32);
                let hashBuf = fill 32 (a_bytes a);
                _ \<leftarrow> cng w (BCryptDestroyHash hHash);
                if \<not> a_ok a then State_Monad.return (Some False)
                else
                  (case (if length sig = 64 then Some (True, take 64 sig)
                         else ConvertDerToRawRSignature (Some sig) []) of
                     None \<Rightarrow> State_Monad.return None
                   | Some (False, _) \<Rightarrow> State_Monad.return (Some False)
                   | Some (True, rawRs) \<Rightarrow> do {
                       a \<leftarrow> cng w (BCryptVerifySignature hKey hashBuf rawRs);
                       State_Monad.return (Some (a_ok a))
                     })
              }}}
      | _ \<Rightarrow> State_Monad.return (Some False))"

section \<open>The signature parser, without the reads\<close>

text \<open>The stripping loop on the bytes themselves.\<close>

fun strip32 :: "byte list \<Rightarrow> byte list" where
  "strip32 [] = []"
| "strip32 (b # bs) = (if 32 \<le> length bs \<and> b = 0 then strip32 bs else b # bs)"

definition pad32 :: "byte list \<Rightarrow> byte list" where
  "pad32 bs = replicate (32 - length bs) 0 @ bs"

lemma strip_zeros_strip32:
  assumes "off + len \<le> length der"
  shows "\<exists>off'. strip_zeros der off len = Some (off', length (strip32 (take len (drop off der))))
    \<and> off' + length (strip32 (take len (drop off der))) \<le> length der
    \<and> take (length (strip32 (take len (drop off der)))) (drop off' der) = strip32 (take len (drop off der))"
  using assms
proof (induction len arbitrary: off)
  case 0
  then show ?case by (simp add: strip_zeros.simps)
next
  case (Suc len)
  then have in_range: "off < length der" by simp
  then have split: "take (Suc len) (drop off der) = der ! off # take len (drop (Suc off) der)"
    by (metis Cons_nth_drop_Suc take_Suc_Cons)
  have len: "length (take len (drop (Suc off) der)) = len" using Suc.prems by simp
  show ?case
  proof (cases "32 < Suc len \<and> der ! off = 0")
    case True
    then have "strip_zeros der off (Suc len) = strip_zeros der (Suc off) len"
      using in_range by (simp add: strip_zeros.simps [of der off] rd_simps)
    moreover have "strip32 (take (Suc len) (drop off der)) = strip32 (take len (drop (Suc off) der))"
      using True len by (simp add: split)
    ultimately show ?thesis using Suc.IH [of "Suc off"] Suc.prems by simp
  next
    case False
    then have "strip_zeros der off (Suc len) = Some (off, Suc len)"
      using in_range by (auto simp: strip_zeros.simps [of der off] rd_simps)
    moreover have "strip32 (take (Suc len) (drop off der)) = take (Suc len) (drop off der)"
      using False len by (auto simp: split)
    ultimately show ?thesis using Suc.prems by simp
  qed
qed

lemma raw_halves:
  assumes "length r \<le> 32" "length s \<le> 32"
  shows "wr (wr (replicate 64 0) (32 - length r) r) (64 - length s) s = pad32 r @ pad32 s"
proof -
  have "wr (replicate 64 0) (32 - length r) r = pad32 r @ replicate 32 0"
    using assms(1) by (simp add: wr_def pad32_def min_def)
  moreover have "take (64 - length s) (pad32 r @ replicate 32 0) = pad32 r @ replicate (32 - length s) 0"
    using assms by (simp add: pad32_def min_def) arith
  ultimately show ?thesis
    using assms by (simp add: wr_def) (simp add: pad32_def)
qed

text \<open>All branches of the conversion, with the one read that can leave the buffer.\<close>

lemma ConvertDer_view:
  assumes "8 \<le> length der" "length der \<le> 139"
  shows "ConvertDerToRawRSignature (Some der) out =
    (let rLen = unat (der ! 3); sLen = unat (der ! (5 + rLen));
         r = strip32 (take rLen (drop 4 der)); s = strip32 (take sLen (drop (6 + rLen) der))
     in if der ! 0 \<noteq> 0x30 \<or> der ! 2 \<noteq> 0x02 \<or> length der \<le> 4 + rLen \<or> der ! (4 + rLen) \<noteq> 0x02
        then Some (False, out)
        else if length der = 5 + rLen then None
        else if length der < 6 + rLen + sLen \<or> 32 < length r \<or> 32 < length s then Some (False, out)
        else Some (True, pad32 r @ pad32 s))"
proof -
  let ?rLen = "unat (der ! 3)"
  let ?sLen = "unat (der ! (5 + ?rLen))"
  let ?r = "strip32 (take ?rLen (drop 4 der))"
  let ?s = "strip32 (take ?sLen (drop (6 + ?rLen) der))"
  have "der \<noteq> []" using assms(1) by auto
  note unfold = this ConvertDerToRawRSignature_def not_integer_tag_def rd_simps rd_out Let_def
  consider (tags) "der ! 0 \<noteq> 0x30 \<or> der ! 2 \<noteq> 0x02"
    | (r_long) "der ! 0 = 0x30" "der ! 2 = 0x02" "length der \<le> 4 + ?rLen"
    | (s_tag) "der ! 0 = 0x30" "der ! 2 = 0x02" "4 + ?rLen < length der" "der ! (4 + ?rLen) \<noteq> 0x02"
    | (over) "der ! 0 = 0x30" "der ! 2 = 0x02" "der ! (4 + ?rLen) = 0x02" "length der = 5 + ?rLen"
    | (s_long) "der ! 0 = 0x30" "der ! 2 = 0x02" "der ! (4 + ?rLen) = 0x02" "5 + ?rLen < length der"
        "length der < 6 + ?rLen + ?sLen"
    | (both) "der ! 0 = 0x30" "der ! 2 = 0x02" "der ! (4 + ?rLen) = 0x02" "5 + ?rLen < length der"
        "6 + ?rLen + ?sLen \<le> length der"
    by linarith
  then show ?thesis
  proof cases
    case tags
    then show ?thesis using assms by (auto simp: unfold)
  next
    case r_long
    then show ?thesis using assms by (cases "length der = 4 + ?rLen") (simp_all add: unfold)
  next
    case s_tag
    then show ?thesis using assms by (simp add: unfold)
  next
    case over
    then show ?thesis using assms by (simp add: unfold)
  next
    case s_long
    then show ?thesis using assms by (simp add: unfold)
  next
    case both
    have "4 + ?rLen \<le> length der" using both by linarith
    then obtain rOff where ro: "strip_zeros der 4 ?rLen = Some (rOff, length ?r)"
        "rOff + length ?r \<le> length der" "take (length ?r) (drop rOff der) = ?r"
      using strip_zeros_strip32 [of 4 ?rLen der] by blast
    obtain sOff where so: "strip_zeros der (6 + ?rLen) ?sLen = Some (sOff, length ?s)"
        "sOff + length ?s \<le> length der" "take (length ?s) (drop sOff der) = ?s"
      using strip_zeros_strip32 [of "6 + ?rLen" ?sLen der] both by blast
    show ?thesis using assms both by (simp add: unfold ro so raw_halves)
  qed
qed

lemma ConvertDer_size:
  "length der < 8 \<or> 139 < length der \<Longrightarrow> ConvertDerToRawRSignature (Some der) out = Some (False, out)"
  by (auto simp: ConvertDerToRawRSignature_def)

subsection \<open>The parser inverts the DER encoding\<close>

text \<open>
  The reference encoder of RFC 3279: an \<open>ECDSA-Sig-Value\<close> is a sequence of two integers, each
  in its shortest two's-complement form.
\<close>

definition der_magnitude :: "byte list \<Rightarrow> byte list" where
  "der_magnitude v =
     (case dropWhile ((=) 0) v of [] \<Rightarrow> [0] | b # bs \<Rightarrow> if 0x80 \<le> b then 0 # b # bs else b # bs)"

definition der_integer :: "byte list \<Rightarrow> byte list" where
  "der_integer v = [0x02, of_nat (length (der_magnitude v))] @ der_magnitude v"

definition der_signature :: "byte list \<Rightarrow> byte list \<Rightarrow> byte list" where
  "der_signature r s =
     [0x30, of_nat (length (der_integer r @ der_integer s))] @ der_integer r @ der_integer s"

lemma pad_dropWhile:
  "replicate (length v - length (dropWhile ((=) 0) v)) 0 @ dropWhile ((=) 0) v = v"
  by (induction v) (auto simp: Suc_diff_le length_dropWhile_le)

lemma length_der_magnitude:
  "length v = 32 \<Longrightarrow> 1 \<le> length (der_magnitude v) \<and> length (der_magnitude v) \<le> 33"
  using length_dropWhile_le [of "(=) 0" v] by (auto simp: der_magnitude_def split: list.split)

lemma strip32_small: "length bs \<le> 32 \<Longrightarrow> strip32 bs = bs"
  by (cases bs) auto

lemma pad32_der_magnitude:
  assumes "length v = 32"
  shows "length (strip32 (der_magnitude v)) \<le> 32 \<and> pad32 (strip32 (der_magnitude v)) = v"
proof (cases "dropWhile ((=) 0) v")
  case Nil
  have "v = replicate 32 0" using pad_dropWhile [of v, unfolded Nil] assms by simp
  moreover have "strip32 (der_magnitude v) = [0]" unfolding der_magnitude_def Nil by simp
  ultimately show ?thesis by (simp add: pad32_def numeral_eq_Suc)
next
  case (Cons b bs)
  have le: "length (b # bs) \<le> 32" using length_dropWhile_le [of "(=) 0" v] assms Cons by simp
  have pad: "pad32 (b # bs) = v" using pad_dropWhile [of v] assms Cons by (simp add: pad32_def)
  have strip: "strip32 (b # bs) = b # bs" using le by (rule strip32_small)
  have "strip32 (der_magnitude v) = (if 0x80 \<le> b \<and> length bs < 31 then 0 # b # bs else b # bs)"
    using le strip by (auto simp: der_magnitude_def Cons)
  moreover have "pad32 (0 # b # bs) = pad32 (b # bs)" if "length bs < 31"
  proof -
    from that have "31 - length bs = Suc (30 - length bs)" by simp
    then show ?thesis by (simp add: pad32_def replicate_app_Cons_same)
  qed
  ultimately show ?thesis using le pad by auto
qed

lemma unat_small: "n \<le> 33 \<Longrightarrow> unat (of_nat n :: byte) = n"
  by (simp add: unat_of_nat take_bit_nat_eq_self)

text \<open>
  C29. The signature conversion inverts DER: for all 32-byte \<open>r\<close> and \<open>s\<close> the DER signature of
  \<open>(r, s)\<close> is converted to the raw form \<open>r || s\<close> that \<open>BCryptVerifySignature\<close> takes,
  leading zeros and sign bytes included.
\<close>

theorem ConvertDer_inverts_DER:
  assumes "length r = 32" "length s = 32"
  shows "ConvertDerToRawRSignature (Some (der_signature r s)) out = Some (True, r @ s)"
proof -
  let ?R = "der_magnitude r" and ?S = "der_magnitude s" and ?der = "der_signature r s"
  note R = length_der_magnitude [OF assms(1)] and S = length_der_magnitude [OF assms(2)]
  have der: "?der = [0x30, of_nat (length (der_integer r @ der_integer s)), 0x02, of_nat (length ?R)] @ ?R
      @ [0x02, of_nat (length ?S)] @ ?S"
    by (simp add: der_signature_def der_integer_def)
  have len: "length ?der = 6 + length ?R + length ?S" by (simp add: der)
  have rl: "unat (?der ! 3) = length ?R" using R by (simp add: der unat_small)
  have at: "?der ! (4 + length ?R) = 0x02" "?der ! (5 + length ?R) = of_nat (length ?S)"
    "take (length ?R) (drop 4 ?der) = ?R" "drop (6 + length ?R) ?der = ?S"
    "?der ! 0 = 0x30" "?der ! 2 = 0x02"
    by (simp_all add: der nth_append numeral_eq_Suc)
  show ?thesis
    using R S pad32_der_magnitude [OF assms(1)] pad32_der_magnitude [OF assms(2)]
    by (subst ConvertDer_view) (simp_all add: len rl at unat_small Let_def)
qed

theorem ConvertDer_inverts_DER_witness:
  "ConvertDerToRawRSignature (Some (der_signature (replicate 31 0 @ [0x80]) (replicate 32 0xFF))) []
   = Some (True, replicate 31 0 @ [0x80] @ replicate 32 0xFF)"
  using ConvertDer_inverts_DER [of "replicate 31 0 @ [0x80]" "replicate 32 0xFF" "[]"] by simp

text \<open>
  The conversion reads one byte past the end of the signature exactly when the tag of the
  second integer is the last byte: the length byte that should follow it is read without a
  bound check. All other inputs are read inside the buffer.
\<close>

theorem ConvertDer_overread_iff:
  "ConvertDerToRawRSignature (Some der) out = None \<longleftrightarrow>
     8 \<le> length der \<and> length der \<le> 139 \<and> der ! 0 = 0x30 \<and> der ! 2 = 0x02
     \<and> length der = 5 + unat (der ! 3) \<and> last der = 0x02"
proof (cases "8 \<le> length der \<and> length der \<le> 139")
  case True
  then have "der \<noteq> []" by auto
  then have "length der = 5 + unat (der ! 3) \<Longrightarrow> last der = der ! (4 + unat (der ! 3))"
    by (simp add: last_conv_nth)
  with True show ?thesis by (auto simp: ConvertDer_view Let_def)
next
  case False
  then show ?thesis using ConvertDer_size by auto
qed

lemma ConvertDer_length:
  assumes "ConvertDerToRawRSignature (Some der) out = Some (True, raw)"
  shows "length raw = 64"
proof (cases "8 \<le> length der \<and> length der \<le> 139")
  case True
  with assms show ?thesis
    by (auto simp: ConvertDer_view Let_def pad32_def split: if_splits)
next
  case False
  then show ?thesis using assms ConvertDer_size [of der out] by auto
qed

section \<open>Properties of verification and import\<close>

text \<open>The raw form of a signature as \<open>VerifySignature\<close> computes it.\<close>

definition raw_signature :: "byte list \<Rightarrow> (bool \<times> byte list) option" where
  "raw_signature sig =
     (if length sig = 64 then Some (True, take 64 sig) else ConvertDerToRawRSignature (Some sig) [])"

text \<open>
  The calls of a verification that succeeds: the SHA-256 of the whole payload is computed on a
  fresh hash object, the object is destroyed, and CNG accepts the raw signature of exactly that
  hash under the given key.
\<close>

definition verified_by :: "CryptoEngine \<Rightarrow> handle \<Rightarrow> byte list \<Rightarrow> byte list \<Rightarrow> os_log \<Rightarrow> bool" where
  "verified_by e hKey payload sig l \<longleftrightarrow>
     (\<exists>a1 a2 a3 a4 a5 raw. raw_signature sig = Some (True, raw) \<and> length raw = 64
       \<and> a_ok a1 \<and> a_ok a2 \<and> a_ok a3 \<and> a_ok a5
       \<and> l = [(Cng (BCryptCreateHash (m_hSha256Alg e) []), a1),
              (Cng (BCryptHashData (a_handle a1) payload), a2),
              (Cng (BCryptFinishHash (a_handle a1) 32), a3),
              (Cng (BCryptDestroyHash (a_handle a1)), a4),
              (Cng (BCryptVerifySignature hKey (fill 32 (a_bytes a3)) raw), a5)])"

lemma raw_signature_length: "raw_signature sig = Some (True, raw) \<Longrightarrow> length raw = 64"
  by (auto simp: raw_signature_def dest: ConvertDer_length split: if_splits)

lemma VerifySignature_alt:
  "VerifySignature w e hKey (Some payload) (Some sig) =
     (if hKey = NULL \<or> payload = [] \<or> sig = [] then State_Monad.return (Some False)
      else do {
        a1 \<leftarrow> cng w (BCryptCreateHash (m_hSha256Alg e) []);
        if \<not> a_ok a1 then State_Monad.return (Some False)
        else do {
          a2 \<leftarrow> cng w (BCryptHashData (a_handle a1) (dword_blob payload));
          if \<not> a_ok a2
          then do { _ \<leftarrow> cng w (BCryptDestroyHash (a_handle a1)); State_Monad.return (Some False) }
          else do {
            a3 \<leftarrow> cng w (BCryptFinishHash (a_handle a1) 32);
            _ \<leftarrow> cng w (BCryptDestroyHash (a_handle a1));
            if \<not> a_ok a3 then State_Monad.return (Some False)
            else (case raw_signature sig of
                    None \<Rightarrow> State_Monad.return None
                  | Some (False, _) \<Rightarrow> State_Monad.return (Some False)
                  | Some (True, rawRs) \<Rightarrow> do {
                      a5 \<leftarrow> cng w (BCryptVerifySignature hKey (fill 32 (a_bytes a3)) rawRs);
                      State_Monad.return (Some (a_ok a5)) })
          }}})"
  unfolding VerifySignature_def raw_signature_def Let_def length_0_conv by simp

lemma VerifySignature_true:
  assumes "run_state (VerifySignature w e hKey (Some payload) (Some sig)) l = (Some True, l')"
  shows "hKey \<noteq> NULL \<and> payload \<noteq> [] \<and> (\<exists>t. l' = l @ t \<and> verified_by e hKey (dword_blob payload) sig t)"
  using assms unfolding VerifySignature_alt verified_by_def
  by (auto simp: run_if raw_signature_length split: if_splits option.splits prod.splits bool.splits)

text \<open>
  Soundness of \<open>CryptoEngine::VerifySignature\<close>: it answers true only if CNG, in this very
  call, hashed the payload (its size cast to \<open>ULONG\<close>, so all of it below 4 GB) and accepted the converted signature of that hash under the key
  \<open>hKey\<close>; nothing else is called.
\<close>

theorem VerifySignature_sound:
  assumes "run_state (VerifySignature w e hKey (Some payload) (Some sig)) l = (Some True, l')"
  shows "hKey \<noteq> NULL \<and> payload \<noteq> [] \<and> (\<exists>t. l' = l @ t \<and> verified_by e hKey (dword_blob payload) sig t)"
  using assms by (rule VerifySignature_true)

lemma VerifySignature_frees: "resource_neutral (VerifySignature w e hKey p s)"
proof (cases "\<exists>payload sig. p = Some payload \<and> s = Some sig")
  case True
  then obtain payload sig where ps: "p = Some payload" "s = Some sig" by blast
  show ?thesis
    unfolding resource_neutral_def ps VerifySignature_alt
    by (auto simp: run_if split: option.split prod.split bool.split)
next
  case False
  then show ?thesis
    unfolding resource_neutral_def VerifySignature_def by (auto split: option.split)
qed

text \<open>
  \<open>VerifySignature\<close> gives back every CNG object it creates on every path (success, each
  failing call, a malformed signature), and never destroys an object it does not hold.
\<close>

theorem VerifySignature_neutral: "resource_neutral (VerifySignature w e hKey p s)"
  by (rule VerifySignature_frees)

subsection \<open>Key import\<close>

text \<open>Documented behaviour of CNG: a successful import returns a handle, not null.\<close>

definition import_nonnull :: "env \<Rightarrow> bool" where
  "import_nonnull w \<longleftrightarrow> (\<forall>l alg blob. a_ok (w l (Cng (BCryptImportKeyPair alg blob)))
     \<longrightarrow> a_handle (w l (Cng (BCryptImportKeyPair alg blob))) \<noteq> NULL)"

text \<open>The coordinates of a key the importer may hand to CNG: 64 consecutive bytes of its input.\<close>

definition key_window :: "byte list \<Rightarrow> byte list \<Rightarrow> bool" where
  "key_window bs coords \<longleftrightarrow> length coords = 64 \<and> (\<exists>i. coords = take 64 (drop i bs))"

text \<open>
  What an import leaves in the log: either a null handle and no key, or a key whose coordinates
  satisfy \<open>P\<close>, imported last and held once more than before.
\<close>

definition import_result :: "(byte list \<Rightarrow> bool) \<Rightarrow> os_log \<Rightarrow> handle \<times> os_log \<Rightarrow> bool" where
  "import_result P l r \<longleftrightarrow> (\<exists>t. snd r = l @ t \<and> (releases_ok l \<longrightarrow> releases_ok (snd r)) \<and>
     (if fst r = NULL then held (snd r) = held l
      else held (snd r) = add_mset (RKey (fst r)) (held l)
        \<and> (\<exists>alg a coords. t \<noteq> [] \<and> a_ok a \<and> a_handle a = fst r \<and> P coords
             \<and> last t = (Cng (BCryptImportKeyPair alg
                  (EccBlob ''BCRYPT_ECDSA_PUBLIC_P256_MAGIC'' 32 coords)), a))))"

lemma ImportRaw_result:
  assumes "import_nonnull w" "\<And>coords. length coords = 64 \<Longrightarrow> \<exists>i. coords = take 64 (drop i raw) \<Longrightarrow> P coords"
  shows "import_result P l (run_state (PublicKeyImporter_ImportRawPublicKey w alg (Some raw)) l)"
proof (cases "alg = NULL \<or> (length raw \<noteq> 64 \<and> length raw \<noteq> 65)")
  case True
  then show ?thesis
    by (auto simp: PublicKeyImporter_ImportRawPublicKey_def import_result_def)
next
  case False
  let ?coords = "take 64 (if length raw = 65 \<and> raw ! 0 = 0x04 then drop 1 raw else raw)"
  have len: "length ?coords = 64" using False by auto
  have "?coords = take 64 (drop (if length raw = 65 \<and> raw ! 0 = 0x04 then 1 else 0) raw)" by auto
  then have "P ?coords" using len assms(2) by blast
  with False assms(1) show ?thesis
    by (auto simp: PublicKeyImporter_ImportRawPublicKey_def import_result_def import_nonnull_def Let_def)
qed

lemma import_result_NULL: "import_result P l (NULL, l)"
  by (simp add: import_result_def)

lemma import_result_chain:
  assumes "import_result P l (NULL, l1)" "import_result P l1 r"
  shows "import_result P l r"
  using assms unfolding import_result_def by (auto simp del: held_append)

lemma ImportDer_loop_result:
  assumes "import_nonnull w" "\<And>i. i \<in> set is \<Longrightarrow> i + 64 \<le> length der"
  shows "import_result (key_window der) l (run_state (ImportDer_loop w alg der is) l)"
  using assms(2)
proof (induction "is" arbitrary: l)
  case Nil
  then show ?case by (simp add: import_result_NULL)
next
  case (Cons i rest)
  have win: "key_window der coords"
    if "length coords = 64" "\<exists>j. coords = take 64 (drop j (take 64 (drop k der)))" for coords k
  proof -
    from that obtain j where j: "coords = take 64 (drop j (take 64 (drop k der)))" by blast
    with that(1) have "length (drop j (take 64 (drop k der))) \<ge> 64" by auto
    then have "j = 0" by auto
    with j that(1) show ?thesis by (auto simp: key_window_def)
  qed
  let ?marked = "length der - i \<ge> 65 \<and> der ! i = 0x04"
  let ?first = "if ?marked then PublicKeyImporter_ImportRawPublicKey w alg (Some (take 64 (drop (i + 1) der)))
    else State_Monad.return NULL"
  have first: "import_result (key_window der) l (run_state ?first l)"
    using ImportRaw_result [OF assms(1), of "take 64 (drop (i + 1) der)" "key_window der"] win [of _ "i + 1"]
    by (auto simp: import_result_NULL)
  obtain h1 l1 where r1: "run_state ?first l = (h1, l1)" by fastforce
  obtain h2 l2 where r2: "run_state (PublicKeyImporter_ImportRawPublicKey w alg (Some (take 64 (drop i der)))) l1
      = (h2, l2)" by fastforce
  have second: "import_result (key_window der) l1 (h2, l2)"
    using ImportRaw_result [OF assms(1), of "take 64 (drop i der)" "key_window der" l1 alg] win [of _ i]
    by (simp add: r2)
  have step: "run_state (ImportDer_loop w alg der (i # rest)) l
      = (if h1 \<noteq> NULL then (h1, l1) else if h2 \<noteq> NULL then (h2, l2)
         else run_state (ImportDer_loop w alg der rest) l2)"
    using r1 r2 by (auto split: if_splits)
  have IH: "import_result (key_window der) l2 (run_state (ImportDer_loop w alg der rest) l2)"
    using Cons by simp
  show ?case
    unfolding step using first second IH by (auto simp: r1 intro: import_result_chain)
qed

lemma ImportDer_result:
  assumes "import_nonnull w"
  shows "import_result (key_window der) l (run_state (PublicKeyImporter_ImportDerPublicKey w alg (Some der)) l)"
proof (cases "alg = NULL \<or> length der < 64")
  case True
  then show ?thesis by (simp add: PublicKeyImporter_ImportDerPublicKey_def import_result_NULL)
next
  case False
  then have inside: "i + 64 \<le> length der" if "i \<in> set [0..<length der - 64 + 1]" for i
    using that by (auto simp del: upt_Suc)
  have "import_result (key_window der) l (run_state (ImportDer_loop w alg der [0..<length der - 64 + 1]) l)"
    using inside by (rule ImportDer_loop_result [OF assms])
  with False show ?thesis
    by (simp add: PublicKeyImporter_ImportDerPublicKey_def del: upt_Suc)
qed

text \<open>
  Import of a DER public key: the search either returns null and leaves no key behind, or
  returns a handle that CNG issued for 64 consecutive bytes of the input as coordinates, with
  exactly this one key acquired; every other candidate it tried left nothing open.
\<close>

theorem ImportDer_window:
  assumes "import_nonnull w"
  shows "import_result (key_window der) l (run_state (PublicKeyImporter_ImportDerPublicKey w alg (Some der)) l)"
  using assms by (rule ImportDer_result)

text \<open>
  An environment in which every import succeeds with handle 7: the hypothesis of the import
  theorems can hold.
\<close>

definition yes_env :: env where
  "yes_env l c = \<lparr>a_ok = True, a_handle = 7, a_bytes = [], a_num = 0\<rparr>"

lemma import_nonnull_yes_env: "import_nonnull yes_env"
  by (simp add: import_nonnull_def yes_env_def)

theorem ImportDer_window_witness:
  "import_result (key_window (replicate 70 1)) []
     (run_state (PublicKeyImporter_ImportDerPublicKey yes_env 1 (Some (replicate 70 1))) [])
   \<and> fst (run_state (PublicKeyImporter_ImportDerPublicKey yes_env 1 (Some (replicate 70 1))) []) = 7"
proof (intro conjI ImportDer_window import_nonnull_yes_env)
  show "fst (run_state (PublicKeyImporter_ImportDerPublicKey yes_env 1 (Some (replicate 70 1))) []) = 7"
    by code_simp
qed

theorem VerifySignature_sound_witness:
  "(5 :: handle) \<noteq> NULL \<and> [1 :: byte] \<noteq> []
   \<and> (\<exists>t. snd (run_state (VerifySignature yes_env CryptoEngine_init 5 (Some [1]) (Some (replicate 64 2))) [])
        = [] @ t \<and> verified_by CryptoEngine_init 5 (dword_blob [1]) (replicate 64 2) t)"
proof (rule VerifySignature_sound)
  show "run_state (VerifySignature yes_env CryptoEngine_init 5 (Some [1]) (Some (replicate 64 2))) []
    = (Some True, snd (run_state (VerifySignature yes_env CryptoEngine_init 5 (Some [1]) (Some (replicate 64 2))) []))"
    by (simp add: VerifySignature_alt raw_signature_def yes_env_def)
qed

end
