(* ===== verification/Single_Use.thy ===== *)
theory Single_Use
  imports Main
begin

text \<open>
  The contract of a store of single-use tokens and what its clients get from it. A step spends
  the token it wins and nothing but issuing makes a token live; then in every sequence of steps
  a token is won at most as often as it was issued. The challenge store and the agent are
  interpretations of the locale.
\<close>

text \<open>How often a token is won, and how often it is issued, along a sequence of operations.\<close>

fun run_ops :: "('op \<Rightarrow> 's \<Rightarrow> 'r \<times> 's) \<Rightarrow> 'op list \<Rightarrow> 's \<Rightarrow> 's" where
  "run_ops step [] s = s"
| "run_ops step (op # ops) s = run_ops step ops (snd (step op s))"

fun run_wins :: "('op \<Rightarrow> 's \<Rightarrow> 'r \<times> 's) \<Rightarrow> ('op \<Rightarrow> 'r \<Rightarrow> 'k \<Rightarrow> bool) \<Rightarrow> 'op list \<Rightarrow> 's \<Rightarrow> 'k \<Rightarrow> nat" where
  "run_wins step win [] s k = 0"
| "run_wins step win (op # ops) s k =
     of_bool (win op (fst (step op s)) k) + run_wins step win ops (snd (step op s)) k"

fun run_issues :: "('op \<Rightarrow> 's \<Rightarrow> 'r \<times> 's) \<Rightarrow> ('op \<Rightarrow> 'r \<Rightarrow> 'k \<Rightarrow> bool) \<Rightarrow> 'op list \<Rightarrow> 's \<Rightarrow> 'k \<Rightarrow> nat" where
  "run_issues step issues [] s k = 0"
| "run_issues step issues (op # ops) s k =
     of_bool (issues op (fst (step op s)) k) + run_issues step issues ops (snd (step op s)) k"

locale single_use =
  fixes step :: "'op \<Rightarrow> 's \<Rightarrow> 'r \<times> 's"
    and live :: "'s \<Rightarrow> 'k \<Rightarrow> bool"
    and issues win :: "'op \<Rightarrow> 'r \<Rightarrow> 'k \<Rightarrow> bool"
  assumes win_spends: "win op (fst (step op s)) k \<Longrightarrow> live s k \<and> \<not> live (snd (step op s)) k"
    and live_issued: "live (snd (step op s)) k \<Longrightarrow> live s k \<or> issues op (fst (step op s)) k"
begin

lemma step_balance:
  "of_bool (win op (fst (step op s)) k) + of_bool (live (snd (step op s)) k)
     \<le> of_bool (issues op (fst (step op s)) k) + (of_bool (live s k) :: nat)"
  using win_spends [of op s k] live_issued [of op s k] by auto

lemma wins_bounded:
  "run_wins step win ops s k \<le> run_issues step issues ops s k + of_bool (live s k)"
proof (induction ops arbitrary: s)
  case Nil
  then show ?case by simp
next
  case (Cons op ops)
  show ?case using Cons.IH [of "snd (step op s)"] step_balance [of op s k] by simp
qed

lemma dead_until_issued:
  assumes "\<not> live s k" "run_issues step issues ops s k = 0"
  shows "run_wins step win ops s k = 0"
  using wins_bounded [of ops s k] assms by simp

end

end
