(* ===== verification/Challenge_Store.thy ===== *)
theory Challenge_Store
  imports Protocol Crypto_Engine Single_Use
begin

text \<open>
  \<open>windows/agent/ChallengeGenerator.cpp\<close> and \<open>ChallengeStore.cpp\<close>: fresh challenges with a
  30-second lifetime, and the table that makes each of them single-use. Every public method of
  the store holds its mutex from beginning to end, so a concurrent execution of the store is a
  sequence of the operations below; the single-use theorem is about all such sequences.
\<close>

section \<open>Challenges\<close>

datatype challenge_state = OUTSTANDING | CONSUMED | EXPIRED

record ChallengeRecord =
  c_sessionId :: "byte list"
  c_deviceId :: "byte list"
  c_pcId :: "byte list"
  c_challenge :: "byte list"
  c_creationTimestampMs :: u64
  c_expirationTimestampMs :: u64
  c_state :: challenge_state

text \<open>
  \<open>record\<close> starts uninitialised: \<open>uninit\<close> is whatever memory held. \<open>nowMs\<close> is the value read
  from the system clock. The results of the two calls to the random generator are not looked at,
  as in the source.
\<close>

definition GenerateChallenge ::
    "env \<Rightarrow> CryptoEngine \<Rightarrow> u64 \<Rightarrow> ChallengeRecord \<Rightarrow> byte list \<Rightarrow> byte list \<Rightarrow> (os_log, ChallengeRecord) state" where
  "GenerateChallenge w e nowMs uninit deviceId pcId = do {
     let record = uninit\<lparr>c_deviceId := deviceId, c_pcId := pcId\<rparr>;
     (_, s) \<leftarrow> GenerateRandomBytes w e (Some (c_sessionId record));
     (_, c) \<leftarrow> GenerateRandomBytes w e (Some (c_challenge record));
     State_Monad.return (record\<lparr>c_sessionId := the s, c_challenge := the c,
       c_creationTimestampMs := nowMs,
       c_expirationTimestampMs := nowMs + DEFAULT_CHALLENGE_TTL_MS,
       c_state := OUTSTANDING\<rparr>)
   }"

definition ChallengeRecord_wf :: "ChallengeRecord \<Rightarrow> bool" where
  "ChallengeRecord_wf r \<longleftrightarrow> length (c_sessionId r) = UUID_SIZE \<and> length (c_deviceId r) = UUID_SIZE
     \<and> length (c_pcId r) = UUID_SIZE \<and> length (c_challenge r) = CHALLENGE_SIZE"

section \<open>The store\<close>

type_synonym ChallengeStore = "ChallengeRecord table"

definition ChallengeStore_init :: ChallengeStore where
  "ChallengeStore_init = []"

definition ChallengeStore_BytesToKey :: "byte list \<Rightarrow> string" where
  "ChallengeStore_BytesToKey data = hex_of_bytes data"

definition AddChallenge :: "ChallengeRecord \<Rightarrow> ChallengeStore \<Rightarrow> ChallengeStore" where
  "AddChallenge record m_store =
     (let key = ChallengeStore_BytesToKey (c_sessionId record) in AList.update key record m_store)"

text \<open>The result is the error and the out-parameter.\<close>

definition ValidateChallenge ::
    "byte list \<Rightarrow> byte list \<Rightarrow> byte list \<Rightarrow> byte list \<Rightarrow> u64 \<Rightarrow> ChallengeRecord \<Rightarrow> ChallengeStore
      \<Rightarrow> ErrorCode \<times> ChallengeRecord" where
  "ValidateChallenge sessionId deviceId pcId challenge currentTimeMs outRecord m_store =
     (let key = ChallengeStore_BytesToKey sessionId
      in case map_of m_store key of
           None \<Rightarrow> (CHALLENGE_NOT_FOUND, outRecord)
         | Some rec \<Rightarrow>
             if c_state rec = CONSUMED then (CHALLENGE_ALREADY_CONSUMED, outRecord)
             else if c_state rec = EXPIRED \<or> currentTimeMs > c_expirationTimestampMs rec
               then (CHALLENGE_EXPIRED, outRecord)
             else if c_deviceId rec \<noteq> deviceId then (DEVICE_MISMATCH, outRecord)
             else if c_pcId rec \<noteq> pcId then (PC_MISMATCH, outRecord)
             else if c_challenge rec \<noteq> challenge then (CHALLENGE_NOT_FOUND, outRecord)
             else (SUCCESS, rec))"

definition ConsumeChallenge ::
    "byte list \<Rightarrow> byte list \<Rightarrow> byte list \<Rightarrow> byte list \<Rightarrow> u64 \<Rightarrow> ChallengeStore
      \<Rightarrow> ErrorCode \<times> ChallengeStore" where
  "ConsumeChallenge sessionId deviceId pcId challenge currentTimeMs m_store =
     (let key = ChallengeStore_BytesToKey sessionId
      in case map_of m_store key of
           None \<Rightarrow> (CHALLENGE_NOT_FOUND, m_store)
         | Some rec \<Rightarrow>
             if c_state rec = CONSUMED then (CHALLENGE_ALREADY_CONSUMED, m_store)
             else if c_state rec = EXPIRED \<or> currentTimeMs > c_expirationTimestampMs rec
               then (CHALLENGE_EXPIRED, AList.update key (rec\<lparr>c_state := EXPIRED\<rparr>) m_store)
             else if c_deviceId rec \<noteq> deviceId then (DEVICE_MISMATCH, m_store)
             else if c_pcId rec \<noteq> pcId then (PC_MISMATCH, m_store)
             else if c_challenge rec \<noteq> challenge then (CHALLENGE_NOT_FOUND, m_store)
             else (SUCCESS, AList.update key (rec\<lparr>c_state := CONSUMED\<rparr>) m_store))"

definition ValidateAndConsumeChallenge ::
    "byte list \<Rightarrow> byte list \<Rightarrow> byte list \<Rightarrow> byte list \<Rightarrow> u64 \<Rightarrow> ChallengeStore
      \<Rightarrow> ErrorCode \<times> ChallengeStore" where
  "ValidateAndConsumeChallenge sessionId deviceId pcId challenge currentTimeMs m_store =
     (let key = ChallengeStore_BytesToKey sessionId
      in case map_of m_store key of
           None \<Rightarrow> (CHALLENGE_NOT_FOUND, m_store)
         | Some rec \<Rightarrow>
             if c_state rec = CONSUMED then (CHALLENGE_ALREADY_CONSUMED, m_store)
             else if c_state rec = EXPIRED \<or> currentTimeMs > c_expirationTimestampMs rec
               then (CHALLENGE_EXPIRED, AList.update key (rec\<lparr>c_state := EXPIRED\<rparr>) m_store)
             else if c_deviceId rec \<noteq> deviceId then (DEVICE_MISMATCH, m_store)
             else if c_pcId rec \<noteq> pcId then (PC_MISMATCH, m_store)
             else if c_challenge rec \<noteq> challenge then (CHALLENGE_NOT_FOUND, m_store)
             else (SUCCESS, AList.update key (rec\<lparr>c_state := CONSUMED\<rparr>) m_store))"

text \<open>The loop over the pairs, with the count.\<close>

fun ExpireChallenges :: "u64 \<Rightarrow> ChallengeStore \<Rightarrow> nat \<times> ChallengeStore" where
  "ExpireChallenges currentTimeMs [] = (0, [])"
| "ExpireChallenges currentTimeMs ((k, rec) # rest) =
     (let (count, rest') = ExpireChallenges currentTimeMs rest
      in if c_state rec = OUTSTANDING \<and> currentTimeMs > c_expirationTimestampMs rec
         then (count + 1, (k, rec\<lparr>c_state := EXPIRED\<rparr>) # rest')
         else (count, (k, rec) # rest'))"

fun GetActiveCount :: "ChallengeStore \<Rightarrow> nat" where
  "GetActiveCount [] = 0"
| "GetActiveCount ((k, rec) # rest) =
     (if c_state rec = OUTSTANDING then GetActiveCount rest + 1 else GetActiveCount rest)"

section \<open>The store as a table indexed by sessions\<close>

interpretation cs: keyed_table ChallengeStore_BytesToKey
  by unfold_locales (simp add: ChallengeStore_BytesToKey_def hex_of_bytes_inj)

text \<open>What the store knows of a session: the abstraction function of the component.\<close>

definition challenge_of :: "ChallengeStore \<Rightarrow> byte list \<Rightarrow> ChallengeRecord option" where
  "challenge_of m sid = map_of m (ChallengeStore_BytesToKey sid)"

text \<open>The verdict on a response, as a function of the record of its session only.\<close>

definition verdict :: "ChallengeRecord option \<Rightarrow> byte list \<Rightarrow> byte list \<Rightarrow> byte list \<Rightarrow> u64 \<Rightarrow> ErrorCode" where
  "verdict r dev pc chal now =
     (case r of
        None \<Rightarrow> CHALLENGE_NOT_FOUND
      | Some rec \<Rightarrow>
          (case c_state rec of
             CONSUMED \<Rightarrow> CHALLENGE_ALREADY_CONSUMED
           | EXPIRED \<Rightarrow> CHALLENGE_EXPIRED
           | OUTSTANDING \<Rightarrow>
               if c_expirationTimestampMs rec < now then CHALLENGE_EXPIRED
               else if c_deviceId rec \<noteq> dev then DEVICE_MISMATCH
               else if c_pcId rec \<noteq> pc then PC_MISMATCH
               else if c_challenge rec \<noteq> chal then CHALLENGE_NOT_FOUND
               else SUCCESS))"

text \<open>What a consuming call leaves of that record.\<close>

definition settle :: "ErrorCode \<Rightarrow> ChallengeRecord \<Rightarrow> ChallengeRecord" where
  "settle e rec = (if e = SUCCESS then rec\<lparr>c_state := CONSUMED\<rparr>
     else if e = CHALLENGE_EXPIRED then rec\<lparr>c_state := EXPIRED\<rparr> else rec)"

lemma verdict_SUCCESS_iff:
  "verdict r dev pc chal now = SUCCESS \<longleftrightarrow>
     (\<exists>rec. r = Some rec \<and> c_state rec = OUTSTANDING \<and> now \<le> c_expirationTimestampMs rec
        \<and> c_deviceId rec = dev \<and> c_pcId rec = pc \<and> c_challenge rec = chal)"
  by (auto simp: verdict_def not_less split: option.split challenge_state.split)

lemma challenge_of_AddChallenge:
  "challenge_of (AddChallenge r m) sid = (if sid = c_sessionId r then Some r else challenge_of m sid)"
  by (auto simp: challenge_of_def AddChallenge_def Let_def cs.find_put)

lemma ValidateChallenge_verdict:
  "ValidateChallenge sid dev pc chal now out m =
     (let e = verdict (challenge_of m sid) dev pc chal now
      in (e, if e = SUCCESS then the (challenge_of m sid) else out))"
  by (auto simp: ValidateChallenge_def verdict_def challenge_of_def Let_def
      split: option.split challenge_state.split)

lemma ConsumeChallenge_verdict:
  "fst (ConsumeChallenge sid dev pc chal now m) = verdict (challenge_of m sid) dev pc chal now"
  by (auto simp: ConsumeChallenge_def verdict_def challenge_of_def Let_def
      split: option.split challenge_state.split)

lemma challenge_of_ConsumeChallenge:
  "challenge_of (snd (ConsumeChallenge sid dev pc chal now m)) sid' =
     (if sid' = sid then map_option (settle (verdict (challenge_of m sid) dev pc chal now)) (challenge_of m sid)
      else challenge_of m sid')"
  by (auto simp: ConsumeChallenge_def verdict_def challenge_of_def settle_def Let_def cs.find_put
      split: option.split challenge_state.split)

lemma ValidateAndConsume_eq:
  "ValidateAndConsumeChallenge sid dev pc chal now m = ConsumeChallenge sid dev pc chal now m"
  by (simp add: ValidateAndConsumeChallenge_def ConsumeChallenge_def)

text \<open>
  The three look-ups agree: \<open>ValidateAndConsumeChallenge\<close> and \<open>ConsumeChallenge\<close> are the
  same operation, and \<open>ValidateChallenge\<close> returns the error a consuming call would return in
  the same state.
\<close>

theorem consume_equivalence:
  "ValidateAndConsumeChallenge sid dev pc chal now m = ConsumeChallenge sid dev pc chal now m
   \<and> fst (ValidateChallenge sid dev pc chal now out m) = fst (ConsumeChallenge sid dev pc chal now m)"
proof
  show "ValidateAndConsumeChallenge sid dev pc chal now m = ConsumeChallenge sid dev pc chal now m"
    by (rule ValidateAndConsume_eq)
  show "fst (ValidateChallenge sid dev pc chal now out m) = fst (ConsumeChallenge sid dev pc chal now m)"
    by (simp add: ValidateChallenge_verdict ConsumeChallenge_verdict Let_def)
qed

section \<open>Expiry\<close>

definition expire_record :: "u64 \<Rightarrow> ChallengeRecord \<Rightarrow> ChallengeRecord" where
  "expire_record now rec =
     (if c_state rec = OUTSTANDING \<and> c_expirationTimestampMs rec < now then rec\<lparr>c_state := EXPIRED\<rparr> else rec)"

lemma ExpireChallenges_map:
  "snd (ExpireChallenges now m) = map (\<lambda>(k, rec). (k, expire_record now rec)) m"
  by (induction now m rule: ExpireChallenges.induct)
    (auto simp: expire_record_def case_prod_unfold Let_def)

lemma challenge_of_ExpireChallenges:
  "challenge_of (snd (ExpireChallenges now m)) sid = map_option (expire_record now) (challenge_of m sid)"
  by (simp add: challenge_of_def ExpireChallenges_map map_of_map)

lemma ExpireChallenges_count:
  "GetActiveCount m = fst (ExpireChallenges now m) + GetActiveCount (snd (ExpireChallenges now m))"
  by (induction now m rule: ExpireChallenges.induct) (auto split: prod.splits)

text \<open>
  \<open>ExpireChallenges\<close>: the count it returns is the number of challenges it took out of the
  active set, no overdue challenge stays outstanding, and no entry is removed from the table
  (the sessions stay, marked \<open>EXPIRED\<close>).
\<close>

theorem ExpireChallenges_correct:
  "GetActiveCount m = fst (ExpireChallenges now m) + GetActiveCount (snd (ExpireChallenges now m))
   \<and> filter (\<lambda>(k, rec). c_state rec = OUTSTANDING \<and> c_expirationTimestampMs rec < now)
       (snd (ExpireChallenges now m)) = []
   \<and> map fst (snd (ExpireChallenges now m)) = map fst m"
proof (intro conjI)
  show "GetActiveCount m = fst (ExpireChallenges now m) + GetActiveCount (snd (ExpireChallenges now m))"
    by (rule ExpireChallenges_count)
  show "filter (\<lambda>(k, rec). c_state rec = OUTSTANDING \<and> c_expirationTimestampMs rec < now)
      (snd (ExpireChallenges now m)) = []"
    by (auto simp: ExpireChallenges_map expire_record_def filter_empty_conv split: if_splits)
  show "map fst (snd (ExpireChallenges now m)) = map fst m"
    by (simp add: ExpireChallenges_map comp_def case_prod_unfold)
qed

section \<open>Sequences of operations\<close>

datatype store_op =
    OpAdd ChallengeRecord
  | OpValidate "byte list" "byte list" "byte list" "byte list" u64 ChallengeRecord
  | OpConsume "byte list" "byte list" "byte list" "byte list" u64
  | OpValidateAndConsume "byte list" "byte list" "byte list" "byte list" u64
  | OpExpire u64
  | OpCount

text \<open>One locked call; the result is its error code where it has one.\<close>

fun store_step :: "store_op \<Rightarrow> ChallengeStore \<Rightarrow> ErrorCode option \<times> ChallengeStore" where
  "store_step (OpAdd r) m = (None, AddChallenge r m)"
| "store_step (OpValidate sid dev pc chal now out) m =
     (Some (fst (ValidateChallenge sid dev pc chal now out m)), m)"
| "store_step (OpConsume sid dev pc chal now) m =
     (let (e, m') = ConsumeChallenge sid dev pc chal now m in (Some e, m'))"
| "store_step (OpValidateAndConsume sid dev pc chal now) m =
     (let (e, m') = ValidateAndConsumeChallenge sid dev pc chal now m in (Some e, m'))"
| "store_step (OpExpire now) m = (None, snd (ExpireChallenges now m))"
| "store_step OpCount m = (None, m)"

fun op_session :: "store_op \<Rightarrow> byte list option" where
  "op_session (OpConsume sid _ _ _ _) = Some sid"
| "op_session (OpValidateAndConsume sid _ _ _ _) = Some sid"
| "op_session _ = None"

text \<open>The call consumed the challenge of the session: it is a consuming call and it succeeded.\<close>

definition consumes :: "store_op \<Rightarrow> ErrorCode option \<Rightarrow> byte list \<Rightarrow> bool" where
  "consumes op res sid \<longleftrightarrow> op_session op = Some sid \<and> res = Some SUCCESS"

definition adds :: "store_op \<Rightarrow> ErrorCode option \<Rightarrow> byte list \<Rightarrow> bool" where
  "adds op res sid \<longleftrightarrow> (case op of OpAdd r \<Rightarrow> c_sessionId r = sid | _ \<Rightarrow> False)"

definition outstanding :: "ChallengeStore \<Rightarrow> byte list \<Rightarrow> bool" where
  "outstanding m sid \<longleftrightarrow> map_option c_state (challenge_of m sid) = Some OUTSTANDING"

text \<open>
  The life of a record: it can be consumed or expire once, and nothing else happens to it; no
  other field ever changes.
\<close>

inductive record_step :: "ChallengeRecord \<Rightarrow> ChallengeRecord \<Rightarrow> bool" where
  stay: "record_step r r"
| consume: "c_state r = OUTSTANDING \<Longrightarrow> record_step r (r\<lparr>c_state := CONSUMED\<rparr>)"
| expire: "c_state r = OUTSTANDING \<Longrightarrow> record_step r (r\<lparr>c_state := EXPIRED\<rparr>)"

inductive_cases record_step_cases: "record_step r r'"

lemma record_step_settle:
  "record_step rec (settle (verdict (Some rec) dev pc chal now) rec)"
proof (cases "c_state rec")
  case OUTSTANDING
  then show ?thesis by (auto simp: settle_def intro: record_step.intros)
next
  case CONSUMED
  then show ?thesis by (simp add: settle_def verdict_def record_step.stay)
next
  case EXPIRED
  then have "settle (verdict (Some rec) dev pc chal now) rec = rec"
    by (cases rec) (simp add: settle_def verdict_def)
  then show ?thesis by (simp add: record_step.stay)
qed

lemma record_step_expire: "record_step rec (expire_record now rec)"
  by (auto simp: expire_record_def intro: record_step.intros)

lemmas challenge_of_simps = challenge_of_AddChallenge challenge_of_ConsumeChallenge
  challenge_of_ExpireChallenges ValidateAndConsume_eq

lemma store_step_record:
  assumes "\<not> adds op (fst (store_step op m)) sid"
  shows "challenge_of (snd (store_step op m)) sid = None \<and> challenge_of m sid = None
    \<or> (\<exists>r r'. challenge_of m sid = Some r \<and> challenge_of (snd (store_step op m)) sid = Some r'
         \<and> record_step r r')"
proof (cases "challenge_of m sid")
  case None
  with assms show ?thesis
    by (cases op) (auto simp: adds_def challenge_of_simps case_prod_unfold Let_def)
next
  case (Some r)
  with assms show ?thesis
    by (cases op) (auto simp: adds_def challenge_of_simps case_prod_unfold Let_def
        intro: record_step.stay record_step_expire record_step_settle)
qed

lemma consume_spends:
  assumes "consumes op (fst (store_step op m)) sid"
  shows "outstanding m sid \<and> \<not> outstanding (snd (store_step op m)) sid"
proof -
  from assms obtain dev pc chal now where
    op: "op = OpConsume sid dev pc chal now \<or> op = OpValidateAndConsume sid dev pc chal now"
    and "fst (ConsumeChallenge sid dev pc chal now m) = SUCCESS"
    by (cases op) (auto simp: consumes_def ValidateAndConsume_eq case_prod_unfold Let_def)
  then have v: "verdict (challenge_of m sid) dev pc chal now = SUCCESS"
    by (simp add: ConsumeChallenge_verdict)
  then obtain rec where rec: "challenge_of m sid = Some rec" "c_state rec = OUTSTANDING"
    unfolding verdict_SUCCESS_iff by blast
  from op v rec have "challenge_of (snd (store_step op m)) sid = Some (rec\<lparr>c_state := CONSUMED\<rparr>)"
    by (auto simp: challenge_of_simps settle_def case_prod_unfold Let_def)
  with rec show ?thesis by (simp add: outstanding_def)
qed

interpretation challenges: single_use store_step outstanding adds consumes
proof
  fix op m sid
  show "outstanding m sid \<and> \<not> outstanding (snd (store_step op m)) sid"
    if "consumes op (fst (store_step op m)) sid" using that by (rule consume_spends)
  show "outstanding m sid \<or> adds op (fst (store_step op m)) sid"
    if "outstanding (snd (store_step op m)) sid"
    using that store_step_record [of op m sid]
    by (auto simp: outstanding_def elim!: record_step_cases)
qed

text \<open>
  Single use: in every sequence of calls of the store, in any order and by any number of
  threads, the challenge of a session is consumed successfully at most as often as it was added
  (plus once if it was outstanding at the start). A replay never succeeds.
\<close>

theorem challenge_single_use:
  "run_wins store_step consumes ops m sid
     \<le> run_issues store_step adds ops m sid + of_bool (outstanding m sid)"
  by (rule challenges.wins_bounded)

text \<open>
  A consumed or expired challenge stays exactly as it is through every sequence of calls
  that does not add its session again; the clock going back does not revive it.
\<close>

theorem settled_forever:
  assumes "challenge_of m sid = Some r" "c_state r \<noteq> OUTSTANDING"
    and "run_issues store_step adds ops m sid = 0"
  shows "challenge_of (run_ops store_step ops m) sid = Some r"
  using assms
proof (induction ops arbitrary: m)
  case Nil
  then show ?case by simp
next
  case (Cons op ops)
  from Cons.prems(3) have "\<not> adds op (fst (store_step op m)) sid" by simp
  from store_step_record [OF this] Cons.prems(1,2)
  have "challenge_of (snd (store_step op m)) sid = Some r"
    by (auto elim!: record_step_cases)
  with Cons show ?case by simp
qed

definition sample_record :: ChallengeRecord where
  "sample_record = \<lparr>c_sessionId = replicate 16 0xAA, c_deviceId = replicate 16 0x11,
     c_pcId = replicate 16 0x99, c_challenge = replicate 32 0x77, c_creationTimestampMs = 1000,
     c_expirationTimestampMs = 31000, c_state = CONSUMED\<rparr>"

theorem settled_forever_witness:
  "challenge_of (run_ops store_step
      [OpConsume (replicate 16 0xAA) (replicate 16 0x11) (replicate 16 0x99) (replicate 32 0x77) 2000,
       OpExpire 40000] (AddChallenge sample_record [])) (replicate 16 0xAA)
   = Some sample_record"
proof (rule settled_forever)
  show "challenge_of (AddChallenge sample_record []) (replicate 16 0xAA) = Some sample_record"
    by (simp add: challenge_of_AddChallenge sample_record_def)
  show "c_state sample_record \<noteq> OUTSTANDING"
    by (simp add: sample_record_def)
qed (simp add: adds_def)

text \<open>
  What a successful consumption means: the session had an outstanding challenge of this
  device, this PC and these challenge bytes, not past its expiry; afterwards it is consumed, and
  every other session is untouched.
\<close>

theorem consume_success:
  assumes "ValidateAndConsumeChallenge sid dev pc chal now m = (SUCCESS, m')"
  shows "\<exists>rec. challenge_of m sid = Some rec \<and> c_state rec = OUTSTANDING
    \<and> now \<le> c_expirationTimestampMs rec \<and> c_deviceId rec = dev \<and> c_pcId rec = pc
    \<and> c_challenge rec = chal
    \<and> challenge_of m' = (challenge_of m)(sid \<mapsto> rec\<lparr>c_state := CONSUMED\<rparr>)"
proof -
  have e: "fst (ConsumeChallenge sid dev pc chal now m) = SUCCESS"
    and m': "m' = snd (ConsumeChallenge sid dev pc chal now m)"
    using assms by (simp_all add: ValidateAndConsume_eq)
  then have v: "verdict (challenge_of m sid) dev pc chal now = SUCCESS"
    by (simp add: ConsumeChallenge_verdict)
  then obtain rec where rec: "challenge_of m sid = Some rec" "c_state rec = OUTSTANDING"
      "now \<le> c_expirationTimestampMs rec" "c_deviceId rec = dev" "c_pcId rec = pc" "c_challenge rec = chal"
    unfolding verdict_SUCCESS_iff by blast
  have "challenge_of m' = (challenge_of m)(sid \<mapsto> rec\<lparr>c_state := CONSUMED\<rparr>)"
    by (rule ext) (simp add: m' challenge_of_ConsumeChallenge settle_def rec(1) v [unfolded rec(1)])
  with rec show ?thesis by blast
qed

theorem consume_success_witness:
  "\<exists>rec. challenge_of (AddChallenge (sample_record\<lparr>c_state := OUTSTANDING\<rparr>) []) (replicate 16 0xAA) = Some rec
    \<and> c_state rec = OUTSTANDING \<and> 31000 \<le> c_expirationTimestampMs rec \<and> c_deviceId rec = replicate 16 0x11
    \<and> c_pcId rec = replicate 16 0x99 \<and> c_challenge rec = replicate 32 0x77
    \<and> challenge_of (AddChallenge sample_record [])
      = (challenge_of (AddChallenge (sample_record\<lparr>c_state := OUTSTANDING\<rparr>) []))
          (replicate 16 0xAA \<mapsto> rec\<lparr>c_state := CONSUMED\<rparr>)"
proof (rule consume_success)
  show "ValidateAndConsumeChallenge (replicate 16 0xAA) (replicate 16 0x11) (replicate 16 0x99)
      (replicate 32 0x77) 31000 (AddChallenge (sample_record\<lparr>c_state := OUTSTANDING\<rparr>) [])
    = (SUCCESS, AddChallenge sample_record [])"
    by (simp add: ValidateAndConsumeChallenge_def AddChallenge_def sample_record_def Let_def)
qed

section \<open>Generation\<close>

lemma GenerateRandomBytes_length:
  "run_state (GenerateRandomBytes w e (Some buf)) l = ((ok, out), l') \<Longrightarrow>
     \<exists>buf'. out = Some buf' \<and> length buf' = length buf"
  by (auto simp: GenerateRandomBytes_def Let_def split: if_splits)

lemma GenerateChallenge_run:
  assumes "ChallengeRecord_wf uninit"
  shows "fst (run_state (GenerateChallenge w e now uninit dev pc) l) =
    (let a = w l (Cng (BCryptGenRandom (m_hRngAlg e) 16));
         a' = w (l @ [(Cng (BCryptGenRandom (m_hRngAlg e) 16), a)]) (Cng (BCryptGenRandom (m_hRngAlg e) 32))
     in \<lparr>c_sessionId = if a_ok a then overwrite (c_sessionId uninit) (a_bytes a) else c_sessionId uninit,
         c_deviceId = dev, c_pcId = pc,
         c_challenge = if a_ok a' then overwrite (c_challenge uninit) (a_bytes a') else c_challenge uninit,
         c_creationTimestampMs = now, c_expirationTimestampMs = now + DEFAULT_CHALLENGE_TTL_MS,
         c_state = OUTSTANDING\<rparr>)"
  using assms
  by (auto simp: GenerateChallenge_def GenerateRandomBytes_def ChallengeRecord_wf_def size_defs Let_def overwrite_take
      intro!: ChallengeRecord.equality)

text \<open>
  The generator does not look at the result of the random generator: when
  \<open>BCryptGenRandom\<close> fails, the record is still issued as outstanding for the usual 30 seconds,
  and its session identifier and challenge are whatever the uninitialised record held.
\<close>

theorem GenerateChallenge_ignores_rng_failure:
  assumes "ChallengeRecord_wf uninit" "\<And>l' n. \<not> a_ok (w l' (Cng (BCryptGenRandom (m_hRngAlg e) n)))"
  shows "fst (run_state (GenerateChallenge w e now uninit dev pc) l) =
    uninit\<lparr>c_deviceId := dev, c_pcId := pc, c_creationTimestampMs := now,
      c_expirationTimestampMs := now + 30000, c_state := OUTSTANDING\<rparr>"
  using assms by (simp add: GenerateChallenge_run Let_def DEFAULT_CHALLENGE_TTL_MS_def)

theorem GenerateChallenge_ignores_rng_failure_witness:
  "fst (run_state (GenerateChallenge (\<lambda>l c. \<lparr>a_ok = False, a_handle = 0, a_bytes = [], a_num = 0\<rparr>)
      CryptoEngine_init 5 sample_record (replicate 16 1) (replicate 16 2)) [])
   = sample_record\<lparr>c_deviceId := replicate 16 1, c_pcId := replicate 16 2, c_creationTimestampMs := 5,
      c_expirationTimestampMs := 5 + 30000, c_state := OUTSTANDING\<rparr>"
  by (rule GenerateChallenge_ignores_rng_failure)
    (simp_all add: ChallengeRecord_wf_def sample_record_def size_defs)

end
