(* ===== verification/Device_Registry.thy ===== *)
theory Device_Registry
  imports Protocol Crypto_Engine
begin

text \<open>
  \<open>windows/agent/DeviceRegistry.cpp\<close>: the registered phones and the CNG key handle of each. The
  functional behaviour is that of a map from device identifiers to keys; the resource behaviour
  is exact ownership: the keys the process holds on behalf of the registry are those of the
  entries, one each, through every operation, and none after the destructor.
\<close>

section \<open>Operations\<close>

record RegisteredDevice =
  d_deviceId :: "byte list"
  d_deviceName :: string
  d_hPublicKey :: handle
  d_isEnabled :: bool

definition RegisteredDevice_init :: RegisteredDevice where
  "RegisteredDevice_init = \<lparr>d_deviceId = replicate UUID_SIZE 0, d_deviceName = [],
     d_hPublicKey = NULL, d_isEnabled = True\<rparr>"

type_synonym DeviceRegistry = "RegisteredDevice table"

definition DeviceRegistry_init :: DeviceRegistry where
  "DeviceRegistry_init = []"

definition DeviceRegistry_BytesToKey :: "byte list \<Rightarrow> string" where
  "DeviceRegistry_BytesToKey data = hex_of_bytes data"

text \<open>\<open>if (it != end && it->second.hPublicKey) BCryptDestroyKey(it->second.hPublicKey);\<close>\<close>

definition destroy_entry_key :: "env \<Rightarrow> RegisteredDevice option \<Rightarrow> (os_log, unit) state" where
  "destroy_entry_key w it =
     (case it of
        None \<Rightarrow> State_Monad.return ()
      | Some d \<Rightarrow>
          if d_hPublicKey d \<noteq> NULL
          then do { _ \<leftarrow> cng w (BCryptDestroyKey (d_hPublicKey d)); State_Monad.return () }
          else State_Monad.return ())"

definition RegisterDevice ::
    "env \<Rightarrow> CryptoEngine \<Rightarrow> byte list \<Rightarrow> string \<Rightarrow> byte list option \<Rightarrow> DeviceRegistry
      \<Rightarrow> (os_log, bool \<times> DeviceRegistry) state" where
  "RegisterDevice w e deviceId deviceName rawPublicKeyXy m_devices = do {
     hKey \<leftarrow> ImportRawPublicKey w e rawPublicKeyXy;
     if hKey = NULL then State_Monad.return (False, m_devices)
     else do {
       let keyStr = DeviceRegistry_BytesToKey deviceId;
       _ \<leftarrow> destroy_entry_key w (map_of m_devices keyStr);
       let dev = RegisteredDevice_init\<lparr>d_deviceId := deviceId, d_deviceName := deviceName,
             d_hPublicKey := hKey, d_isEnabled := True\<rparr>;
       State_Monad.return (True, AList.update keyStr dev m_devices)
     }}"

definition RegisterDeviceDer ::
    "env \<Rightarrow> CryptoEngine \<Rightarrow> byte list \<Rightarrow> string \<Rightarrow> byte list option \<Rightarrow> DeviceRegistry
      \<Rightarrow> (os_log, bool \<times> DeviceRegistry) state" where
  "RegisterDeviceDer w e deviceId deviceName derPublicKey m_devices = do {
     hKey \<leftarrow> ImportDerPublicKey w e derPublicKey;
     if hKey = NULL then State_Monad.return (False, m_devices)
     else do {
       let keyStr = DeviceRegistry_BytesToKey deviceId;
       _ \<leftarrow> destroy_entry_key w (map_of m_devices keyStr);
       let dev = RegisteredDevice_init\<lparr>d_deviceId := deviceId, d_deviceName := deviceName,
             d_hPublicKey := hKey, d_isEnabled := True\<rparr>;
       State_Monad.return (True, AList.update keyStr dev m_devices)
     }}"

definition GetDevicePublicKey :: "byte list \<Rightarrow> DeviceRegistry \<Rightarrow> handle" where
  "GetDevicePublicKey deviceId m_devices =
     (let keyStr = DeviceRegistry_BytesToKey deviceId
      in case map_of m_devices keyStr of
           Some d \<Rightarrow> if d_isEnabled d then d_hPublicKey d else NULL
         | None \<Rightarrow> NULL)"

definition IsDeviceRegistered :: "byte list \<Rightarrow> DeviceRegistry \<Rightarrow> bool" where
  "IsDeviceRegistered deviceId m_devices =
     (let keyStr = DeviceRegistry_BytesToKey deviceId
      in case map_of m_devices keyStr of Some d \<Rightarrow> d_isEnabled d | None \<Rightarrow> False)"

definition UnregisterDevice ::
    "env \<Rightarrow> byte list \<Rightarrow> DeviceRegistry \<Rightarrow> (os_log, bool \<times> DeviceRegistry) state" where
  "UnregisterDevice w deviceId m_devices =
     (let keyStr = DeviceRegistry_BytesToKey deviceId
      in case map_of m_devices keyStr of
           Some d \<Rightarrow> do {
             _ \<leftarrow> destroy_entry_key w (Some d);
             State_Monad.return (True, AList.delete keyStr m_devices)
           }
         | None \<Rightarrow> State_Monad.return (False, m_devices))"

fun DeviceRegistry_destroy :: "env \<Rightarrow> DeviceRegistry \<Rightarrow> (os_log, DeviceRegistry) state" where
  "DeviceRegistry_destroy w [] = State_Monad.return []"
| "DeviceRegistry_destroy w ((k, d) # rest) =
     (if d_hPublicKey d \<noteq> NULL
      then do {
        _ \<leftarrow> cng w (BCryptDestroyKey (d_hPublicKey d));
        rest' \<leftarrow> DeviceRegistry_destroy w rest;
        State_Monad.return ((k, d\<lparr>d_hPublicKey := NULL\<rparr>) # rest')
      }
      else do {
        rest' \<leftarrow> DeviceRegistry_destroy w rest;
        State_Monad.return ((k, d) # rest')
      })"

interpretation dr: keyed_table DeviceRegistry_BytesToKey
  by unfold_locales (simp add: DeviceRegistry_BytesToKey_def hex_of_bytes_inj)

section \<open>Ownership of the keys\<close>

definition entry_key :: "string \<times> RegisteredDevice \<Rightarrow> resource" where
  "entry_key e = RKey (d_hPublicKey (snd e))"

definition reg_keys :: "DeviceRegistry \<Rightarrow> resource multiset" where
  "reg_keys reg = mset (map entry_key reg)"

text \<open>
  \<open>owns reg l rest\<close>: the table is well formed (distinct keys, no null handle), and what the
  process holds after the log \<open>l\<close> is one key per entry together with \<open>rest\<close>, which belongs to
  others.
\<close>

definition owns :: "DeviceRegistry \<Rightarrow> os_log \<Rightarrow> resource multiset \<Rightarrow> bool" where
  "owns reg l rest \<longleftrightarrow> distinct (map fst reg) \<and> (\<forall>d \<in> snd ` set reg. d_hPublicKey d \<noteq> NULL)
     \<and> held l = reg_keys reg + rest \<and> releases_ok l"

lemma reg_keys_member: "map_of reg k = Some d \<Longrightarrow> RKey (d_hPublicKey d) \<in># reg_keys reg"
  by (drule map_of_SomeD) (force simp: reg_keys_def entry_key_def)

definition dev_key :: "RegisteredDevice option \<Rightarrow> resource multiset" where
  "dev_key it = opt_mset (map_option (\<lambda>d. RKey (d_hPublicKey d)) it)"

lemma dev_key_simps [simp]: "dev_key None = {#}" "dev_key (Some d) = {#RKey (d_hPublicKey d)#}"
  by (simp_all add: dev_key_def)

lemma reg_keys_Cons [simp]: "reg_keys ((k, d) # reg) = add_mset (RKey (d_hPublicKey d)) (reg_keys reg)"
  by (simp add: reg_keys_def entry_key_def)

lemma reg_keys_Nil [simp]: "reg_keys [] = {#}"
  by (simp add: reg_keys_def)

lemma reg_keys_update:
  "distinct (map fst reg) \<Longrightarrow> reg_keys (AList.update k d reg) + dev_key (map_of reg k)
     = add_mset (RKey (d_hPublicKey d)) (reg_keys reg)"
proof (induction reg)
  case Nil
  then show ?case by simp
next
  case (Cons e reg)
  obtain k' d' where e: "e = (k', d')" by (cases e)
  show ?case
  proof (cases "k' = k")
    case True
    then show ?thesis by (simp add: e)
  next
    case False
    with Cons have "reg_keys (AList.update k d reg) + dev_key (map_of reg k)
        = add_mset (RKey (d_hPublicKey d)) (reg_keys reg)" by (simp add: e)
    with False show ?thesis by (simp add: e)
  qed
qed

lemma reg_keys_delete:
  "distinct (map fst reg) \<Longrightarrow> reg_keys (AList.delete k reg) + dev_key (map_of reg k) = reg_keys reg"
proof (induction reg)
  case Nil
  then show ?case by simp
next
  case (Cons e reg)
  obtain k' d' where e: "e = (k', d')" by (cases e)
  show ?case
  proof (cases "k' = k")
    case True
    with Cons.prems have "AList.delete k reg = reg" by (simp add: e delete_id)
    with True show ?thesis by (simp add: e)
  next
    case False
    with Cons show ?thesis by (simp add: e)
  qed
qed

text \<open>Destroying the key of an entry releases what that entry contributes.\<close>

lemma destroy_entry_key_held:
  assumes "it = None \<or> (\<exists>d. it = Some d \<and> d_hPublicKey d \<noteq> NULL)"
    and "l' = snd (run_state (destroy_entry_key w it) l)"
  shows "held l' = held l - dev_key it \<and> (releases_ok l \<longrightarrow> dev_key it \<subseteq># held l \<longrightarrow> releases_ok l')"
  using assms by (auto simp: destroy_entry_key_def)

lemma destroy_entry_key_appends: "\<exists>t. snd (run_state (destroy_entry_key w it) l) = l @ t"
  by (auto simp: destroy_entry_key_def split: option.split)

lemma owns_entry:
  assumes "owns reg l rest"
  shows "map_of reg k = None \<or> (\<exists>d. map_of reg k = Some d \<and> d_hPublicKey d \<noteq> NULL)"
  using assms by (cases "map_of reg k") (auto simp: owns_def dest: map_of_SomeD)

lemma owns_put:
  assumes own: "owns reg l rest" and imp: "import_result P l (h, l1)" and h: "h \<noteq> NULL"
    and run: "l2 = snd (run_state (destroy_entry_key w (map_of reg k)) l1)"
    and d: "d_hPublicKey d = h"
  shows "owns (AList.update k d reg) l2 rest"
proof -
  have dist: "distinct (map fst reg)" and nn: "\<forall>d \<in> snd ` set reg. d_hPublicKey d \<noteq> NULL"
    and held: "held l = reg_keys reg + rest" and ok: "releases_ok l"
    using own by (auto simp: owns_def)
  have l1: "held l1 = add_mset (RKey h) (held l)" "releases_ok l1"
    using imp h ok by (auto simp: import_result_def)
  have upd: "held l1 = reg_keys (AList.update k d reg) + dev_key (map_of reg k) + rest"
    using reg_keys_update [OF dist, of k d] by (simp add: l1 held d)
  have l2: "held l2 = reg_keys (AList.update k d reg) + rest" "releases_ok l2"
    using destroy_entry_key_held [OF owns_entry [OF own] run] l1(2) by (auto simp: upd)
  have "snd ` set (AList.update k d reg) \<subseteq> insert d (snd ` set reg)"
    using dist by (induction reg) auto
  with nn h d have "\<forall>d' \<in> snd ` set (AList.update k d reg). d_hPublicKey d' \<noteq> NULL" by blast
  with l2 dist show ?thesis by (simp add: owns_def distinct_update)
qed

lemma owns_no_import:
  assumes "owns reg l rest" "import_result P l (NULL, l1)"
  shows "owns reg l1 rest"
  using assms by (auto simp: owns_def import_result_def)

lemma owns_erase:
  assumes own: "owns reg l rest" and run: "l' = snd (run_state (destroy_entry_key w (map_of reg k)) l)"
  shows "owns (AList.delete k reg) l' rest"
proof -
  have dist: "distinct (map fst reg)" and held: "held l = reg_keys reg + rest" and ok: "releases_ok l"
    using own by (auto simp: owns_def)
  have del: "held l = reg_keys (AList.delete k reg) + dev_key (map_of reg k) + rest"
    using reg_keys_delete [OF dist, of k] by (simp add: held)
  have l': "held l' = reg_keys (AList.delete k reg) + rest" "releases_ok l'"
    using destroy_entry_key_held [OF owns_entry [OF own] run] ok by (auto simp: del)
  have "set (AList.delete k reg) \<subseteq> set reg" by (induction reg) auto
  with own l' show ?thesis by (auto simp: owns_def distinct_delete)
qed

lemma ImportRawPublicKey_result:
  assumes "import_nonnull w"
  shows "import_result (key_window (the raw)) l (run_state (ImportRawPublicKey w e raw) l)"
proof (cases raw)
  case None
  then show ?thesis
    by (simp add: ImportRawPublicKey_def PublicKeyImporter_ImportRawPublicKey_def import_result_NULL)
next
  case (Some bs)
  with assms show ?thesis
    by (auto simp: ImportRawPublicKey_def key_window_def intro!: ImportRaw_result)
qed

lemma ImportDerPublicKey_result:
  assumes "import_nonnull w"
  shows "import_result (key_window (the der)) l (run_state (ImportDerPublicKey w e der) l)"
proof (cases der)
  case None
  then show ?thesis
    by (simp add: ImportDerPublicKey_def PublicKeyImporter_ImportDerPublicKey_def import_result_NULL)
next
  case (Some bs)
  with assms show ?thesis by (simp add: ImportDerPublicKey_def ImportDer_result)
qed

text \<open>The operations that change the registry, and sequences of them.\<close>

datatype registry_op =
    OpRegister CryptoEngine "byte list" string "byte list option"
  | OpRegisterDer CryptoEngine "byte list" string "byte list option"
  | OpUnregister "byte list"

fun registry_step :: "env \<Rightarrow> registry_op \<Rightarrow> DeviceRegistry \<Rightarrow> (os_log, bool \<times> DeviceRegistry) state" where
  "registry_step w (OpRegister e deviceId name key) reg = RegisterDevice w e deviceId name key reg"
| "registry_step w (OpRegisterDer e deviceId name key) reg = RegisterDeviceDer w e deviceId name key reg"
| "registry_step w (OpUnregister deviceId) reg = UnregisterDevice w deviceId reg"

fun registry_run :: "env \<Rightarrow> registry_op list \<Rightarrow> DeviceRegistry \<Rightarrow> (os_log, DeviceRegistry) state" where
  "registry_run w [] reg = State_Monad.return reg"
| "registry_run w (op # ops) reg = do {
     r \<leftarrow> registry_step w op reg;
     registry_run w ops (snd r) }"

text \<open>
  A registration, raw or DER, is an import followed by the same update of the table; this is
  what the import leaves and what the update then does.
\<close>

definition registered_with ::
    "env \<Rightarrow> (os_log, handle) state \<Rightarrow> byte list \<Rightarrow> string \<Rightarrow> DeviceRegistry \<Rightarrow> os_log
      \<Rightarrow> (bool \<times> DeviceRegistry) \<times> os_log" where
  "registered_with w imp deviceId name reg l =
     (let (h, l1) = run_state imp l;
          k = DeviceRegistry_BytesToKey deviceId
      in if h = NULL then ((False, reg), l1)
         else ((True, AList.update k \<lparr>d_deviceId = deviceId, d_deviceName = name,
                 d_hPublicKey = h, d_isEnabled = True\<rparr> reg),
               snd (run_state (destroy_entry_key w (map_of reg k)) l1)))"

lemma RegisterDevice_run:
  "run_state (RegisterDevice w e deviceId name key reg) l
     = registered_with w (ImportRawPublicKey w e key) deviceId name reg l"
  by (simp add: RegisterDevice_def registered_with_def RegisteredDevice_init_def run_if Let_def
      split: prod.split)

lemma RegisterDeviceDer_run:
  "run_state (RegisterDeviceDer w e deviceId name key reg) l
     = registered_with w (ImportDerPublicKey w e key) deviceId name reg l"
  by (simp add: RegisterDeviceDer_def registered_with_def RegisteredDevice_init_def run_if Let_def
      split: prod.split)

lemma UnregisterDevice_run:
  "run_state (UnregisterDevice w deviceId reg) l
     = (let k = DeviceRegistry_BytesToKey deviceId
        in ((map_of reg k \<noteq> None, AList.delete k reg), snd (run_state (destroy_entry_key w (map_of reg k)) l)))"
proof (cases "map_of reg (DeviceRegistry_BytesToKey deviceId)")
  case None
  then have "AList.delete (DeviceRegistry_BytesToKey deviceId) reg = reg"
    by (simp add: map_of_eq_None_iff delete_id)
  with None show ?thesis by (simp add: UnregisterDevice_def destroy_entry_key_def)
next
  case (Some d)
  then show ?thesis by (simp add: UnregisterDevice_def Let_def split: prod.split)
qed

lemmas registry_runs = RegisterDevice_run RegisterDeviceDer_run UnregisterDevice_run

lemma owns_registered_with:
  assumes "owns reg l rest" "import_result P l (run_state imp l)"
    and "registered_with w imp deviceId name reg l = ((ok, reg'), l')"
  shows "owns reg' l' rest"
proof -
  obtain h l1 where imp: "run_state imp l = (h, l1)" by fastforce
  let ?k = "DeviceRegistry_BytesToKey deviceId"
  show ?thesis
  proof (cases "h = NULL")
    case True
    with assms imp show ?thesis by (auto simp: registered_with_def intro: owns_no_import)
  next
    case False
    with assms imp show ?thesis by (auto simp: registered_with_def Let_def intro: owns_put)
  qed
qed

lemma owns_step:
  assumes "import_nonnull w" "owns reg l rest" "run_state (registry_step w op reg) l = ((ok, reg'), l')"
  shows "owns reg' l' rest"
proof (cases op)
  case (OpRegister e deviceId name key)
  with assms show ?thesis
    by (auto simp: registry_runs intro: owns_registered_with ImportRawPublicKey_result)
next
  case (OpRegisterDer e deviceId name key)
  with assms show ?thesis
    by (auto simp: registry_runs intro: owns_registered_with ImportDerPublicKey_result)
next
  case (OpUnregister deviceId)
  with assms show ?thesis by (auto simp: registry_runs Let_def intro: owns_erase)
qed

lemma owns_run:
  assumes "import_nonnull w" "owns reg l rest" "run_state (registry_run w ops reg) l = (reg', l')"
  shows "owns reg' l' rest"
  using assms(2,3)
proof (induction ops arbitrary: reg l)
  case Nil
  then show ?case by simp
next
  case (Cons op ops)
  obtain ok reg1 l1 where step: "run_state (registry_step w op reg) l = ((ok, reg1), l1)"
    by (metis surj_pair)
  from Cons step owns_step [OF assms(1) Cons.prems(1) step] show ?case by simp
qed

lemma destroy_held:
  assumes "\<forall>d \<in> snd ` set reg. d_hPublicKey d \<noteq> NULL" "held l = reg_keys reg + rest" "releases_ok l"
    "run_state (DeviceRegistry_destroy w reg) l = (reg', l')"
  shows "held l' = rest \<and> releases_ok l'"
  using assms
proof (induction reg arbitrary: l l' reg')
  case Nil
  then show ?case by simp
next
  case (Cons e reg)
  obtain k d where e: "e = (k, d)" by (cases e)
  let ?l1 = "l @ [(Cng (BCryptDestroyKey (d_hPublicKey d)), w l (Cng (BCryptDestroyKey (d_hPublicKey d))))]"
  obtain reg1 l1 where rest: "run_state (DeviceRegistry_destroy w reg) ?l1 = (reg1, l1)" by fastforce
  have "held l1 = rest \<and> releases_ok l1"
    using Cons.prems by (intro Cons.IH [OF _ _ _ rest]) (auto simp: e)
  with Cons.prems rest show ?case by (simp add: e)
qed

lemma owns_destroy:
  assumes "owns reg l rest" "run_state (DeviceRegistry_destroy w reg) l = (reg', l')"
  shows "held l' = rest \<and> releases_ok l'"
  using assms by (intro destroy_held) (auto simp: owns_def)

lemma owns_init: "releases_ok l \<Longrightarrow> owns DeviceRegistry_init l (held l)"
  by (simp add: owns_def DeviceRegistry_init_def)

lemma owns_live_key:
  assumes "owns reg l rest" "GetDevicePublicKey deviceId reg = h" "h \<noteq> NULL"
  shows "RKey h \<in># held l"
proof -
  obtain k d where "map_of reg k = Some d" "h = d_hPublicKey d"
    using assms(2,3) by (auto simp: GetDevicePublicKey_def Let_def split: option.splits if_splits)
  with assms(1) show ?thesis using reg_keys_member [of reg k d] by (simp add: owns_def)
qed

text \<open>
  No CNG key leaks, dangles or is destroyed twice: after any sequence of registrations (raw
  or DER, of new or known devices, failing or not) and removals, a key that a lookup returns is
  still open; and once the destructor has run, the process holds exactly what it held before the
  registry existed, every release on the way having been of a key it held.
\<close>

theorem registry_no_leak:
  assumes "import_nonnull w" "releases_ok l"
    and "run_state (registry_run w ops DeviceRegistry_init) l = (reg, l1)"
    and "run_state (DeviceRegistry_destroy w reg) l1 = (reg2, l2)"
  shows "held l2 = held l \<and> releases_ok l2
    \<and> (GetDevicePublicKey deviceId reg \<noteq> NULL \<longrightarrow> RKey (GetDevicePublicKey deviceId reg) \<in># held l1)"
proof -
  have "owns reg l1 (held l)" using owns_run [OF assms(1) owns_init [OF assms(2)] assms(3)] .
  then show ?thesis using owns_destroy [OF _ assms(4)] owns_live_key by blast
qed

section \<open>The registry is a map\<close>

definition device_map :: "DeviceRegistry \<Rightarrow> byte list \<Rightarrow> (string \<times> handle) option" where
  "device_map reg deviceId = (case map_of reg (DeviceRegistry_BytesToKey deviceId) of
     Some d \<Rightarrow> if d_isEnabled d then Some (d_deviceName d, d_hPublicKey d) else None | None \<Rightarrow> None)"

text \<open>\<open>issued P h t\<close>: the calls \<open>t\<close> contain an import that answered \<open>h\<close> for coordinates \<open>P\<close>.\<close>

definition issued :: "(byte list \<Rightarrow> bool) \<Rightarrow> handle \<Rightarrow> os_log \<Rightarrow> bool" where
  "issued P h t \<longleftrightarrow> (\<exists>alg coords a. (Cng (BCryptImportKeyPair alg
     (EccBlob ''BCRYPT_ECDSA_PUBLIC_P256_MAGIC'' 32 coords)), a) \<in> set t \<and> a_ok a \<and> a_handle a = h \<and> P coords)"

fun op_key :: "registry_op \<Rightarrow> byte list" where
  "op_key (OpRegister e deviceId name key) = the key"
| "op_key (OpRegisterDer e deviceId name key) = the key"
| "op_key (OpUnregister deviceId) = []"

text \<open>
  The specification: an accepted registration binds the device to its name and to a handle CNG
  issued in this call for 64 consecutive bytes of the key material; a refused one changes
  nothing; a removal unbinds the device and says whether it was there.
\<close>

fun registry_spec ::
    "registry_op \<Rightarrow> (byte list \<Rightarrow> (string \<times> handle) option) \<Rightarrow> os_log \<Rightarrow> bool
      \<Rightarrow> (byte list \<Rightarrow> (string \<times> handle) option) \<Rightarrow> bool" where
  "registry_spec (OpUnregister deviceId) m t ok m' = (ok = (m deviceId \<noteq> None) \<and> m' = m(deviceId := None))"
| "registry_spec (OpRegister e deviceId name key) m t ok m' =
     (if ok then \<exists>h. h \<noteq> NULL \<and> issued (key_window (the key)) h t \<and> m' = m(deviceId \<mapsto> (name, h)) else m' = m)"
| "registry_spec (OpRegisterDer e deviceId name key) m t ok m' =
     (if ok then \<exists>h. h \<noteq> NULL \<and> issued (key_window (the key)) h t \<and> m' = m(deviceId \<mapsto> (name, h)) else m' = m)"

definition all_enabled :: "DeviceRegistry \<Rightarrow> bool" where
  "all_enabled reg \<longleftrightarrow> (\<forall>d \<in> snd ` set reg. d_isEnabled d)"

lemma device_map_put:
  "device_map (AList.update (DeviceRegistry_BytesToKey deviceId) d reg)
     = (device_map reg)(deviceId := if d_isEnabled d then Some (d_deviceName d, d_hPublicKey d) else None)"
  by (rule ext) (simp add: device_map_def dr.find_put)

lemma device_map_erase:
  "device_map (AList.delete (DeviceRegistry_BytesToKey deviceId) reg) = (device_map reg)(deviceId := None)"
  by (rule ext) (simp add: device_map_def dr.find_erase)

lemma registered_with_spec:
  assumes "import_result P l (run_state imp l)"
    and "registered_with w imp deviceId name reg l = ((ok, reg'), l')"
  shows "if ok then \<exists>h. h \<noteq> NULL \<and> issued P h (drop (length l) l') \<and> device_map reg' = (device_map reg)(deviceId \<mapsto> (name, h))
    else device_map reg' = device_map reg"
proof -
  obtain h l1 where imp: "run_state imp l = (h, l1)" by fastforce
  show ?thesis
  proof (cases "h = NULL")
    case True
    with assms(2) imp show ?thesis by (auto simp: registered_with_def)
  next
    case False
    then obtain t alg a coords where t: "l1 = l @ t" "t \<noteq> []" "a_ok a" "a_handle a = h" "P coords"
      "last t = (Cng (BCryptImportKeyPair alg (EccBlob ''BCRYPT_ECDSA_PUBLIC_P256_MAGIC'' 32 coords)), a)"
      using assms(1) by (auto simp: imp import_result_def)
    from t(2,6) have "(Cng (BCryptImportKeyPair alg (EccBlob ''BCRYPT_ECDSA_PUBLIC_P256_MAGIC'' 32 coords)), a) \<in> set t"
      using last_in_set by metis
    moreover have "\<exists>t'. l' = l1 @ t'"
      using assms(2) False destroy_entry_key_appends by (auto simp: imp registered_with_def Let_def)
    ultimately have "issued P h (drop (length l) l')" using t by (fastforce simp: issued_def)
    with assms(2) False show ?thesis by (auto simp: imp registered_with_def Let_def device_map_put)
  qed
qed

lemma update_values: "snd ` set (AList.update k d reg) \<subseteq> insert d (snd ` set reg)"
  by (induction reg) auto

lemma delete_values: "snd ` set (AList.delete k reg) \<subseteq> snd ` set reg"
  by (induction reg) auto

lemma all_enabled_step:
  assumes "all_enabled reg" "run_state (registry_step w op reg) l = ((ok, reg'), l')"
  shows "all_enabled reg'"
  using assms update_values delete_values
  by (cases op) (fastforce simp: all_enabled_def registry_runs registered_with_def Let_def
      split: prod.splits if_splits)+

text \<open>
  C30. \<open>DeviceRegistry\<close> refines a map: on a registry all of whose entries are enabled (the code
  never disables one), each operation changes \<open>device_map\<close> exactly as \<open>registry_spec\<close> says,
  keeps the entries enabled, and \<open>GetDevicePublicKey\<close> and \<open>IsDeviceRegistered\<close> read that map:
  the handle last registered for the device, or null.
\<close>

theorem registry_refines_map:
  assumes "import_nonnull w" "all_enabled reg" "run_state (registry_step w op reg) l = ((ok, reg'), l')"
  shows "registry_spec op (device_map reg) (drop (length l) l') ok (device_map reg') \<and> all_enabled reg'
    \<and> GetDevicePublicKey deviceId reg' = (case device_map reg' deviceId of Some (_, h) \<Rightarrow> h | None \<Rightarrow> NULL)
    \<and> IsDeviceRegistered deviceId reg' = (device_map reg' deviceId \<noteq> None)"
proof (intro conjI)
  show "registry_spec op (device_map reg) (drop (length l) l') ok (device_map reg')"
  proof (cases op)
    case (OpRegister e deviceId name key)
    show ?thesis
      using assms(3) registered_with_spec [OF ImportRawPublicKey_result [OF assms(1), of key l e]]
      unfolding OpRegister by (simp only: registry_step.simps registry_runs registry_spec.simps)
  next
    case (OpRegisterDer e deviceId name key)
    show ?thesis
      using assms(3) registered_with_spec [OF ImportDerPublicKey_result [OF assms(1), of key l e]]
      unfolding OpRegisterDer by (simp only: registry_step.simps registry_runs registry_spec.simps)
  next
    case (OpUnregister deviceId)
    have "map_of reg k \<noteq> None \<longleftrightarrow> (case map_of reg k of Some d \<Rightarrow> if d_isEnabled d then Some (d_deviceName d, d_hPublicKey d) else None
        | None \<Rightarrow> None) \<noteq> None" for k
      using assms(2) map_of_SomeD [of reg k] by (cases "map_of reg k") (force simp: all_enabled_def)+
    with OpUnregister assms(3) show ?thesis
      by (auto simp: registry_runs Let_def device_map_erase device_map_def [of reg deviceId])
  qed
qed (use assms all_enabled_step in \<open>auto simp: GetDevicePublicKey_def IsDeviceRegistered_def
       device_map_def Let_def split: option.split\<close>)

text \<open>A registration, a replacement of its key and a failing DER registration, in \<^const>\<open>yes_env\<close>.\<close>

definition sample_engine :: CryptoEngine where
  "sample_engine = \<lparr>m_hEcdsaAlg = 1, m_hRngAlg = 2, m_hSha256Alg = 3\<rparr>"

definition sample_ops :: "registry_op list" where
  "sample_ops = [OpRegister sample_engine [1] ''phone'' (Some (replicate 64 5)),
     OpRegister sample_engine [1] ''phone'' (Some (replicate 64 6)),
     OpRegisterDer sample_engine [2] ''short'' (Some [1, 2])]"

theorem registry_no_leak_witness:
  "let (reg, l1) = run_state (registry_run yes_env sample_ops DeviceRegistry_init) [];
       (reg2, l2) = run_state (DeviceRegistry_destroy yes_env reg) l1
   in held l2 = {#} \<and> releases_ok l2 \<and> length l2 = 4 \<and> RKey 7 \<in># held l1"
proof -
  let ?r1 = "run_state (registry_run yes_env sample_ops DeviceRegistry_init) []"
  let ?r2 = "run_state (DeviceRegistry_destroy yes_env (fst ?r1)) (snd ?r1)"
  have "length (snd ?r2) = 4" and "GetDevicePublicKey [1] (fst ?r1) = 7" by code_simp+
  with registry_no_leak [of yes_env "[]" sample_ops "fst ?r1" "snd ?r1" "fst ?r2" "snd ?r2" "[1]"]
  show ?thesis by (auto simp: import_nonnull_yes_env Let_def split: prod.splits)
qed

theorem registry_refines_map_witness:
  "let r = run_state (registry_step yes_env (hd sample_ops) []) []
   in fst (fst r) \<and> registry_spec (hd sample_ops) (device_map []) (snd r) True (device_map (snd (fst r)))
      \<and> GetDevicePublicKey [1] (snd (fst r)) = 7"
proof -
  let ?r = "run_state (registry_step yes_env (hd sample_ops) []) []"
  have ok: "fst (fst ?r)" and key: "GetDevicePublicKey [1] (snd (fst ?r)) = 7" by code_simp+
  from ok have r: "?r = ((True, snd (fst ?r)), snd ?r)" by (metis (full_types) prod.collapse)
  have "all_enabled []" by (simp add: all_enabled_def)
  from registry_refines_map [OF import_nonnull_yes_env this r, of "[9]"] ok key show ?thesis
    by (simp add: Let_def)
qed

end
