(* ===== verification/Agent_Service.thy ===== *)
theory Agent_Service
  imports Tcp_Transport Challenge_Store Device_Registry
begin

text \<open>
  \<open>windows/agent/AgentService.cpp\<close>: the desktop agent, which owns the crypto engine, the challenge
  store, the device registry and the transport, issues unlock challenges and decides on unlock
  responses. The clock reading \<open>nowMs\<close> of a call and the content of uninitialised locals are
  arguments. A result \<open>None\<close> is the read outside the buffer of the signature parser.
\<close>

section \<open>Operations\<close>

record AgentService =
  ag_port :: u16
  ag_pcId :: "byte list"
  ag_cryptoEngine :: CryptoEngine
  ag_challengeStore :: ChallengeStore
  ag_deviceRegistry :: DeviceRegistry
  ag_transport :: TcpTransport

definition AgentService_init :: "u16 \<Rightarrow> byte list \<Rightarrow> AgentService" where
  "AgentService_init listenPort pcId = \<lparr>ag_port = listenPort, ag_pcId = pcId,
     ag_cryptoEngine = CryptoEngine_init, ag_challengeStore = ChallengeStore_init,
     ag_deviceRegistry = DeviceRegistry_init, ag_transport = SetListener True TcpTransport_init\<rparr>"

definition AgentService_new :: "env \<Rightarrow> u16 \<Rightarrow> byte list \<Rightarrow> (os_log, AgentService) state" where
  "AgentService_new w listenPort pcId = do {
     t \<leftarrow> TcpTransport_new w;
     State_Monad.return ((AgentService_init listenPort pcId)\<lparr>ag_transport := SetListener True t\<rparr>)
   }"

text \<open>
  The events of \<open>StartListener\<close> go to the agent's own \<open>OnError\<close>, which prints them; the result
  keeps them.
\<close>

definition AgentService_Start :: "env \<Rightarrow> AgentService \<Rightarrow> (os_log, bool \<times> AgentService \<times> listener_event list) state" where
  "AgentService_Start w ag = do {
     (ok, e) \<leftarrow> Initialize w (ag_cryptoEngine ag);
     let ag = ag\<lparr>ag_cryptoEngine := e\<rparr>;
     if \<not> ok then State_Monad.return (False, ag, [])
     else do {
       (ok, t, evs) \<leftarrow> StartListener w (ag_port ag) (ag_transport ag);
       State_Monad.return (ok, ag\<lparr>ag_transport := t\<rparr>, evs)
     }}"

definition AgentService_Stop :: "env \<Rightarrow> AgentService \<Rightarrow> (os_log, AgentService) state" where
  "AgentService_Stop w ag = do {
     t \<leftarrow> Close w (ag_transport ag);
     State_Monad.return (ag\<lparr>ag_transport := t\<rparr>)
   }"

definition AgentService_RegisterDevice ::
    "env \<Rightarrow> byte list \<Rightarrow> string \<Rightarrow> byte list option \<Rightarrow> AgentService \<Rightarrow> (os_log, bool \<times> AgentService) state" where
  "AgentService_RegisterDevice w deviceId name rawPublicKeyXy ag = do {
     (ok, reg) \<leftarrow> RegisterDevice w (ag_cryptoEngine ag) deviceId name rawPublicKeyXy (ag_deviceRegistry ag);
     State_Monad.return (ok, ag\<lparr>ag_deviceRegistry := reg\<rparr>)
   }"

definition unlock_request_payload :: "ChallengeRecord \<Rightarrow> byte list" where
  "unlock_request_payload record =
     (let payload = replicate 80 0;
          payload = wr payload 0 (c_sessionId record);
          payload = wr payload 16 (c_pcId record);
          payload = wr payload 32 (c_challenge record);
          payload = wr payload 64 (put_be64 (c_creationTimestampMs record));
          payload = wr payload 72 (put_be64 (c_expirationTimestampMs record))
      in payload)"

definition InitiateUnlockRequest ::
    "env \<Rightarrow> u64 \<Rightarrow> ChallengeRecord \<Rightarrow> byte list \<Rightarrow> AgentService \<Rightarrow> (os_log, ChallengeRecord \<times> AgentService) state" where
  "InitiateUnlockRequest w nowMs uninit deviceId ag = do {
     record \<leftarrow> GenerateChallenge w (ag_cryptoEngine ag) nowMs uninit deviceId (ag_pcId ag);
     let ag = ag\<lparr>ag_challengeStore := AddChallenge record (ag_challengeStore ag)\<rparr>;
     let payload = unlock_request_payload record;
     if IsConnected (ag_transport ag)
     then do {
       (_, t) \<leftarrow> SendFrame w UNLOCK_REQ payload (ag_transport ag);
       State_Monad.return (record, ag\<lparr>ag_transport := t\<rparr>)
     }
     else State_Monad.return (record, ag)
   }"

definition ProcessUnlockResponse ::
    "env \<Rightarrow> u64 \<Rightarrow> ChallengeRecord \<Rightarrow> TransportFrame \<Rightarrow> AgentService
      \<Rightarrow> (os_log, (ErrorCode \<times> AgentService) option) state" where
  "ProcessUnlockResponse w nowMs uninit frame ag =
     (if length (f_payload frame) < 108 + 8 then State_Monad.return (Some (INVALID_REQUEST, ag))
      else
        (case Deserialize (Some (take 108 (f_payload frame))) AuthPayload_init of
           None \<Rightarrow> State_Monad.return None
         | Some (ok, payloadP, parseErr) \<Rightarrow>
             if \<not> ok then State_Monad.return (Some (parseErr, ag))
             else
               let sigBytes = drop 108 (f_payload frame);
                   (valErr, rec) = ValidateChallenge (p_sessionId payloadP) (p_deviceId payloadP) (ag_pcId ag)
                     (p_challenge payloadP) nowMs uninit (ag_challengeStore ag)
               in if valErr \<noteq> SUCCESS then State_Monad.return (Some (valErr, ag))
                  else
                    let hPubKey = GetDevicePublicKey (p_deviceId payloadP) (ag_deviceRegistry ag)
                    in if hPubKey = NULL then State_Monad.return (Some (UNKNOWN_DEVICE, ag))
                       else do {
                         sigValid \<leftarrow> VerifySignature w (ag_cryptoEngine ag) hPubKey
                           (Some (take 108 (f_payload frame))) (Some sigBytes);
                         (case sigValid of
                            None \<Rightarrow> State_Monad.return None
                          | Some False \<Rightarrow> State_Monad.return (Some (INVALID_SIGNATURE, ag))
                          | Some True \<Rightarrow>
                              let (consumeErr, m) = ValidateAndConsumeChallenge (p_sessionId payloadP)
                                    (p_deviceId payloadP) (ag_pcId ag) (p_challenge payloadP) nowMs
                                    (ag_challengeStore ag)
                              in State_Monad.return (Some (consumeErr, ag\<lparr>ag_challengeStore := m\<rparr>)))
                       }))"

text \<open>The first component of the result is the error code that was decided, if one was.\<close>

definition AgentService_OnFrameReceived ::
    "env \<Rightarrow> u64 \<Rightarrow> ChallengeRecord \<Rightarrow> TransportFrame \<Rightarrow> AgentService
      \<Rightarrow> (os_log, (ErrorCode option \<times> AgentService) option) state" where
  "AgentService_OnFrameReceived w nowMs uninit frame ag =
     (if f_messageType frame = UNLOCK_RESP
      then do {
        r \<leftarrow> ProcessUnlockResponse w nowMs uninit frame ag;
        (case r of
           None \<Rightarrow> State_Monad.return None
         | Some (err, ag) \<Rightarrow> do {
             let respPayload = put_be16 (ErrorCode_value err);
             (_, t) \<leftarrow> SendFrame w (if err = SUCCESS then UNLOCK_RESP else ERROR_MSG) respPayload (ag_transport ag);
             State_Monad.return (Some (Some err, ag\<lparr>ag_transport := t\<rparr>))
           })
      }
      else State_Monad.return (Some (None, ag)))"

text \<open>
  The destructor: \<open>Stop\<close>, then the members in reverse order of declaration; the transport's own
  destructor closes it once more and releases Winsock.
\<close>

definition AgentService_destroy :: "env \<Rightarrow> AgentService \<Rightarrow> (os_log, unit) state" where
  "AgentService_destroy w ag = do {
     ag \<leftarrow> AgentService_Stop w ag;
     _ \<leftarrow> TcpTransport_destroy w (ag_transport ag);
     _ \<leftarrow> DeviceRegistry_destroy w (ag_deviceRegistry ag);
     CryptoEngine_destroy w (ag_cryptoEngine ag)
   }"

section \<open>The decision on a response\<close>

text \<open>The payload fields of a response, once it is long enough.\<close>

definition response_payload :: "TransportFrame \<Rightarrow> AuthPayload" where
  "response_payload frame = (case Deserialize (Some (take 108 (f_payload frame))) AuthPayload_init of
     Some (ok, p, e) \<Rightarrow> p | None \<Rightarrow> AuthPayload_init)"

text \<open>
  The error decided without looking at the signature: size, format, state of the challenge,
  registration, in this order; \<open>None\<close> when the signature decides.
\<close>

definition precheck :: "u64 \<Rightarrow> TransportFrame \<Rightarrow> AgentService \<Rightarrow> ErrorCode option" where
  "precheck now frame ag =
     (let p = response_payload frame;
          v = verdict (challenge_of (ag_challengeStore ag) (p_sessionId p)) (p_deviceId p) (ag_pcId ag) (p_challenge p) now
      in if length (f_payload frame) < 116 then Some INVALID_REQUEST
         else if payload_error (Some (take 108 (f_payload frame))) \<noteq> SUCCESS
           then Some (payload_error (Some (take 108 (f_payload frame))))
         else if v \<noteq> SUCCESS then Some v
         else if GetDevicePublicKey (p_deviceId p) (ag_deviceRegistry ag) = NULL then Some UNKNOWN_DEVICE
         else None)"

text \<open>The store after a response whose signature was accepted.\<close>

definition spend :: "TransportFrame \<Rightarrow> u64 \<Rightarrow> AgentService \<Rightarrow> AgentService" where
  "spend frame now ag = (let p = response_payload frame in ag\<lparr>ag_challengeStore := snd (ValidateAndConsumeChallenge
     (p_sessionId p) (p_deviceId p) (ag_pcId ag) (p_challenge p) now (ag_challengeStore ag))\<rparr>)"

lemma ProcessUnlockResponse_view:
  "ProcessUnlockResponse w now uninit frame ag =
     (case precheck now frame ag of
        Some e \<Rightarrow> State_Monad.return (Some (e, ag))
      | None \<Rightarrow> do {
          r \<leftarrow> VerifySignature w (ag_cryptoEngine ag)
            (GetDevicePublicKey (p_deviceId (response_payload frame)) (ag_deviceRegistry ag))
            (Some (take 108 (f_payload frame))) (Some (drop 108 (f_payload frame)));
          State_Monad.return (map_option (\<lambda>ok. if ok then (SUCCESS, spend frame now ag) else (INVALID_SIGNATURE, ag)) r)
        })"
proof -
  let ?buf = "take 108 (f_payload frame)"
  obtain p where D: "Deserialize (Some ?buf) AuthPayload_init
      = Some (payload_error (Some ?buf) = SUCCESS, p, payload_error (Some ?buf))"
    using Deserialize_result by blast
  then have p: "response_payload frame = p" by (simp add: response_payload_def)
  let ?v = "verdict (challenge_of (ag_challengeStore ag) (p_sessionId p)) (p_deviceId p) (ag_pcId ag) (p_challenge p) now"
  have fst_consume: "fst (ValidateAndConsumeChallenge (p_sessionId p) (p_deviceId p) (ag_pcId ag) (p_challenge p) now
      (ag_challengeStore ag)) = ?v"
    by (simp add: ValidateAndConsume_eq ConsumeChallenge_verdict)
  show ?thesis
  proof (cases "precheck now frame ag")
    case (Some e)
    then show ?thesis
      by (auto simp: ProcessUnlockResponse_def D precheck_def p ValidateChallenge_verdict Let_def split: if_splits)
  next
    case None
    then have c: "116 \<le> length (f_payload frame)" "payload_error (Some ?buf) = SUCCESS" "?v = SUCCESS"
      "GetDevicePublicKey (p_deviceId p) (ag_deviceRegistry ag) \<noteq> NULL"
      by (auto simp: precheck_def p Let_def split: if_splits)
    have tail: "(case sigValid of None \<Rightarrow> State_Monad.return None
          | Some False \<Rightarrow> State_Monad.return (Some (INVALID_SIGNATURE, ag))
          | Some True \<Rightarrow> let (e, m) = ValidateAndConsumeChallenge (p_sessionId p) (p_deviceId p) (ag_pcId ag)
                (p_challenge p) now (ag_challengeStore ag)
              in State_Monad.return (Some (e, ag\<lparr>ag_challengeStore := m\<rparr>)))
        = State_Monad.return (map_option (\<lambda>ok. if ok then (SUCCESS, spend frame now ag) else (INVALID_SIGNATURE, ag)) sigValid)"
      for sigValid
      using fst_consume c(3)
      by (auto simp: spend_def p Let_def case_prod_unfold split: option.split bool.split)
    show ?thesis
      using c
      by (simp add: ProcessUnlockResponse_def D ValidateChallenge_verdict None p)
        (intro arg_cong2 [where f = State_Monad.bind] refl ext, rule tail [unfolded Let_def])
  qed
qed

text \<open>
  The run of a response, branch by branch: a failed check before the signature makes no call
  and changes nothing.
\<close>

lemma ProcessUnlockResponse_cases:
  assumes "run_state (ProcessUnlockResponse w now uninit frame ag) l = (r, l')"
  obtains e where "precheck now frame ag = Some e" "e \<noteq> SUCCESS" "r = Some (e, ag)" "l' = l"
  | v where "precheck now frame ag = None"
      "run_state (VerifySignature w (ag_cryptoEngine ag)
         (GetDevicePublicKey (p_deviceId (response_payload frame)) (ag_deviceRegistry ag))
         (Some (take 108 (f_payload frame))) (Some (drop 108 (f_payload frame)))) l = (v, l')"
      "map_option (\<lambda>ok. if ok then (SUCCESS, spend frame now ag) else (INVALID_SIGNATURE, ag)) v = r"
proof (cases "precheck now frame ag")
  case (Some e)
  then have "e \<noteq> SUCCESS" by (auto simp: precheck_def Let_def split: if_splits)
  with Some assms that(1) show ?thesis by (simp add: ProcessUnlockResponse_view)
next
  case None
  obtain v l1 where "run_state (VerifySignature w (ag_cryptoEngine ag)
      (GetDevicePublicKey (p_deviceId (response_payload frame)) (ag_deviceRegistry ag))
      (Some (take 108 (f_payload frame))) (Some (drop 108 (f_payload frame)))) l = (v, l1)" by fastforce
  with None assms that(2) show ?thesis by (simp add: ProcessUnlockResponse_view)
qed

lemma precheck_None:
  assumes "precheck now frame ag = None" "p = response_payload frame"
  shows "f_payload frame = Serialize p @ drop 108 (f_payload frame)" "take 108 (f_payload frame) = Serialize p"
    "AuthPayload_current p"
    "verdict (challenge_of (ag_challengeStore ag) (p_sessionId p)) (p_deviceId p) (ag_pcId ag) (p_challenge p) now = SUCCESS"
    "GetDevicePublicKey (p_deviceId p) (ag_deviceRegistry ag) \<noteq> NULL"
proof -
  let ?buf = "take 108 (f_payload frame)"
  obtain q where D: "Deserialize (Some ?buf) AuthPayload_init
      = Some (payload_error (Some ?buf) = SUCCESS, q, payload_error (Some ?buf))"
    using Deserialize_result by blast
  have "payload_error (Some ?buf) = SUCCESS" using assms(1) by (auto simp: precheck_def Let_def split: if_splits)
  with D assms(2) have "Deserialize (Some ?buf) AuthPayload_init = Some (True, p, SUCCESS)"
    by (simp add: response_payload_def)
  from Deserialize_canonical [OF this] show buf: "?buf = Serialize p" and "AuthPayload_current p" by simp_all
  show "f_payload frame = Serialize p @ drop 108 (f_payload frame)"
    by (metis append_take_drop_id buf)
  show "verdict (challenge_of (ag_challengeStore ag) (p_sessionId p)) (p_deviceId p) (ag_pcId ag) (p_challenge p) now = SUCCESS"
    "GetDevicePublicKey (p_deviceId p) (ag_deviceRegistry ag) \<noteq> NULL"
    using assms by (auto simp: precheck_def Let_def split: if_splits)
qed

lemma challenge_of_spend:
  assumes "precheck now frame ag = None" "p = response_payload frame"
  shows "challenge_of (ag_challengeStore (spend frame now ag)) sid =
    (if sid = p_sessionId p then map_option (\<lambda>r. r\<lparr>c_state := CONSUMED\<rparr>) (challenge_of (ag_challengeStore ag) sid)
     else challenge_of (ag_challengeStore ag) sid)"
  using precheck_None(4) [OF assms]
  by (auto simp: spend_def assms(2) Let_def challenge_of_simps settle_def intro: option.map_cong)

text \<open>
  C3. Soundness of an unlock. \<open>ProcessUnlockResponse\<close> answers \<open>SUCCESS\<close> only if the frame is a
  canonical payload of the current protocol followed by a signature; the payload's session has an
  outstanding challenge that this agent keeps, issued to the payload's device for this PC, with the
  payload's challenge bytes, not past its expiry; the device is registered; and in this very call
  CNG accepted the signature over all 108 payload bytes under that device's key. The challenge is
  then consumed and nothing else of the agent changes.
\<close>

theorem unlock_sound:
  assumes "run_state (ProcessUnlockResponse w now uninit frame ag) l = (Some (SUCCESS, ag'), l')"
  shows "\<exists>p sig rec t. f_payload frame = Serialize p @ sig \<and> AuthPayload_current p
    \<and> challenge_of (ag_challengeStore ag) (p_sessionId p) = Some rec
    \<and> c_state rec = OUTSTANDING \<and> now \<le> c_expirationTimestampMs rec
    \<and> c_deviceId rec = p_deviceId p \<and> c_pcId rec = ag_pcId ag \<and> c_challenge rec = p_challenge p
    \<and> GetDevicePublicKey (p_deviceId p) (ag_deviceRegistry ag) \<noteq> NULL
    \<and> l' = l @ t
    \<and> verified_by (ag_cryptoEngine ag) (GetDevicePublicKey (p_deviceId p) (ag_deviceRegistry ag)) (Serialize p) sig t
    \<and> ag' = ag\<lparr>ag_challengeStore := ag_challengeStore ag'\<rparr>
    \<and> challenge_of (ag_challengeStore ag')
        = (challenge_of (ag_challengeStore ag))(p_sessionId p \<mapsto> rec\<lparr>c_state := CONSUMED\<rparr>)"
  using assms
proof (cases rule: ProcessUnlockResponse_cases)
  case (2 v)
  let ?p = "response_payload frame"
  note pre = precheck_None [OF 2(1) refl]
  from 2(3) have v: "v = Some True" and ag': "ag' = spend frame now ag"
    by (auto simp: map_option_eq_Some split: if_splits)
  obtain rec where rec: "challenge_of (ag_challengeStore ag) (p_sessionId ?p) = Some rec" "c_state rec = OUTSTANDING"
    "now \<le> c_expirationTimestampMs rec" "c_deviceId rec = p_deviceId ?p" "c_pcId rec = ag_pcId ag"
    "c_challenge rec = p_challenge ?p"
    using pre(4) unfolding verdict_SUCCESS_iff by blast
  have "dword_blob (take 108 (f_payload frame)) = Serialize ?p" using pre(2) dword_blob_take [of 108 "f_payload frame"] by simp
  with VerifySignature_true [OF 2(2) [unfolded v]] obtain t where t: "l' = l @ t"
    "verified_by (ag_cryptoEngine ag) (GetDevicePublicKey (p_deviceId ?p) (ag_deviceRegistry ag)) (Serialize ?p)
       (drop 108 (f_payload frame)) t"
    by auto
  have "challenge_of (ag_challengeStore ag')
      = (challenge_of (ag_challengeStore ag))(p_sessionId ?p \<mapsto> rec\<lparr>c_state := CONSUMED\<rparr>)"
    using challenge_of_spend [OF 2(1) refl] rec(1) by (auto simp: ag')
  moreover have "ag' = ag\<lparr>ag_challengeStore := ag_challengeStore ag'\<rparr>" by (simp add: ag' spend_def Let_def)
  ultimately show ?thesis using pre(1,3,5) rec t by blast
qed simp


subsection \<open>A response, and what the agent does not look at\<close>

lemma response_payload_Serialize:
  assumes "AuthPayload_current p" "f_payload frame = Serialize p @ sig"
  shows "response_payload frame = p" "payload_error (Some (take 108 (f_payload frame))) = SUCCESS"
    "take 108 (f_payload frame) = Serialize p" "length (f_payload frame) = 108 + length sig"
proof -
  have len: "length (Serialize p) = 108"
    using length_Serialize [of p] assms(1) by (simp add: AuthPayload_current_def size_defs)
  then show buf: "take 108 (f_payload frame) = Serialize p" and "length (f_payload frame) = 108 + length sig"
    by (simp_all add: assms(2))
  have D: "Deserialize (Some (Serialize p)) AuthPayload_init = Some (True, p, SUCCESS)"
    using assms(1) by (rule Deserialize_encoded)
  then show "response_payload frame = p" by (simp add: response_payload_def buf)
  from D Deserialize_result [of "Some (Serialize p)" AuthPayload_init]
  show "payload_error (Some (take 108 (f_payload frame))) = SUCCESS" by (simp add: buf)
qed

text \<open>
  Two of the signed fields are never compared with anything: whatever PC identifier and
  expiry the payload carries, every check before the signature comes out the same. The agent
  passes its own identifier to the challenge store instead of the payload's, so that a response
  made for another PC is not rejected with \<open>PC_MISMATCH\<close>.
\<close>

theorem pc_and_expiry_unchecked:
  assumes "AuthPayload_current p" "length pc = UUID_SIZE"
    and "f_payload frame = Serialize p @ sig"
    and "f_payload frame' = Serialize (p\<lparr>p_pcId := pc, p_expirationTimestampMs := expiry\<rparr>) @ sig"
  shows "precheck now frame' ag = precheck now frame ag"
proof -
  let ?p' = "p\<lparr>p_pcId := pc, p_expirationTimestampMs := expiry\<rparr>"
  have "AuthPayload_current ?p'"
    using assms(1,2) by (simp add: AuthPayload_current_def AuthPayload_wf_def size_defs)
  from response_payload_Serialize [OF this assms(4)] response_payload_Serialize [OF assms(1,3)] show ?thesis
    by (simp add: precheck_def Let_def)
qed

text \<open>
  An agent with one registered device and one outstanding challenge, and a response to it whose
  payload names another PC and an expiry long past.
\<close>

definition sample_agent :: AgentService where
  "sample_agent = (AgentService_init 8443 (replicate 16 0x99))
     \<lparr>ag_challengeStore := AddChallenge (sample_record\<lparr>c_state := OUTSTANDING\<rparr>) [],
      ag_deviceRegistry := [(DeviceRegistry_BytesToKey (replicate 16 0x11),
        RegisteredDevice_init\<lparr>d_deviceId := replicate 16 0x11, d_hPublicKey := 7\<rparr>)]\<rparr>"

definition sample_payload :: AuthPayload where
  "sample_payload = AuthPayload_init\<lparr>p_deviceId := replicate 16 0x11, p_sessionId := replicate 16 0xAA,
     p_pcId := replicate 16 0x55, p_challenge := replicate 32 0x77, p_expirationTimestampMs := 1\<rparr>"

definition sample_response :: TransportFrame where
  "sample_response = TransportFrame_init\<lparr>f_messageType := UNLOCK_RESP,
     f_payload := Serialize sample_payload @ replicate 64 1\<rparr>"

lemma sample_payload_current: "AuthPayload_current sample_payload"
  by (simp add: AuthPayload_current_def AuthPayload_wf_def sample_payload_def AuthPayload_init_def size_defs)

lemma f_payload_sample_response: "f_payload sample_response = Serialize sample_payload @ replicate 64 1"
  by (simp add: sample_response_def)

lemmas sample_response_fields = response_payload_Serialize [OF sample_payload_current f_payload_sample_response]

lemma precheck_sample: "precheck 2000 sample_response sample_agent = None"
proof -
  have "challenge_of (ag_challengeStore sample_agent) (p_sessionId sample_payload) = Some (sample_record\<lparr>c_state := OUTSTANDING\<rparr>)"
    by (simp add: sample_agent_def challenge_of_AddChallenge sample_record_def sample_payload_def)
  moreover have "GetDevicePublicKey (p_deviceId sample_payload) (ag_deviceRegistry sample_agent) = 7"
    by (simp add: sample_agent_def sample_payload_def GetDevicePublicKey_def RegisteredDevice_init_def)
  moreover have "payload_error (Some (Serialize sample_payload)) = SUCCESS"
    using sample_response_fields(2,3) by simp
  ultimately show ?thesis
    by (simp add: precheck_def sample_response_fields verdict_def sample_record_def Let_def)
      (simp add: sample_agent_def sample_payload_def AgentService_init_def)
qed

lemma process_sample:
  "\<exists>l'. run_state (ProcessUnlockResponse yes_env 2000 uninit sample_response sample_agent) l
     = (Some (SUCCESS, spend sample_response 2000 sample_agent), l')"
proof -
  have "GetDevicePublicKey (p_deviceId sample_payload) (ag_deviceRegistry sample_agent) = 7"
    by (simp add: sample_agent_def sample_payload_def GetDevicePublicKey_def RegisteredDevice_init_def)
  moreover have "drop 108 (f_payload sample_response) = replicate 64 1"
    using sample_response_fields(3,4) by (simp add: f_payload_sample_response)
  moreover have "Serialize sample_payload \<noteq> []" using sample_response_fields(3,4) by auto
  ultimately show ?thesis
    by (simp add: ProcessUnlockResponse_view precheck_sample sample_response_fields VerifySignature_alt
        raw_signature_def yes_env_def)
qed

theorem unlock_sound_witness:
  "\<exists>rec t. challenge_of (ag_challengeStore sample_agent) (p_sessionId sample_payload) = Some rec
    \<and> c_state rec = OUTSTANDING \<and> verified_by (ag_cryptoEngine sample_agent) 7 (Serialize sample_payload) (replicate 64 1) t"
proof -
  obtain l' where run: "run_state (ProcessUnlockResponse yes_env 2000 sample_record sample_response sample_agent) []
      = (Some (SUCCESS, spend sample_response 2000 sample_agent), l')" using process_sample by blast
  from unlock_sound [OF run] obtain p sig rec t where u: "f_payload sample_response = Serialize p @ sig"
    "AuthPayload_current p" "challenge_of (ag_challengeStore sample_agent) (p_sessionId p) = Some rec"
    "c_state rec = OUTSTANDING"
    "verified_by (ag_cryptoEngine sample_agent) (GetDevicePublicKey (p_deviceId p) (ag_deviceRegistry sample_agent))
       (Serialize p) sig t"
    by blast
  from response_payload_Serialize [OF u(2,1)] sample_response_fields have p: "p = sample_payload" by simp
  with u(1) have "sig = replicate 64 1" by (simp add: f_payload_sample_response)
  moreover have "GetDevicePublicKey (p_deviceId sample_payload) (ag_deviceRegistry sample_agent) = 7"
    by (simp add: sample_agent_def sample_payload_def GetDevicePublicKey_def RegisteredDevice_init_def)
  ultimately show ?thesis using u(3-5) by (auto simp: p)
qed


theorem pc_and_expiry_unchecked_witness:
  "precheck 2000 sample_response sample_agent
   = precheck 2000 (sample_response\<lparr>f_payload := Serialize (sample_payload\<lparr>p_pcId := replicate 16 0x99\<rparr>) @ replicate 64 1\<rparr>) sample_agent
   \<and> p_pcId sample_payload \<noteq> ag_pcId sample_agent"
proof -
  have cur: "AuthPayload_current (sample_payload\<lparr>p_pcId := replicate 16 0x99\<rparr>)"
    using sample_payload_current by (simp add: AuthPayload_current_def AuthPayload_wf_def size_defs)
  have "f_payload sample_response
      = Serialize (sample_payload\<lparr>p_pcId := replicate 16 0x99\<rparr>\<lparr>p_pcId := replicate 16 0x55, p_expirationTimestampMs := 1\<rparr>) @ replicate 64 1"
    by (simp add: f_payload_sample_response sample_payload_def AuthPayload_init_def)
  from pc_and_expiry_unchecked [OF cur _ _ this] show ?thesis
    by (simp add: size_defs) (simp add: sample_payload_def sample_agent_def AgentService_init_def)
qed

end
