(* ===== verification/Agent_Runs.thy ===== *)
theory Agent_Runs
  imports Agent_Service
begin

text \<open>
  Sequences of operations of the agent: a challenge unlocks at most once, an unlock presupposes a
  challenge issued to that device within the time to live, every resource is given back at the
  end, and what arrives on the connection is decided frame by frame.
\<close>

section \<open>Operations and runs\<close>

datatype agent_op =
    AInitiate u64 ChallengeRecord "byte list"
  | AFrame u64 ChallengeRecord TransportFrame
  | ARegister "byte list" string "byte list option"
  | AUnregister "byte list"
  | AExpire u64
  | AAccept
  | AStop

datatype agent_result = Issued ChallengeRecord | Decided "ErrorCode option" | Quiet | Undefined

type_synonym agent_state = "(AgentService \<times> os_log) option"

text \<open>
  One operation. Removal of a device and the expiry sweep are reached through the accessors
  \<open>GetDeviceRegistry\<close> and \<open>GetChallengeStore\<close>. The state \<open>None\<close> follows undefined behaviour.
\<close>

fun agent_step :: "env \<Rightarrow> agent_op \<Rightarrow> agent_state \<Rightarrow> agent_result \<times> agent_state" where
  "agent_step w op None = (Undefined, None)"
| "agent_step w (AInitiate now uninit deviceId) (Some (ag, l)) =
     (let r = run_state (InitiateUnlockRequest w now uninit deviceId ag) l
      in (Issued (fst (fst r)), Some (snd (fst r), snd r)))"
| "agent_step w (AFrame now uninit frame) (Some (ag, l)) =
     (case run_state (AgentService_OnFrameReceived w now uninit frame ag) l of
        (None, l') \<Rightarrow> (Undefined, None)
      | (Some (e, ag'), l') \<Rightarrow> (Decided e, Some (ag', l')))"
| "agent_step w (ARegister deviceId name key) (Some (ag, l)) =
     (let r = run_state (AgentService_RegisterDevice w deviceId name key ag) l
      in (Quiet, Some (snd (fst r), snd r)))"
| "agent_step w (AUnregister deviceId) (Some (ag, l)) =
     (let r = run_state (UnregisterDevice w deviceId (ag_deviceRegistry ag)) l
      in (Quiet, Some (ag\<lparr>ag_deviceRegistry := snd (fst r)\<rparr>, snd r)))"
| "agent_step w (AExpire now) (Some (ag, l)) =
     (Quiet, Some (ag\<lparr>ag_challengeStore := snd (ExpireChallenges now (ag_challengeStore ag))\<rparr>, l))"
| "agent_step w AAccept (Some (ag, l)) =
     (let r = run_state (tcp_step w OpAccepted (ag_transport ag)) l
      in (Quiet, Some (ag\<lparr>ag_transport := fst r\<rparr>, snd r)))"
| "agent_step w AStop (Some (ag, l)) =
     (let r = run_state (AgentService_Stop w ag) l in (Quiet, Some (fst r, snd r)))"

definition agent_live :: "agent_state \<Rightarrow> byte list \<Rightarrow> bool" where
  "agent_live s sid \<longleftrightarrow> (case s of None \<Rightarrow> False | Some (ag, l) \<Rightarrow> outstanding (ag_challengeStore ag) sid)"

definition issues_session :: "agent_op \<Rightarrow> agent_result \<Rightarrow> byte list \<Rightarrow> bool" where
  "issues_session op res sid \<longleftrightarrow> (\<exists>rec. res = Issued rec \<and> c_sessionId rec = sid)"

text \<open>The operation unlocked the PC on the challenge of this session.\<close>

definition unlocks :: "agent_op \<Rightarrow> agent_result \<Rightarrow> byte list \<Rightarrow> bool" where
  "unlocks op res sid \<longleftrightarrow> (\<exists>now uninit frame. op = AFrame now uninit frame \<and> res = Decided (Some SUCCESS)
     \<and> p_sessionId (response_payload frame) = sid)"

section \<open>What an operation does to the challenges\<close>

lemma InitiateUnlockRequest_effect:
  assumes "run_state (InitiateUnlockRequest w now uninit deviceId ag) l = ((rec, ag'), l')"
  shows "rec = fst (run_state (GenerateChallenge w (ag_cryptoEngine ag) now uninit deviceId (ag_pcId ag)) l)"
    "ag_challengeStore ag' = AddChallenge rec (ag_challengeStore ag)"
    "ag_pcId ag' = ag_pcId ag"
  using assms by (auto simp: InitiateUnlockRequest_def run_if Let_def split: if_splits prod.splits)

lemma GenerateChallenge_fields:
  "let r = fst (run_state (GenerateChallenge w e now uninit deviceId pcId) l)
   in c_deviceId r = deviceId \<and> c_pcId r = pcId \<and> c_creationTimestampMs r = now
      \<and> c_expirationTimestampMs r = now + DEFAULT_CHALLENGE_TTL_MS \<and> c_state r = OUTSTANDING"
  by (simp add: GenerateChallenge_def Let_def split: prod.split)

lemma OnFrameReceived_store:
  assumes "run_state (AgentService_OnFrameReceived w now uninit frame ag) l = (Some (e, ag'), l')"
  shows "ag_pcId ag' = ag_pcId ag \<and> (if e = Some SUCCESS
      then precheck now frame ag = None \<and> ag_challengeStore ag' = ag_challengeStore (spend frame now ag)
      else ag_challengeStore ag' = ag_challengeStore ag)"
proof (cases "f_messageType frame = UNLOCK_RESP")
  case True
  obtain r l1 where r: "run_state (ProcessUnlockResponse w now uninit frame ag) l = (r, l1)" by fastforce
  with True assms obtain err ag1 where r1: "r = Some (err, ag1)" and eq: "e = Some err"
    "ag_challengeStore ag' = ag_challengeStore ag1" "ag_pcId ag' = ag_pcId ag1"
    by (auto simp: AgentService_OnFrameReceived_def Let_def split: option.splits prod.splits)
  from r have "(if err = SUCCESS then precheck now frame ag = None \<and> ag1 = spend frame now ag else ag1 = ag)"
    by (cases rule: ProcessUnlockResponse_cases) (auto simp: r1 map_option_eq_Some split: if_splits)
  with eq show ?thesis by (auto simp: spend_def Let_def split: if_splits)
next
  case False
  with assms show ?thesis by (auto simp: AgentService_OnFrameReceived_def)
qed

lemma RegisterDevice_store:
  "ag_challengeStore (snd (fst (run_state (AgentService_RegisterDevice w deviceId name key ag) l))) = ag_challengeStore ag"
  "ag_pcId (snd (fst (run_state (AgentService_RegisterDevice w deviceId name key ag) l))) = ag_pcId ag"
  by (simp_all add: AgentService_RegisterDevice_def split: prod.split)

lemma Stop_store:
  "ag_challengeStore (fst (run_state (AgentService_Stop w ag) l)) = ag_challengeStore ag"
  "ag_pcId (fst (run_state (AgentService_Stop w ag) l)) = ag_pcId ag"
  by (simp_all add: AgentService_Stop_def split: prod.split)

text \<open>
  An operation that does not issue the session again leaves its record, or consumes or expires it;
  it unlocks only an outstanding one.
\<close>

definition record_kept :: "agent_op \<Rightarrow> agent_result \<Rightarrow> ChallengeStore \<Rightarrow> ChallengeStore \<Rightarrow> byte list \<Rightarrow> bool" where
  "record_kept op res m m' sid \<longleftrightarrow>
     challenge_of m' sid = None \<and> challenge_of m sid = None \<or>
     (\<exists>r r'. challenge_of m sid = Some r \<and> challenge_of m' sid = Some r'
       \<and> record_step r r' \<and> (unlocks op res sid \<longrightarrow> c_state r = OUTSTANDING \<and> c_state r' = CONSUMED))"

lemma record_kept_same:
  assumes "challenge_of m' sid = challenge_of m sid" "\<not> unlocks op res sid"
  shows "record_kept op res m m' sid"
  using assms by (cases "challenge_of m sid") (auto simp: record_kept_def intro: record_step.stay)

lemma agent_step_record:
  assumes "agent_step w op (Some (ag, l)) = (res, Some (ag', l'))"
  shows "issues_session op res sid \<or> record_kept op res (ag_challengeStore ag) (ag_challengeStore ag') sid"
proof (cases op)
  case (AInitiate now uninit deviceId)
  obtain rec ag1 l1 where r: "run_state (InitiateUnlockRequest w now uninit deviceId ag) l = ((rec, ag1), l1)"
    by (metis surj_pair)
  note eff = InitiateUnlockRequest_effect [OF r]
  from assms AInitiate r have a: "res = Issued rec" "ag' = ag1" by auto
  then have nu: "\<not> unlocks op res sid" by (simp add: unlocks_def)
  show ?thesis
  proof (cases "c_sessionId rec = sid")
    case True
    then show ?thesis by (simp add: issues_session_def a)
  next
    case False
    then have "challenge_of (ag_challengeStore ag') sid = challenge_of (ag_challengeStore ag) sid"
      by (auto simp: a eff challenge_of_AddChallenge)
    with nu show ?thesis by (simp add: record_kept_same)
  qed
next
  case (AFrame now uninit frame)
  obtain r l1 where r: "run_state (AgentService_OnFrameReceived w now uninit frame ag) l = (r, l1)" by fastforce
  with assms AFrame obtain e where e: "r = Some (e, ag')" "res = Decided e" by (auto split: option.splits)
  note store = OnFrameReceived_store [OF r [unfolded e(1)]]
  show ?thesis
  proof (cases "e = Some SUCCESS")
    case True
    with store have pre: "precheck now frame ag = None"
      and st: "ag_challengeStore ag' = ag_challengeStore (spend frame now ag)" by auto
    obtain rec where rec: "challenge_of (ag_challengeStore ag) (p_sessionId (response_payload frame)) = Some rec"
      "c_state rec = OUTSTANDING"
      using precheck_None(4) [OF pre refl] unfolding verdict_SUCCESS_iff by blast
    with challenge_of_spend [OF pre refl, of sid] show ?thesis
      by (cases "challenge_of (ag_challengeStore ag) sid")
        (auto simp: record_kept_def st unlocks_def AFrame intro: record_step.intros)
  next
    case False
    with store e show ?thesis by (auto simp: unlocks_def intro: record_kept_same)
  qed
next
  case (AExpire now)
  with assms show ?thesis
    by (cases "challenge_of (ag_challengeStore ag) sid")
      (auto simp: record_kept_def unlocks_def challenge_of_ExpireChallenges intro: record_step_expire)
next
  case AStop
  with assms Stop_store(1) [of w ag l] show ?thesis by (auto simp: unlocks_def intro!: record_kept_same)
qed (use assms in \<open>auto simp: unlocks_def Let_def RegisterDevice_store Stop_store intro!: record_kept_same\<close>)

section \<open>An unlock happens once\<close>

lemma agent_step_None: "snd (agent_step w op s) = Some (ag', l') \<Longrightarrow> \<exists>ag l. s = Some (ag, l)"
  by (cases s) auto

interpretation agent: single_use "agent_step w" agent_live issues_session unlocks
proof
  fix op s sid
  show "agent_live s sid \<or> issues_session op (fst (agent_step w op s)) sid"
    if live: "agent_live (snd (agent_step w op s)) sid"
  proof -
    obtain ag' l' where s': "snd (agent_step w op s) = Some (ag', l')"
      using live by (auto simp: agent_live_def split: option.splits)
    then obtain ag l where s: "s = Some (ag, l)" using agent_step_None by blast
    with s' have "agent_step w op (Some (ag, l)) = (fst (agent_step w op s), Some (ag', l'))"
      by (metis prod.collapse)
    moreover have "outstanding (ag_challengeStore ag') sid" using live by (simp add: s' agent_live_def)
    ultimately show ?thesis
      using agent_step_record [of w op ag l _ ag' l' sid]
      by (fastforce simp: s agent_live_def outstanding_def record_kept_def elim!: record_step_cases)
  qed
  show "agent_live s sid \<and> \<not> agent_live (snd (agent_step w op s)) sid"
    if win: "unlocks op (fst (agent_step w op s)) sid"
  proof -
    obtain ag l where s: "s = Some (ag, l)"
      using win by (cases s) (auto simp: unlocks_def)
    obtain ag' l' where s': "agent_step w op (Some (ag, l)) = (fst (agent_step w op s), Some (ag', l'))"
      using win by (auto simp: unlocks_def s split: option.splits prod.splits)
    have "\<not> issues_session op (fst (agent_step w op s)) sid" using win by (auto simp: unlocks_def issues_session_def)
    with agent_step_record [OF s', of sid] win
    have "record_kept op (fst (agent_step w op s)) (ag_challengeStore ag) (ag_challengeStore ag') sid" by simp
    moreover have "\<exists>r. challenge_of (ag_challengeStore ag) sid = Some r"
    proof -
      obtain now uninit frame where op: "op = AFrame now uninit frame"
        and res: "fst (agent_step w op s) = Decided (Some SUCCESS)" and sid: "p_sessionId (response_payload frame) = sid"
        using win by (auto simp: unlocks_def)
      with s' have "\<exists>l1. run_state (AgentService_OnFrameReceived w now uninit frame ag) l = (Some (Some SUCCESS, ag'), l1)"
        by (auto split: option.splits prod.splits)
      then have "precheck now frame ag = None" using OnFrameReceived_store by fastforce
      from precheck_None(4) [OF this refl] sid show ?thesis unfolding verdict_SUCCESS_iff by auto
    qed
    ultimately have "\<exists>r r'. challenge_of (ag_challengeStore ag) sid = Some r \<and> c_state r = OUTSTANDING
        \<and> challenge_of (ag_challengeStore ag') sid = Some r' \<and> c_state r' = CONSUMED"
      using win by (auto simp: record_kept_def)
    moreover have "snd (agent_step w op s) = Some (ag', l')" using s' unfolding s by (metis snd_conv)
    ultimately show ?thesis by (auto simp: s agent_live_def outstanding_def)
  qed
qed

text \<open>
  C6. Single use of an unlock: in every run of the agent (requests, responses of any content
  and in any order, registrations, removals, expiry sweeps, connections, stops) the PC is
  unlocked on the challenge of a session at most as often as a challenge was issued for it, plus
  once if one was outstanding at the start. A replayed response does not unlock.
\<close>

theorem agent_unlocks_once:
  "run_wins (agent_step w) unlocks ops s sid
     \<le> run_issues (agent_step w) issues_session ops s sid + of_bool (agent_live s sid)"
  by (rule agent.wins_bounded)

section \<open>An unlock answers a recent challenge\<close>

text \<open>The records that a run issued, in order.\<close>

fun agent_issued :: "env \<Rightarrow> agent_op list \<Rightarrow> agent_state \<Rightarrow> ChallengeRecord list" where
  "agent_issued w [] s = []"
| "agent_issued w (op # ops) s =
     (case fst (agent_step w op s) of Issued r \<Rightarrow> [r] | _ \<Rightarrow> []) @ agent_issued w ops (snd (agent_step w op s))"

text \<open>Every record in the store was issued, and only its state may have changed since.\<close>

definition all_issued :: "ChallengeRecord list \<Rightarrow> byte list \<Rightarrow> ChallengeStore \<Rightarrow> bool" where
  "all_issued H pc m \<longleftrightarrow> (\<forall>sid r. challenge_of m sid = Some r \<longrightarrow> (\<exists>r0 \<in> set H. c_sessionId r0 = sid
     \<and> c_pcId r0 = pc \<and> c_expirationTimestampMs r0 = c_creationTimestampMs r0 + DEFAULT_CHALLENGE_TTL_MS
     \<and> r\<lparr>c_state := OUTSTANDING\<rparr> = r0\<lparr>c_state := OUTSTANDING\<rparr>))"

lemma agent_step_pcId:
  assumes "agent_step w op (Some (ag, l)) = (res, Some (ag', l'))"
  shows "ag_pcId ag' = ag_pcId ag"
proof (cases op)
  case (AInitiate now uninit deviceId)
  obtain rec ag1 l1 where r: "run_state (InitiateUnlockRequest w now uninit deviceId ag) l = ((rec, ag1), l1)"
    by (metis surj_pair)
  from assms AInitiate InitiateUnlockRequest_effect(3) [OF r] show ?thesis by (auto simp: r)
next
  case (AFrame now uninit frame)
  with assms show ?thesis using OnFrameReceived_store by (fastforce split: option.splits prod.splits)
next
  case AStop
  with assms Stop_store(2) [of w ag l] show ?thesis by auto
qed (use assms in \<open>auto simp: Let_def RegisterDevice_store\<close>)

lemma all_issued_step:
  assumes step: "agent_step w op (Some (ag, l)) = (res, Some (ag', l'))" and H: "all_issued H (ag_pcId ag) (ag_challengeStore ag)"
  shows "all_issued (H @ (case res of Issued r \<Rightarrow> [r] | _ \<Rightarrow> [])) (ag_pcId ag) (ag_challengeStore ag')"
  unfolding all_issued_def
proof (intro allI impI)
  fix sid r assume r: "challenge_of (ag_challengeStore ag') sid = Some r"
  show "\<exists>r0 \<in> set (H @ (case res of Issued r \<Rightarrow> [r] | _ \<Rightarrow> [])). c_sessionId r0 = sid
     \<and> c_pcId r0 = ag_pcId ag \<and> c_expirationTimestampMs r0 = c_creationTimestampMs r0 + DEFAULT_CHALLENGE_TTL_MS
     \<and> r\<lparr>c_state := OUTSTANDING\<rparr> = r0\<lparr>c_state := OUTSTANDING\<rparr>"
  proof (cases "issues_session op res sid")
    case True
    then obtain rec where rec: "res = Issued rec" "c_sessionId rec = sid" by (auto simp: issues_session_def)
    with step obtain now uninit deviceId where "op = AInitiate now uninit deviceId"
      by (cases op) (auto simp: Let_def split: option.splits prod.splits)
    with step rec have i: "run_state (InitiateUnlockRequest w now uninit deviceId ag) l = ((rec, ag'), l')"
      by (auto simp: Let_def prod_eq_iff)
    from InitiateUnlockRequest_effect [OF i] GenerateChallenge_fields rec r show ?thesis
      by (auto simp: challenge_of_AddChallenge Let_def)
  next
    case False
    with agent_step_record [OF step, of sid] r obtain r1 where
      "challenge_of (ag_challengeStore ag) sid = Some r1" "record_step r1 r"
      by (auto simp: record_kept_def)
    moreover then have "r\<lparr>c_state := OUTSTANDING\<rparr> = r1\<lparr>c_state := OUTSTANDING\<rparr>" by (auto elim: record_step_cases)
    ultimately show ?thesis using H unfolding all_issued_def by fastforce
  qed
qed

lemma all_issued_run:
  assumes "all_issued H (ag_pcId ag) (ag_challengeStore ag)" "run_ops (agent_step w) ops (Some (ag, l)) = Some (ag', l')"
  shows "all_issued (H @ agent_issued w ops (Some (ag, l))) (ag_pcId ag) (ag_challengeStore ag') \<and> ag_pcId ag' = ag_pcId ag"
  using assms
proof (induction ops arbitrary: H ag l)
  case Nil
  then show ?case by simp
next
  case (Cons op ops)
  have None_run: "run_ops (agent_step w) ops None = None" for ops by (induction ops) auto
  obtain res s1 where step: "agent_step w op (Some (ag, l)) = (res, s1)" by fastforce
  with Cons.prems(2) obtain ag1 l1 where s1: "s1 = Some (ag1, l1)" by (cases s1) (auto simp: None_run)
  note step = step [unfolded s1]
  from all_issued_step [OF step Cons.prems(1)] agent_step_pcId [OF step]
  have "all_issued (H @ (case res of Issued r \<Rightarrow> [r] | _ \<Rightarrow> [])) (ag_pcId ag1) (ag_challengeStore ag1)" by simp
  from Cons.IH [OF this, of l1] Cons.prems(2) agent_step_pcId [OF step] show ?case by (simp add: step)
qed

lemma unlock_issued:
  assumes "ag_challengeStore ag = ChallengeStore_init"
    and "run_ops (agent_step w) ops (Some (ag, l)) = s"
    and "fst (agent_step w (AFrame now uninit frame) s) = Decided (Some SUCCESS)"
  shows "\<exists>r \<in> set (agent_issued w ops (Some (ag, l))). c_sessionId r = p_sessionId (response_payload frame)
    \<and> c_deviceId r = p_deviceId (response_payload frame) \<and> c_challenge r = p_challenge (response_payload frame)
    \<and> c_pcId r = ag_pcId ag \<and> now \<le> c_creationTimestampMs r + 30000
    \<and> (unat (c_creationTimestampMs r) + 30000 < 2 ^ 64 \<longrightarrow> unat now \<le> unat (c_creationTimestampMs r) + 30000)"
proof -
  from assms(3) obtain ag' l' where s: "s = Some (ag', l')" by (cases s) auto
  with assms(3) have "\<exists>ag2 l2. run_state (AgentService_OnFrameReceived w now uninit frame ag') l' = (Some (Some SUCCESS, ag2), l2)"
    by (auto split: option.splits prod.splits)
  then have "precheck now frame ag' = None" using OnFrameReceived_store by fastforce
  from precheck_None(4) [OF this refl] obtain r where r:
    "challenge_of (ag_challengeStore ag') (p_sessionId (response_payload frame)) = Some r"
    "now \<le> c_expirationTimestampMs r" "c_deviceId r = p_deviceId (response_payload frame)"
    "c_challenge r = p_challenge (response_payload frame)"
    unfolding verdict_SUCCESS_iff by blast
  have "all_issued [] (ag_pcId ag) (ag_challengeStore ag)"
    by (simp add: assms(1) all_issued_def challenge_of_def ChallengeStore_init_def)
  from all_issued_run [OF this] assms(2) s
  have "all_issued (agent_issued w ops (Some (ag, l))) (ag_pcId ag) (ag_challengeStore ag')" by auto
  with r(1) obtain r0 where r0: "r0 \<in> set (agent_issued w ops (Some (ag, l)))"
    "c_sessionId r0 = p_sessionId (response_payload frame)" "c_pcId r0 = ag_pcId ag"
    "c_expirationTimestampMs r0 = c_creationTimestampMs r0 + DEFAULT_CHALLENGE_TTL_MS"
    "r\<lparr>c_state := OUTSTANDING\<rparr> = r0\<lparr>c_state := OUTSTANDING\<rparr>"
    unfolding all_issued_def by blast
  from r0(5) have same: "c_deviceId r = c_deviceId r0" "c_challenge r = c_challenge r0"
    "c_expirationTimestampMs r = c_expirationTimestampMs r0"
    by (cases r; cases r0; simp)+
  have le: "now \<le> c_creationTimestampMs r0 + 30000" using r(2) same r0(4) by (simp add: DEFAULT_CHALLENGE_TTL_MS_def)
  moreover have "unat (c_creationTimestampMs r0) + 30000 < 2 ^ 64 \<longrightarrow> unat now \<le> unat (c_creationTimestampMs r0) + 30000"
  proof
    assume "unat (c_creationTimestampMs r0) + 30000 < 2 ^ 64"
    then have "unat (c_creationTimestampMs r0 + 30000) = unat (c_creationTimestampMs r0) + 30000"
      by (simp add: unat_add_lem [THEN iffD1])
    with le show "unat now \<le> unat (c_creationTimestampMs r0) + 30000" by (simp add: word_le_nat_alt)
  qed
  ultimately show ?thesis using r0 r same by metis
qed

text \<open>
  C8. Authenticity and freshness. When an agent that started with no challenge unlocks on a
  response, it has issued earlier in the same run a challenge with that session, that device,
  those 32 challenge bytes and its own PC identifier, and the clock at the unlock is at most 30000
  ms past the clock at that issue (as machine words; as numbers whenever the sum does not wrap).
\<close>

theorem unlock_authentic:
  assumes "ag_challengeStore ag = ChallengeStore_init"
    and "run_ops (agent_step w) ops (Some (ag, l)) = s"
    and "fst (agent_step w (AFrame now uninit frame) s) = Decided (Some SUCCESS)"
  shows "\<exists>r \<in> set (agent_issued w ops (Some (ag, l))). c_sessionId r = p_sessionId (response_payload frame)
    \<and> c_deviceId r = p_deviceId (response_payload frame) \<and> c_challenge r = p_challenge (response_payload frame)
    \<and> c_pcId r = ag_pcId ag \<and> now \<le> c_creationTimestampMs r + 30000
    \<and> (unat (c_creationTimestampMs r) + 30000 < 2 ^ 64 \<longrightarrow> unat now \<le> unat (c_creationTimestampMs r) + 30000)"
  using assms by (rule unlock_issued)

lemma initiate_sample:
  "\<exists>l'. agent_step yes_env (AInitiate 1000 sample_record (replicate 16 0x11))
     (Some (sample_agent\<lparr>ag_challengeStore := []\<rparr>, l))
   = (Issued (sample_record\<lparr>c_state := OUTSTANDING\<rparr>), Some (sample_agent, l'))"
proof -
  let ?ag = "sample_agent\<lparr>ag_challengeStore := []\<rparr>"
  obtain rec l1 where g: "run_state (GenerateChallenge yes_env (ag_cryptoEngine sample_agent) 1000 sample_record
      (replicate 16 0x11) (ag_pcId sample_agent)) l = (rec, l1)" by fastforce
  have wf: "ChallengeRecord_wf sample_record"
    by (simp add: ChallengeRecord_wf_def sample_record_def size_defs)
  have pc: "ag_pcId sample_agent = replicate 16 0x99" by (simp add: sample_agent_def AgentService_init_def)
  have "rec = sample_record\<lparr>c_state := OUTSTANDING\<rparr>"
  proof -
    have "rec = fst (run_state (GenerateChallenge yes_env (ag_cryptoEngine sample_agent) 1000 sample_record
        (replicate 16 0x11) (ag_pcId sample_agent)) l)" by (simp only: g fst_conv)
    then show ?thesis
      unfolding GenerateChallenge_run [OF wf] pc
      by (simp add: yes_env_def overwrite_def DEFAULT_CHALLENGE_TTL_MS_def Let_def) (simp add: sample_record_def)
  qed
  moreover have "\<not> IsConnected (ag_transport ?ag)"
    by (simp add: IsConnected_def sample_agent_def AgentService_init_def SetListener_def TcpTransport_init_def)
  ultimately show ?thesis
    by (simp add: InitiateUnlockRequest_def g Let_def)
      (simp add: sample_agent_def AgentService_init_def)
qed

lemma frame_sample:
  "fst (agent_step yes_env (AFrame 2000 sample_record sample_response) (Some (sample_agent, l))) = Decided (Some SUCCESS)"
proof -
  obtain l' where "run_state (ProcessUnlockResponse yes_env 2000 sample_record sample_response sample_agent) l
      = (Some (SUCCESS, spend sample_response 2000 sample_agent), l')" using process_sample by blast
  moreover have "f_messageType sample_response = UNLOCK_RESP" by (simp add: sample_response_def)
  ultimately show ?thesis
    by (simp add: AgentService_OnFrameReceived_def split: prod.split)
qed

theorem unlock_authentic_witness:
  "\<exists>r. c_sessionId r = replicate 16 0xAA \<and> c_deviceId r = replicate 16 0x11 \<and> (2000 :: u64) \<le> c_creationTimestampMs r + 30000
     \<and> r \<in> set (agent_issued yes_env [AInitiate 1000 sample_record (replicate 16 0x11)]
         (Some (sample_agent\<lparr>ag_challengeStore := []\<rparr>, [])))"
proof -
  obtain l' where step: "agent_step yes_env (AInitiate 1000 sample_record (replicate 16 0x11))
     (Some (sample_agent\<lparr>ag_challengeStore := []\<rparr>, []))
   = (Issued (sample_record\<lparr>c_state := OUTSTANDING\<rparr>), Some (sample_agent, l'))" using initiate_sample by blast
  have "run_ops (agent_step yes_env) [AInitiate 1000 sample_record (replicate 16 0x11)]
      (Some (sample_agent\<lparr>ag_challengeStore := []\<rparr>, [])) = Some (sample_agent, l')"
    by (simp only: run_ops.simps step snd_conv)
  from unlock_authentic [OF _ this frame_sample] show ?thesis
    by (auto simp: ChallengeStore_init_def sample_response_fields sample_payload_def)
qed

section \<open>Serving a connection\<close>

text \<open>
  The agent as the listener of its transport. The state is the agent, the log and a flag that
  undefined behaviour has occurred; the clock is read once per frame.
\<close>

type_synonym served = "AgentService \<times> os_log \<times> bool"

definition agent_call :: "env \<Rightarrow> (os_log \<Rightarrow> u64) \<Rightarrow> ChallengeRecord \<Rightarrow> listener_event \<Rightarrow> served \<Rightarrow> served" where
  "agent_call w clock uninit ev s =
     (case s of (ag, l, undefd) \<Rightarrow>
        if undefd then s
        else (case ev of
                OnFrameReceived frame \<Rightarrow>
                  (case run_state (AgentService_OnFrameReceived w (clock l) uninit frame ag) l of
                     (None, l') \<Rightarrow> (ag, l', True)
                   | (Some (e, ag'), l') \<Rightarrow> (ag', l', False))
              | OnConnectionStateChanged isConnected peerAddress \<Rightarrow> s
              | OnError errorMessage \<Rightarrow> s))"

definition agent_running :: "served \<Rightarrow> bool" where
  "agent_running s \<longleftrightarrow> t_isRunning (ag_transport (fst s)) \<and> t_isConnected (ag_transport (fst s))"

definition agent_disconnect :: "served \<Rightarrow> served" where
  "agent_disconnect s = ((fst s)\<lparr>ag_transport := (ag_transport (fst s))\<lparr>t_isConnected := False\<rparr>\<rparr>, snd s)"

text \<open>The network keeps taking bytes.\<close>

definition sends_ok :: "env \<Rightarrow> bool" where
  "sends_ok w \<longleftrightarrow> (\<forall>l s bs. bs \<noteq> [] \<longrightarrow> 0 < a_num (w l (Sock (WinSend s bs))))"

lemma send_loop_ok: "sends_ok w \<Longrightarrow> 0 \<le> n \<Longrightarrow> fst (send_loop w s bs n l)"
proof (induction w s bs n l rule: send_loop.induct)
  case (1 w s bs n l)
  let ?c = "Sock (WinSend s (drop (nat n) bs))"
  show ?case
  proof (cases "n < int (length bs)")
    case True
    with "1.prems"(2) have "drop (nat n) bs \<noteq> []" by simp
    with "1.prems"(1) have "0 < a_num (w l ?c)" by (simp add: sends_ok_def)
    with True "1.IH" "1.prems" show ?thesis by (subst send_loop.simps) (simp add: Let_def)
  next
    case False
    then show ?thesis by (subst send_loop.simps) simp
  qed
qed

definition agent_steady :: "env \<Rightarrow> served \<Rightarrow> bool" where
  "agent_steady w s \<longleftrightarrow> sends_ok w \<and> agent_running s"

lemma SendFrame_keeps:
  "sends_ok w \<Longrightarrow> run_state (SendFrame w ty payload t) l = ((ok, t'), l') \<Longrightarrow>
     t_isRunning t' = t_isRunning t \<and> t_isConnected t' = t_isConnected t"
  by (auto simp: SendFrame_run Let_def send_loop_ok split: if_splits)

lemma ProcessUnlockResponse_transport:
  "run_state (ProcessUnlockResponse w now uninit frame ag) l = (Some (e, ag'), l') \<Longrightarrow> ag_transport ag' = ag_transport ag"
  by (erule ProcessUnlockResponse_cases) (auto simp: map_option_eq_Some spend_def Let_def split: if_splits)

lemma OnFrameReceived_unlock:
  assumes "run_state (AgentService_OnFrameReceived w now uninit frame ag) l = (Some (e, ag'), l')" "f_messageType frame = UNLOCK_RESP"
  obtains err ag1 l1 ok t where
    "run_state (ProcessUnlockResponse w now uninit frame ag) l = (Some (err, ag1), l1)" "e = Some err"
    "run_state (SendFrame w (if err = SUCCESS then UNLOCK_RESP else ERROR_MSG) (put_be16 (ErrorCode_value err))
       (ag_transport ag)) l1 = ((ok, t), l')"
    "ag' = ag1\<lparr>ag_transport := t\<rparr>"
proof -
  obtain r l1 where r: "run_state (ProcessUnlockResponse w now uninit frame ag) l = (r, l1)" by fastforce
  with assms obtain err ag1 where r1: "r = Some (err, ag1)"
    by (auto simp: AgentService_OnFrameReceived_def split: option.splits)
  obtain ok t l2 where s: "run_state (SendFrame w (if err = SUCCESS then UNLOCK_RESP else ERROR_MSG)
      (put_be16 (ErrorCode_value err)) (ag_transport ag1)) l1 = ((ok, t), l2)" by (metis surj_pair)
  from assms have "e = Some err" "ag' = ag1\<lparr>ag_transport := t\<rparr>" "l2 = l'"
    by (auto simp: AgentService_OnFrameReceived_def r r1 s)
  with that r r1 s ProcessUnlockResponse_transport [OF r [unfolded r1]] show thesis by simp
qed

lemma OnFrameReceived_keeps:
  assumes "sends_ok w" "run_state (AgentService_OnFrameReceived w now uninit frame ag) l = (Some (e, ag'), l')"
  shows "t_isRunning (ag_transport ag') = t_isRunning (ag_transport ag)
    \<and> t_isConnected (ag_transport ag') = t_isConnected (ag_transport ag)"
proof (cases "f_messageType frame = UNLOCK_RESP")
  case True
  from assms(2) True show ?thesis
    by (rule OnFrameReceived_unlock) (use SendFrame_keeps [OF assms(1)] in \<open>auto\<close>)
next
  case False
  with assms(2) show ?thesis by (auto simp: AgentService_OnFrameReceived_def)
qed

interpretation agent_conn: listener "agent_call w clock uninit" "agent_steady w" agent_running agent_disconnect
proof
  fix ev s
  show "agent_steady w (agent_call w clock uninit ev s)" if "agent_steady w s"
    using that OnFrameReceived_keeps
    by (fastforce simp: agent_call_def agent_steady_def agent_running_def split: prod.splits listener_event.splits option.splits)
qed (simp_all add: agent_steady_def agent_running_def agent_disconnect_def)

text \<open>
  C26. The agent serves its connection frame by frame: as long as the network takes its answers,
  the frames a peer sends are each decided once, in order, with the state the previous ones left,
  however the stream is cut into \<open>recv\<close> results.
\<close>

theorem agent_serves_stream:
  assumes "sends_ok w" "t_isRunning (ag_transport ag)" "t_isConnected (ag_transport ag)"
    and "\<forall>(n, buf) \<in> set recvs. 0 < n"
    and "\<forall>f \<in> set fs. length (f_payload f) \<le> MAX_PAYLOAD_SIZE"
    and "received recvs = concat (map SerializeFrame fs)"
  shows "ReceiverWorker (agent_call w clock uninit) agent_running agent_disconnect recvs [] (ag, l, False)
    = Some (fold (\<lambda>f. agent_call w clock uninit (OnFrameReceived (frame_norm f))) fs (ag, l, False))"
proof -
  have "agent_steady w (ag, l, False)" using assms(1-3) by (simp add: agent_steady_def agent_running_def)
  from agent_conn.worker_frames [OF assms(4) this] drain_frames [OF assms(5)] assms(6) show ?thesis
    by (simp add: fold_map comp_def)
qed

theorem agent_serves_stream_witness:
  "ReceiverWorker (agent_call slow_env (\<lambda>_. 0) sample_record) agent_running agent_disconnect
      [(1, SerializeFrame sample_frame), (19, drop 1 (SerializeFrame sample_frame))] []
      (sample_agent\<lparr>ag_transport := connected_transport\<rparr>, [], False)
   = Some (fold (\<lambda>f. agent_call slow_env (\<lambda>_. 0) sample_record (OnFrameReceived (frame_norm f))) [sample_frame]
      (sample_agent\<lparr>ag_transport := connected_transport\<rparr>, [], False))"
proof (rule agent_serves_stream)
  have "length (SerializeFrame sample_frame) = 20"
    by (simp add: length_SerializeFrame sample_frame_def MAX_PAYLOAD_SIZE_def)
  then show "received [(1, SerializeFrame sample_frame), (19, drop 1 (SerializeFrame sample_frame))]
    = concat (map SerializeFrame [sample_frame])"
    by (simp add: append_take_drop_id [of 1, symmetric])
qed (simp_all add: sends_ok_def slow_env_def sample_frame_def MAX_PAYLOAD_SIZE_def)

section \<open>Every resource is given back\<close>

definition open_alg :: "handle \<Rightarrow> resource multiset" where
  "open_alg h = (if h = NULL then {#} else {#RAlg h#})"

definition algs :: "CryptoEngine \<Rightarrow> resource multiset" where
  "algs e = open_alg (m_hEcdsaAlg e) + open_alg (m_hRngAlg e) + open_alg (m_hSha256Alg e)"

text \<open>Documented behaviour of CNG: a provider that was opened has a handle, not null.\<close>

definition open_nonnull :: "env \<Rightarrow> bool" where
  "open_nonnull w \<longleftrightarrow> (\<forall>l a b. a_ok (w l (Cng (BCryptOpenAlgorithmProvider a b)))
     \<longrightarrow> a_handle (w l (Cng (BCryptOpenAlgorithmProvider a b))) \<noteq> NULL)"

definition open_call :: "string \<Rightarrow> os_call" where
  "open_call a = Cng (BCryptOpenAlgorithmProvider a [])"

lemma open_call_effect [simp]:
  "acquires (open_call a, r) = (if a_ok r then {#RAlg (a_handle r)#} else {#})" "releases (open_call a, r) = {#}"
  by (simp_all add: open_call_def)

lemma Initialize_run:
  assumes "open_nonnull w" "run_state (Initialize w e) l = r"
  obtains a1 a2 a3 where
    "r = (if \<not> a_ok a1 then ((False, e), l @ [(open_call ''BCRYPT_ECDSA_P256_ALGORITHM'', a1)])
     else if \<not> a_ok a2 then ((False, e\<lparr>m_hEcdsaAlg := a_handle a1\<rparr>),
       l @ [(open_call ''BCRYPT_ECDSA_P256_ALGORITHM'', a1), (open_call ''BCRYPT_RNG_ALGORITHM'', a2)])
     else ((a_ok a3, if a_ok a3 then \<lparr>m_hEcdsaAlg = a_handle a1, m_hRngAlg = a_handle a2, m_hSha256Alg = a_handle a3\<rparr>
         else e\<lparr>m_hEcdsaAlg := a_handle a1, m_hRngAlg := a_handle a2\<rparr>),
       l @ [(open_call ''BCRYPT_ECDSA_P256_ALGORITHM'', a1), (open_call ''BCRYPT_RNG_ALGORITHM'', a2),
            (open_call ''BCRYPT_SHA256_ALGORITHM'', a3)]))"
    "a_ok a1 \<longrightarrow> a_handle a1 \<noteq> NULL" "a_ok a2 \<longrightarrow> a_handle a2 \<noteq> NULL" "a_ok a3 \<longrightarrow> a_handle a3 \<noteq> NULL"
proof -
  let ?c1 = "open_call ''BCRYPT_ECDSA_P256_ALGORITHM''" and ?c2 = "open_call ''BCRYPT_RNG_ALGORITHM''"
    and ?c3 = "open_call ''BCRYPT_SHA256_ALGORITHM''"
  obtain a1 a2 a3 where a: "a1 = w l ?c1" "a2 = w (l @ [(?c1, a1)]) ?c2" "a3 = w (l @ [(?c1, a1), (?c2, a2)]) ?c3"
    by blast
  have "a_ok a1 \<longrightarrow> a_handle a1 \<noteq> NULL" "a_ok a2 \<longrightarrow> a_handle a2 \<noteq> NULL" "a_ok a3 \<longrightarrow> a_handle a3 \<noteq> NULL"
    using assms(1) unfolding open_nonnull_def a open_call_def by blast+
  then show thesis
    by (intro that [of a1 a2 a3], cases e)
      (simp_all add: assms(2) [symmetric] Initialize_def run_if Let_def flip: open_call_def a)
qed

lemma Initialize_held:
  assumes "open_nonnull w" "run_state (Initialize w CryptoEngine_init) l = ((ok, e), l')"
  shows "held l' = algs e + held l \<and> (releases_ok l \<longrightarrow> releases_ok l')"
proof -
  obtain a1 a2 a3 where "((ok, e), l') = (if \<not> a_ok a1 then ((False, CryptoEngine_init), l @ [(open_call ''BCRYPT_ECDSA_P256_ALGORITHM'', a1)])
     else if \<not> a_ok a2 then ((False, CryptoEngine_init\<lparr>m_hEcdsaAlg := a_handle a1\<rparr>),
       l @ [(open_call ''BCRYPT_ECDSA_P256_ALGORITHM'', a1), (open_call ''BCRYPT_RNG_ALGORITHM'', a2)])
     else ((a_ok a3, if a_ok a3 then \<lparr>m_hEcdsaAlg = a_handle a1, m_hRngAlg = a_handle a2, m_hSha256Alg = a_handle a3\<rparr>
         else CryptoEngine_init\<lparr>m_hEcdsaAlg := a_handle a1, m_hRngAlg := a_handle a2\<rparr>),
       l @ [(open_call ''BCRYPT_ECDSA_P256_ALGORITHM'', a1), (open_call ''BCRYPT_RNG_ALGORITHM'', a2),
            (open_call ''BCRYPT_SHA256_ALGORITHM'', a3)]))"
    "a_ok a1 \<longrightarrow> a_handle a1 \<noteq> NULL" "a_ok a2 \<longrightarrow> a_handle a2 \<noteq> NULL" "a_ok a3 \<longrightarrow> a_handle a3 \<noteq> NULL"
    using assms by (rule Initialize_run)
  then show ?thesis
    by (cases "a_ok a1"; cases "a_ok a2"; cases "a_ok a3") (auto simp: CryptoEngine_init_def algs_def open_alg_def)
qed

lemma close_if_open_held:
  assumes "open_alg h \<subseteq># held l" "releases_ok l" "l' = snd (run_state (close_if_open w h) l)"
  shows "held l' = held l - open_alg h \<and> releases_ok l'"
  using assms by (auto simp: close_if_open_def open_alg_def)

lemma CryptoEngine_destroy_held:
  assumes "held l = algs e + rest" "releases_ok l" "l' = snd (run_state (CryptoEngine_destroy w e) l)"
  shows "held l' = rest \<and> releases_ok l'"
proof -
  let ?l1 = "snd (run_state (close_if_open w (m_hEcdsaAlg e)) l)"
  let ?l2 = "snd (run_state (close_if_open w (m_hRngAlg e)) ?l1)"
  have "l' = snd (run_state (close_if_open w (m_hSha256Alg e)) ?l2)"
    by (simp add: assms(3) CryptoEngine_destroy_def split: prod.split)
  with assms(1,2) close_if_open_held [of "m_hEcdsaAlg e" l ?l1 w] close_if_open_held [of "m_hRngAlg e" ?l1 ?l2 w]
    close_if_open_held [of "m_hSha256Alg e" ?l2 l' w]
  show ?thesis by (simp add: algs_def)
qed

text \<open>
  \<open>Initialize\<close> on an engine that is initialised already (a second \<open>Start\<close> of the agent) opens three
  providers over the old handles: the first three stay open after the destructor.
\<close>

lemma Initialize_opens:
  assumes "open_nonnull w" "run_state (Initialize w e) l = ((True, e'), l')"
  shows "held l' = algs e' + held l" "releases_ok l \<longrightarrow> releases_ok l'" "size (algs e') = 3"
  by (rule Initialize_run [OF assms]; auto simp: algs_def open_alg_def split: if_splits)+

theorem reinitialize_leaks:
  assumes "open_nonnull w" "releases_ok l" "run_state (Initialize w CryptoEngine_init) l = ((True, e1), l1)"
    and "run_state (Initialize w e1) l1 = ((True, e2), l2)" "run_state (CryptoEngine_destroy w e2) l2 = ((), l3)"
  shows "held l3 = algs e1 + held l \<and> size (algs e1) = 3"
proof -
  note h1 = Initialize_opens [OF assms(1,3)] and h2 = Initialize_opens [OF assms(1,4)]
  have "held l2 = algs e2 + (algs e1 + held l)" "releases_ok l2" using h1 h2 assms(2) by simp_all
  from CryptoEngine_destroy_held [OF this, of l3 w] h1(3) assms(5) show ?thesis by simp
qed

text \<open>The sockets of the transport, the keys of the registry, the providers of the engine, and \<open>rest\<close>.\<close>

definition agent_owns :: "AgentService \<Rightarrow> os_log \<Rightarrow> resource multiset \<Rightarrow> bool" where
  "agent_owns ag l rest \<longleftrightarrow>
     tcp_owns (ag_transport ag) l (reg_keys (ag_deviceRegistry ag) + (algs (ag_cryptoEngine ag) + rest))
     \<and> owns (ag_deviceRegistry ag) l (socks (ag_transport ag) + (algs (ag_cryptoEngine ag) + rest))"

lemma agent_owns_neutral:
  assumes "agent_owns ag l rest" "held l' = held l" "releases_ok l \<longrightarrow> releases_ok l'"
    "ag_transport ag' = ag_transport ag" "ag_deviceRegistry ag' = ag_deviceRegistry ag"
    "ag_cryptoEngine ag' = ag_cryptoEngine ag"
  shows "agent_owns ag' l' rest"
  using assms by (simp add: agent_owns_def tcp_owns_def owns_def)

lemma agent_owns_transport:
  assumes "agent_owns ag l rest"
    and "tcp_owns t l' (reg_keys (ag_deviceRegistry ag) + (algs (ag_cryptoEngine ag) + rest))"
  shows "agent_owns (ag\<lparr>ag_transport := t\<rparr>) l' rest"
  using assms by (simp add: agent_owns_def tcp_owns_def owns_def ac_simps)

lemma agent_owns_registry:
  assumes "agent_owns ag l rest"
    and "owns reg l' (socks (ag_transport ag) + (algs (ag_cryptoEngine ag) + rest))"
  shows "agent_owns (ag\<lparr>ag_deviceRegistry := reg\<rparr>) l' rest"
  using assms by (simp add: agent_owns_def tcp_owns_def owns_def ac_simps)

lemma agent_owns_send:
  assumes "agent_owns ag l rest" "run_state (SendFrame w ty payload (ag_transport ag)) l = ((ok, t), l')"
  shows "agent_owns (ag\<lparr>ag_transport := t\<rparr>) l' rest"
proof (rule agent_owns_transport [OF assms(1)], rule SendFrame_owns [OF _ assms(2)])
  show "tcp_owns (ag_transport ag) l (reg_keys (ag_deviceRegistry ag) + (algs (ag_cryptoEngine ag) + rest))"
    using assms(1) by (simp add: agent_owns_def)
qed

lemma GenerateChallenge_neutral: "resource_neutral (GenerateChallenge w e now uninit deviceId pcId)"
  by (auto simp: resource_neutral_def GenerateChallenge_def GenerateRandomBytes_def Let_def
      split: if_splits option.splits prod.splits)

lemma agent_owns_initiate:
  assumes "agent_owns ag l rest" "run_state (InitiateUnlockRequest w now uninit deviceId ag) l = ((rec, ag'), l')"
  shows "agent_owns ag' l' rest"
proof -
  obtain rec1 l1 where g: "run_state (GenerateChallenge w (ag_cryptoEngine ag) now uninit deviceId (ag_pcId ag)) l
      = (rec1, l1)" by fastforce
  let ?ag1 = "ag\<lparr>ag_challengeStore := AddChallenge rec1 (ag_challengeStore ag)\<rparr>"
  have o1: "agent_owns ?ag1 l1 rest"
    using neutral_run [OF GenerateChallenge_neutral g] by (intro agent_owns_neutral [OF assms(1)]) simp_all
  obtain ok t l2 where s: "run_state (SendFrame w UNLOCK_REQ (unlock_request_payload rec1) (ag_transport ag)) l1
      = ((ok, t), l2)" by (metis surj_pair)
  with agent_owns_send [OF o1, of w UNLOCK_REQ "unlock_request_payload rec1" ok t l2] o1 assms(2) show ?thesis
    by (auto simp: InitiateUnlockRequest_def g Let_def split: if_splits)
qed

lemma agent_owns_frame:
  assumes "agent_owns ag l rest" "run_state (AgentService_OnFrameReceived w now uninit frame ag) l = (Some (e, ag'), l')"
  shows "agent_owns ag' l' rest"
proof (cases "f_messageType frame = UNLOCK_RESP")
  case True
  from assms(2) True obtain err ag1 l1 ok t where
    p: "run_state (ProcessUnlockResponse w now uninit frame ag) l = (Some (err, ag1), l1)" and
    s: "run_state (SendFrame w (if err = SUCCESS then UNLOCK_RESP else ERROR_MSG) (put_be16 (ErrorCode_value err))
       (ag_transport ag)) l1 = ((ok, t), l')" and ag': "ag' = ag1\<lparr>ag_transport := t\<rparr>"
    by (rule OnFrameReceived_unlock)
  have "agent_owns ag1 l1 rest"
    using p
  proof (cases rule: ProcessUnlockResponse_cases)
    case (1 e)
    with assms(1) show ?thesis by simp
  next
    case (2 v)
    note neutral_run [OF VerifySignature_frees 2(2)]
    with 2(3) show ?thesis
      by (intro agent_owns_neutral [OF assms(1)]) (auto simp: map_option_eq_Some spend_def Let_def split: if_splits)
  qed
  with s ProcessUnlockResponse_transport [OF p] show ?thesis unfolding ag' by (intro agent_owns_send) simp_all
next
  case False
  with assms show ?thesis by (simp add: AgentService_OnFrameReceived_def)
qed

lemma agent_owns_registry_step:
  assumes "import_nonnull w" "agent_owns ag l rest"
    and "run_state (registry_step w op (ag_deviceRegistry ag)) l = ((ok, reg), l')"
  shows "agent_owns (ag\<lparr>ag_deviceRegistry := reg\<rparr>) l' rest"
proof (rule agent_owns_registry [OF assms(2)], rule owns_step [OF assms(1) _ assms(3)])
  show "owns (ag_deviceRegistry ag) l (socks (ag_transport ag) + (algs (ag_cryptoEngine ag) + rest))"
    using assms(2) by (simp add: agent_owns_def)
qed

lemma agent_owns_tcp_step:
  assumes "agent_owns ag l rest" "run_state (tcp_step w op (ag_transport ag)) l = (t, l')"
  shows "agent_owns (ag\<lparr>ag_transport := t\<rparr>) l' rest"
proof (rule agent_owns_transport [OF assms(1)], rule tcp_step_owns [OF _ assms(2)])
  show "tcp_owns (ag_transport ag) l (reg_keys (ag_deviceRegistry ag) + (algs (ag_cryptoEngine ag) + rest))"
    using assms(1) by (simp add: agent_owns_def)
qed

lemma agent_step_owns:
  assumes "import_nonnull w" "agent_owns ag l rest" "agent_step w op (Some (ag, l)) = (res, Some (ag', l'))"
  shows "agent_owns ag' l' rest"
proof (cases op)
  case (AInitiate now uninit deviceId)
  obtain rec ag1 l1 where r: "run_state (InitiateUnlockRequest w now uninit deviceId ag) l = ((rec, ag1), l1)"
    by (metis surj_pair)
  have "ag' = ag1" "l' = l1" using assms(3) by (simp_all add: AInitiate r)
  with agent_owns_initiate [OF assms(2) r] show ?thesis by simp
next
  case (AFrame now uninit frame)
  obtain r l1 where r: "run_state (AgentService_OnFrameReceived w now uninit frame ag) l = (r, l1)" by fastforce
  obtain e where "r = Some (e, ag')" "l1 = l'"
    using assms(3) by (cases r) (auto simp: AFrame r)
  with agent_owns_frame [OF assms(2)] r show ?thesis by simp
next
  case (ARegister deviceId name key)
  obtain ok reg l1 where r: "run_state (RegisterDevice w (ag_cryptoEngine ag) deviceId name key (ag_deviceRegistry ag)) l
      = ((ok, reg), l1)" by (metis surj_pair)
  have "ag' = ag\<lparr>ag_deviceRegistry := reg\<rparr>" "l' = l1"
    using assms(3) by (simp_all add: ARegister AgentService_RegisterDevice_def r)
  with agent_owns_registry_step [OF assms(1,2), of "OpRegister (ag_cryptoEngine ag) deviceId name key"] r
  show ?thesis by simp
next
  case (AUnregister deviceId)
  obtain ok reg l1 where r: "run_state (UnregisterDevice w deviceId (ag_deviceRegistry ag)) l = ((ok, reg), l1)"
    by (metis surj_pair)
  have "ag' = ag\<lparr>ag_deviceRegistry := reg\<rparr>" "l' = l1" using assms(3) by (simp_all add: AUnregister r)
  with agent_owns_registry_step [OF assms(1,2), of "OpUnregister deviceId"] r show ?thesis by simp
next
  case (AExpire now)
  have "ag' = ag\<lparr>ag_challengeStore := snd (ExpireChallenges now (ag_challengeStore ag))\<rparr>" "l' = l"
    using assms(3) by (simp_all add: AExpire)
  with agent_owns_neutral [OF assms(2)] show ?thesis by simp
next
  case AAccept
  obtain t l1 where r: "run_state (tcp_step w OpAccepted (ag_transport ag)) l = (t, l1)" by fastforce
  have "ag' = ag\<lparr>ag_transport := t\<rparr>" "l' = l1" using assms(3) by (simp_all add: AAccept r del: tcp_step.simps)
  with agent_owns_tcp_step [OF assms(2) r] show ?thesis by simp
next
  case AStop
  obtain t l1 where r: "run_state (Close w (ag_transport ag)) l = (t, l1)" by fastforce
  have "ag' = ag\<lparr>ag_transport := t\<rparr>" "l' = l1" using assms(3) by (simp_all add: AStop AgentService_Stop_def r)
  with agent_owns_tcp_step [OF assms(2), of w OpClose] r show ?thesis by simp
qed

lemma agent_run_owns:
  assumes "import_nonnull w" "agent_owns ag l rest" "run_ops (agent_step w) ops (Some (ag, l)) = Some (ag', l')"
  shows "agent_owns ag' l' rest"
  using assms(2,3)
proof (induction ops arbitrary: ag l)
  case Nil
  then show ?case by simp
next
  case (Cons op ops)
  have None_run: "run_ops (agent_step w) ops None = None" for ops by (induction ops) auto
  obtain res s1 where step: "agent_step w op (Some (ag, l)) = (res, s1)" by fastforce
  with Cons.prems(2) obtain ag1 l1 where s1: "s1 = Some (ag1, l1)" by (cases s1) (auto simp: None_run)
  from agent_step_owns [OF assms(1) Cons.prems(1) step [unfolded s1]] Cons.IH Cons.prems(2) show ?case
    by (simp add: step s1)
qed

lemma agent_owns_start:
  assumes "open_nonnull w" "releases_ok l"
    and "run_state (AgentService_Start w (AgentService_init port pc)) l = ((ok, ag, evs), l')"
  shows "agent_owns ag l' (held l)"
proof -
  obtain ok1 e l1 where i: "run_state (Initialize w CryptoEngine_init) l = ((ok1, e), l1)" by (metis surj_pair)
  note h = Initialize_held [OF assms(1) i]
  let ?ag1 = "(AgentService_init port pc)\<lparr>ag_cryptoEngine := e\<rparr>"
  have o1: "agent_owns ?ag1 l1 (held l)"
    using h assms(2) by (simp add: agent_owns_def tcp_owns_def owns_def AgentService_init_def SetListener_def
        TcpTransport_init_def DeviceRegistry_init_def socks_def)
  have e0: "ag_cryptoEngine (AgentService_init port pc) = CryptoEngine_init" by (simp add: AgentService_init_def)
  show ?thesis
  proof (cases ok1)
    case False
    with assms(3) o1 show ?thesis by (auto simp: AgentService_Start_def e0 i)
  next
    case True
    obtain ok2 t evs2 l2 where s: "run_state (StartListener w (ag_port ?ag1) (ag_transport ?ag1)) l1 = ((ok2, t, evs2), l2)"
      by (metis surj_pair)
    have "tcp_owns t l2 (reg_keys (ag_deviceRegistry ?ag1) + (algs (ag_cryptoEngine ?ag1) + held l))"
      using o1 by (intro StartListener_owns [OF _ s]) (simp add: agent_owns_def)
    from agent_owns_transport [OF o1 this] True assms(3) s show ?thesis
      by (auto simp: AgentService_Start_def e0 i)
  qed
qed

text \<open>Documented behaviour of Winsock, which the constructor of the transport relies on: the startup succeeds.\<close>

definition winsock_starts :: "env \<Rightarrow> bool" where
  "winsock_starts w \<longleftrightarrow> (\<forall>l. a_ok (w l (Sock WSAStartup)))"

lemma AgentService_new_run:
  assumes "winsock_starts w" "run_state (AgentService_new w port pc) l = (ag, l')"
  shows "ag = AgentService_init port pc" "held l' = add_mset RWinsock (held l)" "releases_ok l \<longrightarrow> releases_ok l'"
  using assms by (auto simp: AgentService_new_def TcpTransport_new_def winsock_starts_def AgentService_init_def)

lemma agent_destroy_owns:
  assumes "agent_owns ag l (add_mset RWinsock rest)" "run_state (AgentService_destroy w ag) l = ((), l')"
  shows "held l' = rest \<and> releases_ok l'"
proof -
  let ?t = "closed_state (ag_transport ag)"
  obtain la where a: "run_state (Close w (ag_transport ag)) l = (?t, la)" by (simp add: Close_run)
  have ta: "held la = reg_keys (ag_deviceRegistry ag) + (algs (ag_cryptoEngine ag) + add_mset RWinsock rest)" "releases_ok la"
    using Close_owns [OF _ a, of "reg_keys (ag_deviceRegistry ag) + (algs (ag_cryptoEngine ag) + add_mset RWinsock rest)"]
      assms(1) by (auto simp: agent_owns_def)
  obtain lb where b: "run_state (TcpTransport_destroy w ?t) la = ((), lb)"
    and tb: "held lb = reg_keys (ag_deviceRegistry ag) + (algs (ag_cryptoEngine ag) + rest)" "releases_ok lb"
    using ta by (auto simp: TcpTransport_destroy_def Close_run close_call_def)
  obtain reg lc where c: "run_state (DeviceRegistry_destroy w (ag_deviceRegistry ag)) lb = (reg, lc)" by fastforce
  have "owns (ag_deviceRegistry ag) lb (algs (ag_cryptoEngine ag) + rest)"
    using assms(1) tb by (simp add: agent_owns_def owns_def)
  from owns_destroy [OF this c] have tc: "held lc = algs (ag_cryptoEngine ag) + rest" "releases_ok lc" by auto
  have "l' = snd (run_state (CryptoEngine_destroy w (ag_cryptoEngine ag)) lc)"
    using assms(2) by (simp add: AgentService_destroy_def AgentService_Stop_def a b c split: prod.splits)
  with CryptoEngine_destroy_held [OF tc] show ?thesis by blast
qed

lemma agent_owns_life:
  assumes "import_nonnull w" "open_nonnull w" "winsock_starts w" "releases_ok l"
    and "run_state (AgentService_new w port pc) l = (ag0, l0)"
    and "run_state (AgentService_Start w ag0) l0 = ((ok, ag, evs), l1)"
    and "run_ops (agent_step w) ops (Some (ag, l1)) = Some (ag2, l2)"
  shows "agent_owns ag2 l2 (add_mset RWinsock (held l))"
proof -
  note new = AgentService_new_run [OF assms(3,5)]
  from new(3) assms(4) have "releases_ok l0" by simp
  from agent_run_owns [OF assms(1) agent_owns_start [OF assms(2) this assms(6) [unfolded new(1)]] assms(7)]
  show ?thesis unfolding new(2) .
qed

text \<open>
  The life of an agent leaks nothing: after the constructor, \<open>Start\<close> (successful or not), any run, and
  the destructor, the process holds exactly what it held before: no socket, key or algorithm
  provider is left open, Winsock is released as often as it was started, and none was released twice.
  An \<open>accept\<close> that races with \<open>Close\<close> is not among the operations here (\<open>Agent_Main\<close>, \<open>Tcp_Shutdown\<close>).
\<close>

theorem agent_no_leak:
  assumes "import_nonnull w" "open_nonnull w" "winsock_starts w" "releases_ok l"
    and "run_state (AgentService_new w port pc) l = (ag0, l0)"
    and "run_state (AgentService_Start w ag0) l0 = ((ok, ag, evs), l1)"
    and "run_ops (agent_step w) ops (Some (ag, l1)) = Some (ag2, l2)"
    and "run_state (AgentService_destroy w ag2) l2 = ((), l3)"
  shows "held l3 = held l \<and> releases_ok l3"
  using agent_destroy_owns [OF agent_owns_life [OF assms(1-7)] assms(8)] .

lemma slow_env_documented: "import_nonnull slow_env" "open_nonnull slow_env" "winsock_starts slow_env"
  by (simp_all add: import_nonnull_def open_nonnull_def winsock_starts_def slow_env_def)

theorem agent_no_leak_witness:
  "\<exists>ag0 l0 ag evs l1 ag2 l2 l3.
     run_state (AgentService_new slow_env 8443 (replicate 16 0x99)) [] = (ag0, l0)
     \<and> run_state (AgentService_Start slow_env ag0) l0 = ((True, ag, evs), l1)
     \<and> run_ops (agent_step slow_env) [ARegister [1] ''phone'' (Some (replicate 64 5)), AAccept] (Some (ag, l1)) = Some (ag2, l2)
     \<and> run_state (AgentService_destroy slow_env ag2) l2 = ((), l3) \<and> held l3 = {#} \<and> releases_ok l3"
proof -
  obtain ag0 l0 where new: "run_state (AgentService_new slow_env 8443 (replicate 16 0x99)) [] = (ag0, l0)" by fastforce
  let ?start = "run_state (AgentService_Start slow_env ag0) l0"
  have "INVALID_SOCKET \<noteq> 7" by (simp add: INVALID_SOCKET_def SIZE_MAX_def)
  then have "fst (fst ?start)"
    by (simp add: AgentService_Start_def Initialize_def StartListener_def Close_run slow_env_def Let_def)
  then obtain ag evs l1 where start: "?start = ((True, ag, evs), l1)" by (metis (full_types) prod.collapse)
  obtain ag2 l2 where run: "run_ops (agent_step slow_env) [ARegister [1] ''phone'' (Some (replicate 64 5)), AAccept]
      (Some (ag, l1)) = Some (ag2, l2)" by (simp add: Let_def)
  obtain l3 where "run_state (AgentService_destroy slow_env ag2) l2 = ((), l3)" by (metis old.unit.exhaust surj_pair)
  with agent_no_leak [OF slow_env_documented _ new start run] new start run show ?thesis by (auto simp del: held_append)
qed

end
