(* ===== verification/Agent_Races.thy ===== *)
theory Agent_Races
  imports Agent_Runs
begin

text \<open>
  Concurrent unlock responses. \<open>AgentService::ProcessUnlockResponse\<close> (\<open>windows/agent/AgentService.cpp\<close>)
  takes the lock of the challenge store twice and that of the device registry once, and verifies the
  signature with no lock held. Here any number of threads are each somewhere between these steps;
  the steps interleave in every order, with each other and with every other operation of the agent
  (requests, registrations, removals, expiry sweeps). The sequential theorems of \<open>Agent_Service\<close> and
  \<open>Agent_Runs\<close> are about the runs in which a response is decided in one go; this theory shows
  what is left of them in all runs.
\<close>

section \<open>The steps of a response\<close>

text \<open>Where a thread is; \<open>Verifying\<close> holds the key handle it fetched.\<close>

datatype response_pc =
    Idle
  | Fetching u64 TransportFrame
  | Verifying u64 TransportFrame handle
  | Consuming u64 TransportFrame handle
  | Finished ErrorCode

datatype race_op =
    RArrive nat u64 ChallengeRecord TransportFrame
  | RFetch nat
  | RVerify nat
  | RConsume nat
  | RAgent agent_op

datatype race_result = RAnswered ErrorCode TransportFrame handle | RAgentResult agent_result | RMoved

type_synonym race_state = "((nat \<Rightarrow> response_pc) \<times> AgentService \<times> os_log) option"

text \<open>Size, format and \<open>ValidateChallenge\<close>, up to the first lock release.\<close>

definition arrive :: "u64 \<Rightarrow> ChallengeRecord \<Rightarrow> TransportFrame \<Rightarrow> AgentService \<Rightarrow> response_pc option" where
  "arrive nowMs uninit frame ag =
     (if length (f_payload frame) < 108 + 8 then Some (Finished INVALID_REQUEST)
      else
        (case Deserialize (Some (take 108 (f_payload frame))) AuthPayload_init of
           None \<Rightarrow> None
         | Some (ok, payloadP, parseErr) \<Rightarrow>
             if \<not> ok then Some (Finished parseErr)
             else
               let (valErr, rec) = ValidateChallenge (p_sessionId payloadP) (p_deviceId payloadP) (ag_pcId ag)
                     (p_challenge payloadP) nowMs uninit (ag_challengeStore ag)
               in Some (if valErr \<noteq> SUCCESS then Finished valErr else Fetching nowMs frame)))"

text \<open>\<open>GetDevicePublicKey\<close>, under the registry's lock.\<close>

definition fetch :: "u64 \<Rightarrow> TransportFrame \<Rightarrow> AgentService \<Rightarrow> response_pc" where
  "fetch nowMs frame ag =
     (let hPubKey = GetDevicePublicKey (p_deviceId (response_payload frame)) (ag_deviceRegistry ag)
      in if hPubKey = NULL then Finished UNKNOWN_DEVICE else Verifying nowMs frame hPubKey)"

text \<open>\<open>VerifySignature\<close>, with the handle fetched before; \<open>None\<close> is its read outside the buffer.\<close>

definition verify :: "env \<Rightarrow> u64 \<Rightarrow> TransportFrame \<Rightarrow> handle \<Rightarrow> AgentService \<Rightarrow> (os_log, response_pc option) state" where
  "verify w nowMs frame hPubKey ag = do {
     sigValid \<leftarrow> VerifySignature w (ag_cryptoEngine ag) hPubKey
       (Some (take 108 (f_payload frame))) (Some (drop 108 (f_payload frame)));
     State_Monad.return (map_option (\<lambda>ok. if ok then Consuming nowMs frame hPubKey else Finished INVALID_SIGNATURE) sigValid)
   }"

text \<open>\<open>ValidateAndConsumeChallenge\<close>, under the store's lock.\<close>

definition consume :: "u64 \<Rightarrow> TransportFrame \<Rightarrow> AgentService \<Rightarrow> ErrorCode \<times> AgentService" where
  "consume nowMs frame ag =
     (let p = response_payload frame;
          (consumeErr, m) = ValidateAndConsumeChallenge (p_sessionId p) (p_deviceId p) (ag_pcId ag) (p_challenge p) nowMs
            (ag_challengeStore ag)
      in (consumeErr, ag\<lparr>ag_challengeStore := m\<rparr>))"

text \<open>One step of one thread. A thread that is not at the step stays where it is.\<close>

fun race_step :: "env \<Rightarrow> race_op \<Rightarrow> race_state \<Rightarrow> race_result \<times> race_state" where
  "race_step w op None = (RMoved, None)"
| "race_step w (RArrive t now uninit frame) (Some (pcs, ag, l)) =
     (case pcs t of
        Idle \<Rightarrow> (RMoved, map_option (\<lambda>pc. (pcs(t := pc), ag, l)) (arrive now uninit frame ag))
      | _ \<Rightarrow> (RMoved, Some (pcs, ag, l)))"
| "race_step w (RFetch t) (Some (pcs, ag, l)) =
     (case pcs t of
        Fetching now frame \<Rightarrow> (RMoved, Some (pcs(t := fetch now frame ag), ag, l))
      | _ \<Rightarrow> (RMoved, Some (pcs, ag, l)))"
| "race_step w (RVerify t) (Some (pcs, ag, l)) =
     (case pcs t of
        Verifying now frame h \<Rightarrow>
          (case run_state (verify w now frame h ag) l of
             (None, l') \<Rightarrow> (RMoved, None)
           | (Some pc, l') \<Rightarrow> (RMoved, Some (pcs(t := pc), ag, l')))
      | _ \<Rightarrow> (RMoved, Some (pcs, ag, l)))"
| "race_step w (RConsume t) (Some (pcs, ag, l)) =
     (case pcs t of
        Consuming now frame h \<Rightarrow>
          (let (e, ag') = consume now frame ag
           in (RAnswered e frame h, Some (pcs(t := Finished e), ag', l)))
      | _ \<Rightarrow> (RMoved, Some (pcs, ag, l)))"
| "race_step w (RAgent op) (Some (pcs, ag, l)) =
     (let (res, s) = agent_step w op (Some (ag, l))
      in (RAgentResult res, map_option (\<lambda>(ag', l'). (pcs, ag', l')) s))"

definition race_live :: "race_state \<Rightarrow> byte list \<Rightarrow> bool" where
  "race_live s sid \<longleftrightarrow> (case s of None \<Rightarrow> False | Some (pcs, ag, l) \<Rightarrow> outstanding (ag_challengeStore ag) sid)"

definition race_issues :: "race_op \<Rightarrow> race_result \<Rightarrow> byte list \<Rightarrow> bool" where
  "race_issues op res sid \<longleftrightarrow> (\<exists>a r. op = RAgent a \<and> res = RAgentResult r \<and> issues_session a r sid)"

text \<open>A thread's response unlocked the PC, or a response that was decided in one go did.\<close>

definition race_unlocks :: "race_op \<Rightarrow> race_result \<Rightarrow> byte list \<Rightarrow> bool" where
  "race_unlocks op res sid \<longleftrightarrow>
     (\<exists>t frame h. op = RConsume t \<and> res = RAnswered SUCCESS frame h \<and> p_sessionId (response_payload frame) = sid)
     \<or> (\<exists>a r. op = RAgent a \<and> res = RAgentResult r \<and> unlocks a r sid)"

section \<open>At most one unlock, in every interleaving\<close>

lemma consume_record:
  assumes "consume now frame ag = (e, ag')"
  shows "outstanding (ag_challengeStore ag') sid \<Longrightarrow> outstanding (ag_challengeStore ag) sid"
    and "e = SUCCESS \<Longrightarrow> p_sessionId (response_payload frame) = sid
      \<Longrightarrow> outstanding (ag_challengeStore ag) sid \<and> \<not> outstanding (ag_challengeStore ag') sid"
proof -
  let ?p = "response_payload frame" and ?m = "ag_challengeStore ag"
  let ?op = "OpValidateAndConsume (p_sessionId ?p) (p_deviceId ?p) (ag_pcId ag) (p_challenge ?p) now"
  have step: "snd (store_step ?op ?m) = ag_challengeStore ag'" "fst (store_step ?op ?m) = Some e"
    using assms by (auto simp: consume_def Let_def split: prod.splits)
  show "outstanding ?m sid" if "outstanding (ag_challengeStore ag') sid"
    using challenges.live_issued [of ?op ?m sid, unfolded step] that by (simp add: adds_def)
  show "outstanding ?m sid \<and> \<not> outstanding (ag_challengeStore ag') sid" if "e = SUCCESS" "p_sessionId ?p = sid"
    using challenges.win_spends [of ?op ?m sid, unfolded step] that by (simp add: consumes_def)
qed

lemma race_step_live:
  assumes "race_live (snd (race_step w op s)) sid"
  shows "race_live s sid \<or> race_issues op (fst (race_step w op s)) sid"
proof (cases s)
  case None
  with assms show ?thesis by (simp add: race_live_def)
next
  case (Some x)
  obtain pcs ag l where x: "x = (pcs, ag, l)" by (cases x)
  show ?thesis
  proof (cases op)
    case (RConsume t)
    with assms Some x consume_record(1) show ?thesis
      by (fastforce simp: race_live_def split: response_pc.splits prod.splits)
  next
    case (RAgent a)
    obtain res s' where r: "agent_step w a (Some (ag, l)) = (res, s')" by fastforce
    with assms Some x RAgent have "agent_live (snd (agent_step w a (Some (ag, l)))) sid"
      by (auto simp: race_live_def agent_live_def split: option.splits)
    from agent.live_issued [OF this] r Some x RAgent show ?thesis
      by (auto simp: race_live_def agent_live_def race_issues_def)
  qed (use assms Some x in \<open>auto simp: race_live_def split: response_pc.splits option.splits prod.splits\<close>)
qed

lemma race_step_unlocks:
  assumes "race_unlocks op (fst (race_step w op s)) sid"
  shows "race_live s sid \<and> \<not> race_live (snd (race_step w op s)) sid"
proof (cases s)
  case None
  with assms show ?thesis by (auto simp: race_unlocks_def)
next
  case (Some x)
  obtain pcs ag l where x: "x = (pcs, ag, l)" by (cases x)
  show ?thesis
  proof (cases op)
    case (RConsume t)
    with assms Some x obtain now frame h where pc: "pcs t = Consuming now frame h"
      by (auto simp: race_unlocks_def split: response_pc.splits)
    obtain e ag' where c: "consume now frame ag = (e, ag')" by fastforce
    with assms Some x RConsume pc have "e = SUCCESS" "p_sessionId (response_payload frame) = sid"
      by (auto simp: race_unlocks_def)
    from consume_record(2) [OF c this] show ?thesis using Some x RConsume pc c by (simp add: race_live_def)
  next
    case (RAgent a)
    obtain res s' where r: "agent_step w a (Some (ag, l)) = (res, s')" by fastforce
    with assms Some x RAgent have "unlocks a (fst (agent_step w a (Some (ag, l)))) sid"
      by (auto simp: race_unlocks_def)
    from agent.win_spends [OF this] r Some x RAgent show ?thesis
      by (auto simp: race_live_def agent_live_def split: option.splits)
  qed (use assms in \<open>auto simp: race_unlocks_def\<close>)
qed

interpretation races: single_use "race_step w" race_live race_issues race_unlocks
  by unfold_locales (auto dest: race_step_live race_step_unlocks)

text \<open>
  C7. Responses that race do not unlock twice. However many threads process responses at the same
  time and however their steps and the agent's other operations interleave, the PC is unlocked on
  the challenge of a session at most as often as a challenge was issued for it, plus once if one
  was outstanding at the start: several threads may pass the first validation and verify
  signatures, but only one consumes.
\<close>

theorem race_unlocks_once:
  "run_wins (race_step w) race_unlocks ops s sid
     \<le> run_issues (race_step w) race_issues ops s sid + of_bool (race_live s sid)"
  by (rule races.wins_bounded)

section \<open>A response that nobody interrupts\<close>

text \<open>
  C10. The steps are the code's: when no other step comes between them, the four steps of a thread
  decide exactly what \<open>ProcessUnlockResponse\<close> decides, with the same effect on the agent and the
  same system calls.
\<close>

theorem undisturbed_response:
  assumes "pcs t = Idle"
  shows "run_ops (race_step w) [RArrive t now uninit frame, RFetch t, RVerify t, RConsume t] (Some (pcs, ag, l))
    = (case run_state (ProcessUnlockResponse w now uninit frame ag) l of
         (None, l') \<Rightarrow> None
       | (Some (e, ag'), l') \<Rightarrow> Some (pcs(t := Finished e), ag', l'))"
proof -
  let ?buf = "take 108 (f_payload frame)"
  obtain p where D: "Deserialize (Some ?buf) AuthPayload_init
      = Some (payload_error (Some ?buf) = SUCCESS, p, payload_error (Some ?buf))"
    using Deserialize_result by blast
  then have p: "response_payload frame = p" by (simp add: response_payload_def)
  let ?v = "ValidateChallenge (p_sessionId p) (p_deviceId p) (ag_pcId ag) (p_challenge p) now uninit (ag_challengeStore ag)"
  let ?h = "GetDevicePublicKey (p_deviceId p) (ag_deviceRegistry ag)"
  obtain sv l1 where V: "run_state (VerifySignature w (ag_cryptoEngine ag) ?h (Some ?buf) (Some (drop 108 (f_payload frame)))) l = (sv, l1)"
    by fastforce
  consider "length (f_payload frame) < 116" | "\<not> length (f_payload frame) < 116" "payload_error (Some ?buf) \<noteq> SUCCESS"
    | "\<not> length (f_payload frame) < 116" "payload_error (Some ?buf) = SUCCESS" "fst ?v \<noteq> SUCCESS"
    | "\<not> length (f_payload frame) < 116" "payload_error (Some ?buf) = SUCCESS" "fst ?v = SUCCESS" "?h = NULL"
    | "\<not> length (f_payload frame) < 116" "payload_error (Some ?buf) = SUCCESS" "fst ?v = SUCCESS" "?h \<noteq> NULL"
    by blast
  then show ?thesis
  proof cases
    case 5
    then show ?thesis
      using assms D V
      by (cases sv; cases "the sv")
        (simp_all add: arrive_def fetch_def verify_def consume_def ProcessUnlockResponse_def p Let_def case_prod_unfold)
  qed (use assms D in \<open>simp_all add: arrive_def fetch_def ProcessUnlockResponse_def p Let_def case_prod_unfold\<close>)
qed

section \<open>What an unlock rests on when others interfere\<close>

lemma run_ops_snoc: "run_ops step (ops @ [op]) s = snd (step op (run_ops step ops s))"
  by (induction ops arbitrary: s) simp_all

text \<open>The thread fetched this handle as the key of the payload's device, at an earlier moment of the run.\<close>

definition fetched :: "env \<Rightarrow> race_state \<Rightarrow> race_op list \<Rightarrow> nat \<Rightarrow> TransportFrame \<Rightarrow> handle \<Rightarrow> bool" where
  "fetched w s0 ops t frame h \<longleftrightarrow> (\<exists>pre post pcs ag l. ops = pre @ RFetch t # post \<and> run_ops (race_step w) pre s0 = Some (pcs, ag, l)
     \<and> h \<noteq> NULL \<and> GetDevicePublicKey (p_deviceId (response_payload frame)) (ag_deviceRegistry ag) = h)"

text \<open>CNG accepted the signature of the frame under this handle in a step of the thread after that.\<close>

definition verified :: "env \<Rightarrow> race_state \<Rightarrow> race_op list \<Rightarrow> nat \<Rightarrow> TransportFrame \<Rightarrow> handle \<Rightarrow> bool" where
  "verified w s0 ops t frame h \<longleftrightarrow> (\<exists>pre post pcs ag l l' new. ops = pre @ RVerify t # post
     \<and> run_ops (race_step w) pre s0 = Some (pcs, ag, l) \<and> fetched w s0 pre t frame h
     \<and> run_ops (race_step w) (pre @ [RVerify t]) s0 = Some (pcs(t := Consuming l' frame h), ag, l @ new)
     \<and> verified_by (ag_cryptoEngine ag) h (take 108 (f_payload frame)) (drop 108 (f_payload frame)) new)"

lemma fetched_snoc: "fetched w s0 ops t frame h \<Longrightarrow> fetched w s0 (ops @ [op]) t frame h"
  unfolding fetched_def by (metis append_Cons append_assoc)

lemma verified_snoc: "verified w s0 ops t frame h \<Longrightarrow> verified w s0 (ops @ [op]) t frame h"
  unfolding verified_def by (metis append_Cons append_assoc)

definition canonical_frame :: "TransportFrame \<Rightarrow> bool" where
  "canonical_frame frame \<longleftrightarrow> AuthPayload_current (response_payload frame)
     \<and> take 108 (f_payload frame) = Serialize (response_payload frame)"

definition pc_inv :: "env \<Rightarrow> race_state \<Rightarrow> race_op list \<Rightarrow> nat \<Rightarrow> response_pc \<Rightarrow> bool" where
  "pc_inv w s0 ops t pc \<longleftrightarrow>
     (case pc of
        Fetching now frame \<Rightarrow> canonical_frame frame
      | Verifying now frame h \<Rightarrow> canonical_frame frame \<and> fetched w s0 ops t frame h
      | Consuming now frame h \<Rightarrow> canonical_frame frame \<and> verified w s0 ops t frame h
      | _ \<Rightarrow> True)"

lemma pc_inv_snoc: "pc_inv w s0 ops t pc \<Longrightarrow> pc_inv w s0 (ops @ [op]) t pc"
  by (auto simp: pc_inv_def intro: fetched_snoc verified_snoc split: response_pc.splits)

lemma arrive_inv:
  assumes "arrive now uninit frame ag = Some pc"
  shows "pc_inv w s0 ops t pc"
proof -
  let ?buf = "take 108 (f_payload frame)"
  obtain p where D: "Deserialize (Some ?buf) AuthPayload_init
      = Some (payload_error (Some ?buf) = SUCCESS, p, payload_error (Some ?buf))"
    using Deserialize_result by blast
  then have p: "response_payload frame = p" by (simp add: response_payload_def)
  show ?thesis
  proof (cases "payload_error (Some ?buf) = SUCCESS")
    case True
    with D have "Deserialize (Some ?buf) AuthPayload_init = Some (True, p, SUCCESS)" by simp
    from Deserialize_canonical [OF this] have "canonical_frame frame" by (simp add: canonical_frame_def p)
    with assms D show ?thesis by (auto simp: arrive_def pc_inv_def Let_def split: if_splits prod.splits)
  next
    case False
    with assms D show ?thesis by (auto simp: arrive_def pc_inv_def split: if_splits)
  qed
qed

lemma fetch_inv:
  assumes "run_ops (race_step w) ops s0 = Some (pcs, ag, l)" "canonical_frame frame"
  shows "pc_inv w s0 (ops @ [RFetch t]) t (fetch now frame ag)"
proof -
  have "fetched w s0 (ops @ [RFetch t]) t frame h"
    if "GetDevicePublicKey (p_deviceId (response_payload frame)) (ag_deviceRegistry ag) = h" "h \<noteq> NULL" for h
    unfolding fetched_def using assms(1) that by blast
  with assms(2) show ?thesis by (simp add: fetch_def pc_inv_def Let_def)
qed

lemma verify_inv:
  assumes run: "run_ops (race_step w) ops s0 = Some (pcs, ag, l)" and pc: "pcs t = Verifying now frame h"
    and inv: "canonical_frame frame" "fetched w s0 ops t frame h"
    and v: "run_state (verify w now frame h ag) l = (Some pc', l')"
  shows "pc_inv w s0 (ops @ [RVerify t]) t pc'"
proof -
  obtain sv l1 where V: "run_state (VerifySignature w (ag_cryptoEngine ag) h (Some (take 108 (f_payload frame)))
      (Some (drop 108 (f_payload frame)))) l = (sv, l1)" by fastforce
  show ?thesis
  proof (cases sv)
    case None
    with v V show ?thesis by (simp add: verify_def)
  next
    case (Some ok)
    with v V have pc': "pc' = (if ok then Consuming now frame h else Finished INVALID_SIGNATURE)" "l' = l1"
      by (auto simp: verify_def)
    show ?thesis
    proof (cases ok)
      case True
      with V Some have "run_state (VerifySignature w (ag_cryptoEngine ag) h (Some (take 108 (f_payload frame)))
          (Some (drop 108 (f_payload frame)))) l = (Some True, l1)" by simp
      from VerifySignature_true [OF this] dword_blob_take [of 108 "f_payload frame"] obtain new where new: "l1 = l @ new"
        "verified_by (ag_cryptoEngine ag) h (take 108 (f_payload frame)) (drop 108 (f_payload frame)) new" by auto
      have "run_ops (race_step w) (ops @ [RVerify t]) s0 = Some (pcs(t := Consuming now frame h), ag, l @ new)"
        using run pc v pc' True new(1) by (simp add: run_ops_snoc)
      with run inv(2) new(2) have "verified w s0 (ops @ [RVerify t]) t frame h" unfolding verified_def by blast
      with inv(1) pc' True show ?thesis by (simp add: pc_inv_def)
    next
      case False
      with pc' show ?thesis by (simp add: pc_inv_def)
    qed
  qed
qed

lemma race_step_None: "snd (race_step w op s) = Some x \<Longrightarrow> \<exists>pcs ag l. s = Some (pcs, ag, l)"
  by (cases s) auto

lemma race_inv:
  assumes "s0 = Some (\<lambda>_. Idle, ag0, l0)" "run_ops (race_step w) ops s0 = Some (pcs, ag, l)"
  shows "pc_inv w s0 ops t (pcs t)"
  using assms(2)
proof (induction ops arbitrary: pcs ag l rule: rev_induct)
  case Nil
  with assms(1) show ?case by (auto simp: pc_inv_def)
next
  case (snoc op ops)
  from snoc.prems have last: "snd (race_step w op (run_ops (race_step w) ops s0)) = Some (pcs, ag, l)"
    by (simp add: run_ops_snoc)
  then obtain pcs1 ag1 l1 where s1: "run_ops (race_step w) ops s0 = Some (pcs1, ag1, l1)"
    using race_step_None by blast
  note IH = snoc.IH [OF s1]
  have keep: "pc_inv w s0 (ops @ [op]) t (pcs1 t)" using IH by (rule pc_inv_snoc)
  show ?case
  proof (cases op)
    case (RArrive u now uninit frame)
    with last s1 keep show ?thesis by (auto intro: arrive_inv split: response_pc.splits)
  next
    case (RFetch u)
    show ?thesis
    proof (cases "\<exists>now frame. u = t \<and> pcs1 t = Fetching now frame")
      case True
      then obtain now frame where u: "u = t" "pcs1 t = Fetching now frame" by blast
      from IH u(2) have "canonical_frame frame" by (simp add: pc_inv_def)
      from fetch_inv [OF s1 this] last s1 RFetch u show ?thesis by auto
    next
      case False
      with last s1 RFetch keep show ?thesis by (auto split: response_pc.splits)
    qed
  next
    case (RVerify u)
    show ?thesis
    proof (cases "\<exists>now frame h. u = t \<and> pcs1 t = Verifying now frame h")
      case True
      then obtain now frame h where u: "u = t" "pcs1 t = Verifying now frame h" by blast
      from IH u(2) have inv: "canonical_frame frame" "fetched w s0 ops t frame h" by (simp_all add: pc_inv_def)
      from last s1 RVerify u obtain pc' l' where v: "run_state (verify w now frame h ag1) l1 = (Some pc', l')" "pcs t = pc'"
        by (auto split: option.splits prod.splits)
      from verify_inv [OF s1 u(2) inv v(1)] v(2) RVerify u(1) show ?thesis by simp
    next
      case False
      with last s1 RVerify keep show ?thesis by (auto split: response_pc.splits option.splits prod.splits)
    qed
  next
    case (RConsume u)
    with last s1 keep show ?thesis
      by (auto simp: pc_inv_def split: response_pc.splits prod.splits if_splits)
  next
    case (RAgent a)
    with last s1 keep show ?thesis by (auto split: prod.splits)
  qed
qed

text \<open>
  The response a thread is working on, and the clock it read when it took the response up: it read
  that clock once, at its arrival, and uses the same value to the end.
\<close>

fun taken_up :: "response_pc \<Rightarrow> (u64 \<times> TransportFrame) option" where
  "taken_up (Fetching now frame) = Some (now, frame)"
| "taken_up (Verifying now frame h) = Some (now, frame)"
| "taken_up (Consuming now frame h) = Some (now, frame)"
| "taken_up pc = None"

lemma taken_up_steps:
  "arrive now uninit frame ag = Some pc \<Longrightarrow> taken_up pc = Some x \<Longrightarrow> x = (now, frame)"
  "taken_up (fetch now frame ag) = Some x \<Longrightarrow> x = (now, frame)"
  "run_state (verify w now frame h ag) l = (Some pc, l') \<Longrightarrow> taken_up pc = Some x \<Longrightarrow> x = (now, frame)"
  by (auto simp: arrive_def fetch_def verify_def Let_def split: if_splits option.splits prod.splits)

lemma race_step_taken_up:
  assumes "snd (race_step w op (Some (pcs, ag, l))) = Some (pcs', ag', l')" "taken_up (pcs' t) = Some (now, frame)"
  shows "taken_up (pcs t) = Some (now, frame) \<or> (\<exists>uninit. op = RArrive t now uninit frame)"
proof (cases op)
  case (RArrive u c uninit f)
  with assms taken_up_steps(1) [of c uninit f ag] show ?thesis
    by (auto split: response_pc.splits if_splits)
next
  case (RFetch u)
  with assms taken_up_steps(2) show ?thesis by (fastforce split: response_pc.splits if_splits)
next
  case (RVerify u)
  with assms taken_up_steps(3) show ?thesis by (fastforce split: response_pc.splits if_splits option.splits prod.splits)
qed (use assms in \<open>auto split: response_pc.splits prod.splits if_splits\<close>)

lemma race_taken_up:
  assumes "s0 = Some (\<lambda>_. Idle, ag0, l0)" "run_ops (race_step w) ops s0 = Some (pcs, ag, l)"
    and "taken_up (pcs t) = Some (now, frame)"
  shows "\<exists>uninit. RArrive t now uninit frame \<in> set ops"
  using assms(2,3)
proof (induction ops arbitrary: pcs ag l rule: rev_induct)
  case Nil
  with assms(1) show ?case by auto
next
  case (snoc op ops)
  from snoc.prems(1) have last: "snd (race_step w op (run_ops (race_step w) ops s0)) = Some (pcs, ag, l)"
    by (simp add: run_ops_snoc)
  then obtain pcs1 ag1 l1 where s1: "run_ops (race_step w) ops s0 = Some (pcs1, ag1, l1)"
    using race_step_None by blast
  from race_step_taken_up [OF last [unfolded s1] snoc.prems(2)] snoc.IH [OF s1] show ?case by auto
qed

text \<open>
  C9. What an unlock rests on in an arbitrary interleaving. When a thread's response unlocks the PC,
  its frame is a canonical payload of the current protocol; at that moment the store holds an
  outstanding challenge for the payload's session with its device, challenge bytes and this PC,
  unexpired by the clock that the thread read when it took the response up (the only clock the code
  looks at; how long ago that was is not bounded, see \<open>stale_clock_unlocks\<close>); and at earlier
  moments of the same run the thread took up this frame with this clock, fetched the handle
  registered for that device and CNG accepted the signature over the 108 payload bytes under that
  handle. (That the device is still registered at the moment of the unlock does not follow.)
\<close>

theorem race_sound:
  assumes start: "s0 = Some (\<lambda>_. Idle, ag0, l0)" and run: "run_ops (race_step w) ops s0 = Some (pcs, ag, l)"
    and unlock: "race_step w (RConsume t) (Some (pcs, ag, l)) = (RAnswered SUCCESS frame h, s')"
    and p: "p = response_payload frame"
  shows "AuthPayload_current p \<and> take 108 (f_payload frame) = Serialize p \<and> verified w s0 ops t frame h
    \<and> (\<exists>now rec uninit. challenge_of (ag_challengeStore ag) (p_sessionId p) = Some rec \<and> c_state rec = OUTSTANDING
        \<and> now \<le> c_expirationTimestampMs rec \<and> pcs t = Consuming now frame h \<and> RArrive t now uninit frame \<in> set ops
        \<and> c_deviceId rec = p_deviceId p \<and> c_pcId rec = ag_pcId ag \<and> c_challenge rec = p_challenge p)"
proof -
  obtain now where pc: "pcs t = Consuming now frame h" and c: "fst (consume now frame ag) = SUCCESS"
    using unlock by (auto split: response_pc.splits prod.splits)
  have inv: "canonical_frame frame" "verified w s0 ops t frame h"
    using race_inv [OF start run, of t] by (simp_all add: pc pc_inv_def)
  from c have "verdict (challenge_of (ag_challengeStore ag) (p_sessionId p)) (p_deviceId p) (ag_pcId ag) (p_challenge p) now = SUCCESS"
    by (simp add: consume_def p Let_def case_prod_unfold ValidateAndConsume_eq ConsumeChallenge_verdict)
  then obtain rec where "challenge_of (ag_challengeStore ag) (p_sessionId p) = Some rec \<and> c_state rec = OUTSTANDING
        \<and> now \<le> c_expirationTimestampMs rec
        \<and> c_deviceId rec = p_deviceId p \<and> c_pcId rec = ag_pcId ag \<and> c_challenge rec = p_challenge p"
    unfolding verdict_SUCCESS_iff by blast
  with inv pc race_taken_up [OF start run, of t now frame] show ?thesis by (auto simp: canonical_frame_def p)
qed

text \<open>
  The handle a thread has fetched is not protected: removing the device in the meantime destroys
  the key, and the thread goes on to verify with the stale handle.
\<close>

theorem fetched_key_dangles:
  assumes "pcs t = Verifying now frame h" "GetDevicePublicKey d (ag_deviceRegistry ag) = h" "h \<noteq> NULL"
    and "Multiset.count (held l) (RKey h) = 1"
    and "race_step w (RAgent (AUnregister d)) (Some (pcs, ag, l)) = (res, Some (pcs', ag', l'))"
  shows "pcs' t = Verifying now frame h \<and> RKey h \<notin># held l'"
proof -
  obtain dev where dev: "map_of (ag_deviceRegistry ag) (DeviceRegistry_BytesToKey d) = Some dev" "d_hPublicKey dev = h"
    using assms(2,3) by (auto simp: GetDevicePublicKey_def Let_def split: option.splits if_splits)
  have "pcs' = pcs" "held l' = held l - {#RKey h#}"
    using assms(3,5) dev by (auto simp: UnregisterDevice_def destroy_entry_key_def Let_def)
  with assms(1,4) show ?thesis by (simp add: not_in_iff)
qed

section \<open>A concrete run\<close>

theorem undisturbed_response_witness:
  "\<exists>pcs l'. run_ops (race_step yes_env) [RArrive 0 2000 sample_record sample_response, RFetch 0, RVerify 0, RConsume 0]
      (Some (\<lambda>_. Idle, sample_agent, [])) = Some (pcs, spend sample_response 2000 sample_agent, l') \<and> pcs 0 = Finished SUCCESS"
proof -
  obtain l' where "run_state (ProcessUnlockResponse yes_env 2000 sample_record sample_response sample_agent) []
      = (Some (SUCCESS, spend sample_response 2000 sample_agent), l')" using process_sample by blast
  with undisturbed_response [of "\<lambda>_. Idle" 0 yes_env 2000 sample_record sample_response sample_agent "[]"] show ?thesis by simp
qed

lemma arrive_accepts:
  assumes "precheck now frame ag = None"
  shows "arrive now uninit frame ag = Some (Fetching now frame)"
proof -
  let ?buf = "take 108 (f_payload frame)"
  obtain p where D: "Deserialize (Some ?buf) AuthPayload_init
      = Some (payload_error (Some ?buf) = SUCCESS, p, payload_error (Some ?buf))"
    using Deserialize_result by blast
  then have p: "response_payload frame = p" by (simp add: response_payload_def)
  have "116 \<le> length (f_payload frame)" "payload_error (Some ?buf) = SUCCESS"
    using assms by (auto simp: precheck_def Let_def split: if_splits)
  with D precheck_None(4) [OF assms refl] show ?thesis by (simp add: arrive_def ValidateChallenge_verdict p)
qed

lemma sample_key: "GetDevicePublicKey (p_deviceId sample_payload) (ag_deviceRegistry sample_agent) = 7"
  by (simp add: sample_agent_def sample_payload_def GetDevicePublicKey_def RegisteredDevice_init_def)

lemma verify_sample: "\<exists>l'. run_state (verify yes_env 2000 sample_response 7 sample_agent) l = (Some (Consuming 2000 sample_response 7), l')"
proof -
  have "drop 108 (f_payload sample_response) = replicate 64 1" "Serialize sample_payload \<noteq> []"
    using sample_response_fields(3,4) by (auto simp: f_payload_sample_response)
  then show ?thesis by (simp add: verify_def sample_response_fields VerifySignature_alt raw_signature_def yes_env_def)
qed

lemma sample_race:
  "\<exists>pcs l. run_ops (race_step yes_env) [RArrive 0 2000 sample_record sample_response, RFetch 0, RVerify 0]
      (Some (\<lambda>_. Idle, sample_agent, [])) = Some (pcs, sample_agent, l)
    \<and> pcs 0 = Consuming 2000 sample_response 7 \<and> pcs 1 = Idle
    \<and> (\<forall>pcs' l'. pcs' 0 = pcs 0 \<longrightarrow>
        fst (race_step yes_env (RConsume 0) (Some (pcs', sample_agent, l'))) = RAnswered SUCCESS sample_response 7)"
proof -
  obtain l where v: "run_state (verify yes_env 2000 sample_response 7 sample_agent) [] = (Some (Consuming 2000 sample_response 7), l)"
    using verify_sample by blast
  have f: "fetch 2000 sample_response sample_agent = Verifying 2000 sample_response 7"
    using sample_key by (simp add: fetch_def sample_response_fields)
  have "fst (consume 2000 sample_response sample_agent) = SUCCESS"
    using precheck_None(4) [OF precheck_sample refl]
    by (simp add: consume_def Let_def case_prod_unfold ValidateAndConsume_eq ConsumeChallenge_verdict)
  then have "fst (race_step yes_env (RConsume 0) (Some (pcs', sample_agent, l'))) = RAnswered SUCCESS sample_response 7"
    if "pcs' 0 = Consuming 2000 sample_response 7" for pcs' l'
    using that by (cases "consume 2000 sample_response sample_agent") simp
  then show ?thesis by (simp add: arrive_accepts [OF precheck_sample] f v)
qed

theorem race_sound_witness:
  "verified yes_env (Some (\<lambda>_. Idle, sample_agent, [])) [RArrive 0 2000 sample_record sample_response, RFetch 0, RVerify 0] 0
     sample_response 7"
proof -
  let ?s0 = "Some (\<lambda>_. Idle, sample_agent, []) :: race_state"
  let ?ops = "[RArrive 0 2000 sample_record sample_response, RFetch 0, RVerify 0]"
  obtain pcs l where run: "run_ops (race_step yes_env) ?ops ?s0 = Some (pcs, sample_agent, l)"
    and "fst (race_step yes_env (RConsume 0) (Some (pcs, sample_agent, l))) = RAnswered SUCCESS sample_response 7"
    using sample_race by blast
  then obtain s' where "race_step yes_env (RConsume 0) (Some (pcs, sample_agent, l)) = (RAnswered SUCCESS sample_response 7, s')"
    by (metis surjective_pairing)
  from race_sound [OF refl run this refl] show ?thesis by blast
qed

text \<open>
  The clock of an unlock may be stale. Thread 0 takes up a response while its challenge lives and is
  delayed before it consumes; meanwhile thread 1 takes up the same response a minute later and is
  told that the challenge has expired; then thread 0 goes on and unlocks the PC, since it compares
  the expiry with the clock it read at its arrival.
\<close>

theorem stale_clock_unlocks:
  "\<exists>pcs l. run_ops (race_step yes_env) [RArrive 0 2000 sample_record sample_response, RFetch 0, RVerify 0,
        RArrive 1 62000 sample_record sample_response] (Some (\<lambda>_. Idle, sample_agent, [])) = Some (pcs, sample_agent, l)
    \<and> pcs 1 = Finished CHALLENGE_EXPIRED
    \<and> fst (race_step yes_env (RConsume 0) (Some (pcs, sample_agent, l))) = RAnswered SUCCESS sample_response 7"
proof -
  have late: "arrive 62000 sample_record sample_response sample_agent = Some (Finished CHALLENGE_EXPIRED)"
  proof -
    have "challenge_of (ag_challengeStore sample_agent) (p_sessionId sample_payload) = Some (sample_record\<lparr>c_state := OUTSTANDING\<rparr>)"
      by (simp add: sample_agent_def challenge_of_AddChallenge sample_record_def sample_payload_def)
    moreover have "Deserialize (Some (Serialize sample_payload)) AuthPayload_init = Some (True, sample_payload, SUCCESS)"
      using sample_payload_current by (rule Deserialize_encoded)
    ultimately show ?thesis
      by (simp add: arrive_def sample_response_fields ValidateChallenge_verdict verdict_def sample_record_def)
  qed
  obtain pcs l where run: "run_ops (race_step yes_env) [RArrive 0 2000 sample_record sample_response, RFetch 0, RVerify 0]
      (Some (\<lambda>_. Idle, sample_agent, [])) = Some (pcs, sample_agent, l)" "pcs 1 = Idle"
    "\<And>pcs' l'. pcs' 0 = pcs 0 \<Longrightarrow>
        fst (race_step yes_env (RConsume 0) (Some (pcs', sample_agent, l'))) = RAnswered SUCCESS sample_response 7"
    using sample_race by blast
  let ?pcs = "pcs(1 := Finished CHALLENGE_EXPIRED)"
  have "run_ops (race_step yes_env) ([RArrive 0 2000 sample_record sample_response, RFetch 0, RVerify 0]
      @ [RArrive 1 62000 sample_record sample_response]) (Some (\<lambda>_. Idle, sample_agent, [])) = Some (?pcs, sample_agent, l)"
    unfolding run_ops_snoc run(1) using run(2) late by simp
  with run(3) [of ?pcs l] show ?thesis by (intro exI [of _ ?pcs] exI [of _ l]) simp
qed

end
