(* ===== verification/Agent_Main.thy ===== *)
theory Agent_Main
  imports Agent_Runs
begin

text \<open>
  \<open>windows/agent/PhoneKeyAgent.cpp\<close>: the agent's executable. What happens while \<open>main\<close> waits for
  the ENTER key (connections, frames) is a sequence of operations of the agent.
\<close>

text \<open>
  \<open>Close\<close> on a transport whose worker may be in \<open>accept\<close>. The two threads share \<open>m_isRunning\<close>, \<open>m_isConnected\<close> and
  \<open>m_clientSocket\<close> without a lock, and a connection that comes in at that moment has three outcomes:
  \<open>NoRace\<close>, the worker has not got a connection, or has stored it before \<open>Close\<close> looks at
  \<open>m_clientSocket\<close>; \<open>AcceptLost\<close>, \<open>accept\<close> returns a socket after \<open>Close\<close> has cleared \<open>m_isRunning\<close> and the worker returns without
  closing it; \<open>AcceptStored\<close>, the worker has seen \<open>m_isRunning\<close> set and stores the socket only after
  \<open>Close\<close> has looked at \<open>m_clientSocket\<close>.
\<close>

datatype accept_race = NoRace | AcceptLost | AcceptStored

definition Close_racing :: "accept_race \<Rightarrow> env \<Rightarrow> TcpTransport \<Rightarrow> (os_log, TcpTransport) state" where
  "Close_racing race w t =
     (if t_worker t \<noteq> ListenerThread then Close w t
      else
        (case race of
           NoRace \<Rightarrow> Close w t
         | AcceptLost \<Rightarrow> do {
             _ \<leftarrow> ListenerWorker w (t\<lparr>t_isRunning := False, t_isConnected := False\<rparr>);
             Close w t
           }
         | AcceptStored \<Rightarrow> do {
             (stored, t', _) \<leftarrow> ListenerWorker w t;
             t \<leftarrow> Close w t;
             State_Monad.return (if stored then t\<lparr>t_clientSocket := t_clientSocket t', t_isConnected := True\<rparr> else t)
           }))"

text \<open>
  The exit code and the final log; \<open>None\<close> follows undefined behaviour. The destructor of the local
  \<open>agent\<close> runs on both ways out; by then the worker has been joined. Console output is left out.
\<close>

definition PhoneKeyAgent_main :: "env \<Rightarrow> agent_op list \<Rightarrow> accept_race \<Rightarrow> os_log \<Rightarrow> (int \<times> os_log) option" where
  "PhoneKeyAgent_main w waiting race l =
     (let pcId = replicate UUID_SIZE 0x99;
          listenPort = 8443;
          (agent, l) = run_state (AgentService_new w listenPort pcId) l;
          ((ok, agent, _), l) = run_state (AgentService_Start w agent) l
      in if \<not> ok then Some (1, snd (run_state (AgentService_destroy w agent) l))
         else (case run_ops (agent_step w) waiting (Some (agent, l)) of
                 None \<Rightarrow> None
               | Some (agent, l) \<Rightarrow>
                   let (t, l) = run_state (Close_racing race w (ag_transport agent)) l;
                       agent = agent\<lparr>ag_transport := t\<rparr>
                   in Some (0, snd (run_state (AgentService_destroy w agent) l))))"

text \<open>With no race, that is \<open>AgentService_Stop\<close>.\<close>

lemma Close_NoRace: "Close_racing NoRace w t = Close w t"
  by (simp add: Close_racing_def)

lemma Close_lost_owns:
  assumes "tcp_owns t l rest" "t_worker t = ListenerThread" "run_state (Close_racing AcceptLost w t) l = (t', l')"
  shows "\<exists>lost. tcp_owns t' l' (rest + lost) \<and> (lost = {#} \<or> (\<exists>h. lost = {#RSock h#}))"
proof -
  let ?c = "Sock (WinAccept (t_listenSocket t))"
  let ?h = "a_handle (w l ?c)"
  let ?l1 = "l @ [(?c, w l ?c)]"
  have own: "tcp_owns t ?l1 (rest + open_sock ?h)"
    using assms(1) by (auto simp: tcp_owns_def open_sock_def)
  have "run_state (Close w t) ?l1 = (t', l')"
    using assms(2,3) by (simp add: Close_racing_def ListenerWorker_def run_if Let_def)
  from Close_owns [OF own this] have "tcp_owns t' l' (rest + open_sock ?h)"
    using tcp_owns_closed [of l' t] by simp
  then show ?thesis by (intro exI [of _ "open_sock ?h"]) (simp add: open_sock_def)
qed

lemma Close_stored_owns:
  assumes "tcp_owns t l rest" "t_worker t = ListenerThread" "run_state (Close_racing AcceptStored w t) l = (t', l')"
  shows "tcp_owns t' l' rest"
proof -
  obtain stored t1 evs l1 where a: "run_state (ListenerWorker w t) l = ((stored, t1, evs), l1)" by (metis surj_pair)
  obtain t2 where b: "run_state (Close w t) l1 = (t2, l')"
    "t' = (if stored then t2\<lparr>t_clientSocket := t_clientSocket t1, t_isConnected := True\<rparr> else t2)"
    using assms(2,3) a by (auto simp: Close_racing_def split: prod.splits)
  let ?h = "if stored then t_clientSocket t1 else INVALID_SOCKET"
  have "tcp_owns t l1 (rest + open_sock ?h)"
    using assms(1,2) a
    by (auto simp: ListenerWorker_def tcp_owns_def socks_def open_sock_def run_if Let_def split: if_splits)
  from Close_owns [OF this b(1)] b(2) show ?thesis
    by (auto simp: tcp_owns_def socks_def)
qed

lemma Close_racing_owns:
  assumes "tcp_owns t l rest" "run_state (Close_racing race w t) l = (t', l')"
  shows "\<exists>lost. tcp_owns t' l' (rest + lost) \<and> (lost = {#} \<or> race = AcceptLost \<and> (\<exists>h. lost = {#RSock h#}))"
proof (cases "t_worker t = ListenerThread \<and> race \<noteq> NoRace")
  case True
  with Close_lost_owns [OF assms(1), of w t' l'] Close_stored_owns [OF assms(1), of w t' l'] assms(2) show ?thesis
    by (cases race) (auto intro: exI [of _ "{#}"])
next
  case False
  then have "Close_racing race w t = Close w t" by (cases race) (simp_all add: Close_racing_def)
  with assms(2) have "run_state (Close w t) l = (t', l')" by simp
  from Close_owns [OF assms(1) this] tcp_owns_closed [of l' t] show ?thesis by (intro exI [of _ "{#}"]) simp
qed

text \<open>
  C27. What the executable leaves behind, in every schedule of its shutdown: whether the agent starts
  or not, whatever arrives while it runs, when \<open>main\<close> returns the process holds the sockets, keys and
  providers it held before, and besides them at most one socket, which a connection left that came in while \<open>Close\<close> was
  running (\<open>AcceptLost\<close>); Winsock has been released as often as it was started, none was released twice, and the
  exit code says whether the agent had started. This rests on the documented behaviour that
  \<open>WSAStartup\<close> succeeds (its result is ignored, see \<open>winsock_unbalanced\<close>) and that CNG gives no null
  handle when it reports success.
\<close>

theorem main_no_leak:
  assumes "import_nonnull w" "open_nonnull w" "winsock_starts w" "releases_ok l"
    and "PhoneKeyAgent_main w waiting race l = Some (code, l')"
    and "run_state (AgentService_new w 8443 (replicate UUID_SIZE 0x99)) l = (ag0, l0)"
  shows "(\<exists>lost. held l' = held l + lost \<and> (lost = {#} \<or> race = AcceptLost \<and> (\<exists>h. lost = {#RSock h#})))
    \<and> releases_ok l' \<and> (code = 0 \<or> code = 1)
    \<and> (code = 0 \<longleftrightarrow> fst (fst (run_state (AgentService_Start w ag0) l0)))"
proof -
  obtain ok ag evs l1 where start: "run_state (AgentService_Start w ag0) l0 = ((ok, ag, evs), l1)" by (metis surj_pair)
  note main = assms(5) [unfolded PhoneKeyAgent_main_def, simplified, unfolded assms(6), simplified, unfolded start, simplified]
  note life = agent_owns_life [OF assms(1-4,6) start]
  have destroy: "run_state (AgentService_destroy w a) k = ((), snd (run_state (AgentService_destroy w a) k))" for a k
    by (metis old.unit.exhaust prod.collapse)
  show ?thesis
  proof (cases ok)
    case False
    with main have r: "code = 1" "l' = snd (run_state (AgentService_destroy w ag) l1)" by simp_all
    from agent_destroy_owns [OF life [of "[]"] destroy] r False start show ?thesis by simp
  next
    case True
    with main obtain ag2 l2 where run: "run_ops (agent_step w) waiting (Some (ag, l1)) = Some (ag2, l2)"
      by (auto split: option.splits)
    obtain t l3 where close: "run_state (Close_racing race w (ag_transport ag2)) l2 = (t, l3)" by fastforce
    have r: "code = 0" "l' = snd (run_state (AgentService_destroy w (ag2\<lparr>ag_transport := t\<rparr>)) l3)"
      using main True run close by simp_all
    note own = life [OF run]
    then have "tcp_owns (ag_transport ag2) l2 (reg_keys (ag_deviceRegistry ag2)
        + (algs (ag_cryptoEngine ag2) + add_mset RWinsock (held l)))" by (simp add: agent_owns_def)
    from Close_racing_owns [OF this close] obtain lost where
      lost: "lost = {#} \<or> race = AcceptLost \<and> (\<exists>h. lost = {#RSock h#})"
      and t: "tcp_owns t l3 (reg_keys (ag_deviceRegistry ag2) + (algs (ag_cryptoEngine ag2) + add_mset RWinsock (held l + lost)))"
      by (auto simp: ac_simps)
    from own t have "agent_owns (ag2\<lparr>ag_transport := t\<rparr>) l3 (add_mset RWinsock (held l + lost))"
      by (simp add: agent_owns_def tcp_owns_def owns_def ac_simps)
    from agent_destroy_owns [OF this destroy] r lost True start show ?thesis by auto
  qed
qed

theorem main_no_leak_witness:
  "\<exists>code l'. PhoneKeyAgent_main slow_env [] AcceptStored [] = Some (code, l') \<and> held l' = {#} \<and> releases_ok l'"
proof -
  have "PhoneKeyAgent_main slow_env [] AcceptStored [] \<noteq> None"
    by (simp add: PhoneKeyAgent_main_def Let_def split: prod.split)
  then obtain code l' where r: "PhoneKeyAgent_main slow_env [] AcceptStored [] = Some (code, l')" by auto
  obtain ag0 l0 where "run_state (AgentService_new slow_env 8443 (replicate UUID_SIZE 0x99)) [] = (ag0, l0)" by fastforce
  from main_no_leak [OF slow_env_documented releases_ok_Nil r this] r show ?thesis by simp
qed

text \<open>
  The executable never asks for an unlock: what the network can do (connections and frames of any
  content) does not unlock the PC, because no challenge is ever issued.
\<close>

fun from_network :: "agent_op \<Rightarrow> bool" where
  "from_network (AFrame now uninit frame) = True"
| "from_network AAccept = True"
| "from_network _ = False"

lemma network_issues_nothing:
  "list_all from_network ops \<Longrightarrow> run_issues (agent_step w) issues_session ops s sid = 0"
proof (induction ops arbitrary: s)
  case (Cons op ops)
  then have "\<not> issues_session op (fst (agent_step w op s)) sid"
    by (cases op; cases s) (auto simp: issues_session_def Let_def split: option.splits prod.splits)
  with Cons show ?case by simp
qed simp

theorem main_never_unlocks:
  assumes "list_all from_network waiting"
    and "run_state (AgentService_new w port pcId) l = (ag0, l0)" "run_state (AgentService_Start w ag0) l0 = ((ok, ag, evs), l1)"
  shows "run_wins (agent_step w) unlocks waiting (Some (ag, l1)) sid = 0"
proof -
  have "ag_challengeStore ag0 = []"
    using assms(2) by (auto simp: AgentService_new_def AgentService_init_def ChallengeStore_init_def split: prod.splits)
  then have "ag_challengeStore ag = []"
    using assms(3) by (auto simp: AgentService_Start_def Let_def run_if
        split: if_splits prod.splits)
  then have "\<not> agent_live (Some (ag, l1)) sid" by (simp add: agent_live_def outstanding_def challenge_of_def)
  from agent.dead_until_issued [OF this network_issues_nothing [OF assms(1)]] show ?thesis .
qed

end
