(* ===== verification/Agent_Liveness.thy ===== *)
theory Agent_Liveness
  imports Agent_Runs
begin

text \<open>
  The other half of the agent's promise: an honest answer unlocks. Between the request and the
  response the agent may serve anything else, responses to this very challenge that are malformed or
  carry a bad signature included. (\<open>Agent_Service\<close> and \<open>Agent_Runs\<close> show that nothing but an honest
  answer unlocks.)
\<close>

section \<open>The request reaches the phone\<close>

lemma unlock_request_payload_layout:
  assumes "ChallengeRecord_wf rec"
  shows "unlock_request_payload rec = c_sessionId rec @ c_pcId rec @ c_challenge rec
    @ put_be64 (c_creationTimestampMs rec) @ put_be64 (c_expirationTimestampMs rec)"
  using assms
  by (simp add: unlock_request_payload_def Let_def ChallengeRecord_wf_def size_defs wr_first wr_next del: append_assoc)

lemma GenerateChallenge_wf:
  assumes "ChallengeRecord_wf uninit" "length dev = UUID_SIZE" "length pc = UUID_SIZE"
  shows "ChallengeRecord_wf (fst (run_state (GenerateChallenge w e now uninit dev pc) l))"
  using assms unfolding GenerateChallenge_run [OF assms(1)] by (auto simp: ChallengeRecord_wf_def Let_def)

lemma GenerateChallenge_silent:
  "\<exists>x. snd (run_state (GenerateChallenge w e now uninit dev pc) l) = l @ x \<and> sent_on s x = []"
  by (auto simp: GenerateChallenge_def GenerateRandomBytes_def Let_def split: prod.splits option.splits if_splits)

lemma initiate_sends:
  assumes "run_state (InitiateUnlockRequest w now uninit dev ag) l = ((rec, ag'), l')" "t_isConnected (ag_transport ag)"
  obtains l1 ok t where "run_state (GenerateChallenge w (ag_cryptoEngine ag) now uninit dev (ag_pcId ag)) l = (rec, l1)"
    "run_state (SendFrame w UNLOCK_REQ (unlock_request_payload rec) (ag_transport ag)) l1 = ((ok, t), l')" "ag_transport ag' = t"
proof -
  obtain l1 where g: "run_state (GenerateChallenge w (ag_cryptoEngine ag) now uninit dev (ag_pcId ag)) l = (rec, l1)"
    using InitiateUnlockRequest_effect(1) [OF assms(1)] by (metis prod.collapse)
  with assms that show thesis by (auto simp: InitiateUnlockRequest_def IsConnected_def Let_def split: prod.splits)
qed

text \<open>What \<open>InitiateUnlockRequest\<close> puts on the wire, and what it stores.\<close>

lemma request_sent:
  assumes "send_counts w" "ChallengeRecord_wf uninit" "length dev = UUID_SIZE" "length (ag_pcId ag) = UUID_SIZE"
    and "t_isConnected (ag_transport ag)" "t_clientSocket (ag_transport ag) \<noteq> INVALID_SOCKET"
    and "run_state (InitiateUnlockRequest w now uninit dev ag) l = ((rec, ag'), l')" "t_isConnected (ag_transport ag')"
    and "f = out_frame UNLOCK_REQ (unlock_request_payload rec) (t_sequenceCounter (ag_transport ag))"
  shows "ChallengeRecord_wf rec" "length (unlock_request_payload rec) = 80" "length (f_payload f) \<le> MAX_PAYLOAD_SIZE"
    and "sent_on (t_clientSocket (ag_transport ag)) (drop (length l) l') = SerializeFrame f"
    and "challenge_of (ag_challengeStore ag') (c_sessionId rec) = Some rec" "c_state rec = OUTSTANDING"
proof -
  let ?t = "ag_transport ag"
  note eff = InitiateUnlockRequest_effect [OF assms(7)]
  obtain l1 ok t where g: "run_state (GenerateChallenge w (ag_cryptoEngine ag) now uninit dev (ag_pcId ag)) l = (rec, l1)"
    and s: "run_state (SendFrame w UNLOCK_REQ (unlock_request_payload rec) ?t) l1 = ((ok, t), l')" "ag_transport ag' = t"
    using assms(7,5) by (rule initiate_sends)
  obtain x where x: "l1 = l @ x" "sent_on (t_clientSocket ?t) x = []" using GenerateChallenge_silent [of w] g by (metis snd_conv)
  show wf: "ChallengeRecord_wf rec" using GenerateChallenge_wf [OF assms(2-4), of w "ag_cryptoEngine ag" now l] g by simp
  show len: "length (unlock_request_payload rec) = 80"
    using wf by (simp add: unlock_request_payload_layout) (simp add: ChallengeRecord_wf_def size_defs)
  then show "length (f_payload f) \<le> MAX_PAYLOAD_SIZE" by (simp add: assms(9) MAX_PAYLOAD_SIZE_def)
  from SendFrame_effect [OF assms(1) s(1) assms(5,6)] assms(8) s(2) len
  obtain y where "l' = l1 @ y" "sent_on (t_clientSocket ?t) y = SerializeFrame f"
    by (auto simp: assms(9) MAX_PAYLOAD_SIZE_def split: if_splits)
  with x show "sent_on (t_clientSocket (ag_transport ag)) (drop (length l) l') = SerializeFrame f" by simp
  show "c_state rec = OUTSTANDING" using eff(1) GenerateChallenge_fields by (simp add: Let_def)
  then show "challenge_of (ag_challengeStore ag') (c_sessionId rec) = Some rec"
    using eff(2) by (simp add: challenge_of_AddChallenge)
qed

text \<open>
  The request reaches the phone. If the transport is connected when \<open>InitiateUnlockRequest\<close> is
  called and still afterwards, and the bytes the network took arrive in pieces of any size, then the
  peer's listener gets exactly one frame for it: an \<open>UNLOCK_REQ\<close> with the sender's sequence number
  whose 80 bytes are the session, this PC, the challenge, the creation and the expiry time of the
  record the agent returns and has stored as outstanding.
\<close>

theorem request_delivered:
  assumes "send_counts w" "ChallengeRecord_wf uninit" "length dev = UUID_SIZE" "length (ag_pcId ag) = UUID_SIZE"
    and "t_isConnected (ag_transport ag)" "t_clientSocket (ag_transport ag) \<noteq> INVALID_SOCKET"
    and "run_state (InitiateUnlockRequest w now uninit dev ag) l = ((rec, ag'), l')" "t_isConnected (ag_transport ag')"
    and "t_listener r" "t_isRunning r" "t_isConnected r" "\<forall>(n, buf) \<in> set recvs. 0 < n"
    and "received recvs = sent_on (t_clientSocket (ag_transport ag)) (drop (length l) l')"
  shows "\<exists>f. ReceiverWorker deliver receiving lose_connection recvs [] (r, es) = Some (r, es @ [OnFrameReceived f])
    \<and> f_messageType f = UNLOCK_REQ \<and> f_sequenceNumber f = t_sequenceCounter (ag_transport ag)
    \<and> f_payload f = c_sessionId rec @ c_pcId rec @ c_challenge rec
        @ put_be64 (c_creationTimestampMs rec) @ put_be64 (c_expirationTimestampMs rec)
    \<and> length (f_payload f) = 80
    \<and> challenge_of (ag_challengeStore ag') (c_sessionId rec) = Some rec \<and> c_state rec = OUTSTANDING"
proof -
  let ?f = "out_frame UNLOCK_REQ (unlock_request_payload rec) (t_sequenceCounter (ag_transport ag))"
  note sent = request_sent [OF assms(1-8) refl]
  have "\<forall>f \<in> set [?f]. length (f_payload f) \<le> MAX_PAYLOAD_SIZE" using sent(3) by simp
  moreover have "received recvs = concat (map SerializeFrame [?f])" using sent(4) assms(13) by simp
  ultimately have "ReceiverWorker deliver receiving lose_connection recvs [] (r, es) = Some (r, es @ [OnFrameReceived (frame_norm ?f)])"
    using drain_frames [of "[?f]"] tcp.worker_frames [of recvs "(r, es)"] assms(9-12) by (simp add: receiving_def fold_deliver)
  then show ?thesis using sent unlock_request_payload_layout [OF sent(1)]
    by (intro exI [of _ "frame_norm ?f"]) (simp add: frame_norm_def out_frame_def)
qed

section \<open>What keeps a challenge answerable\<close>

text \<open>
  An operation takes the answer away only if it issues the same session again, unlocks on it,
  sweeps the store after its expiry, or registers or removes the device.
\<close>

definition disturbs :: "ChallengeRecord \<Rightarrow> agent_op \<Rightarrow> agent_result \<Rightarrow> bool" where
  "disturbs rec op res \<longleftrightarrow> issues_session op res (c_sessionId rec) \<or> unlocks op res (c_sessionId rec)
     \<or> (case op of AExpire now \<Rightarrow> c_expirationTimestampMs rec < now
        | ARegister deviceId name key \<Rightarrow> deviceId = c_deviceId rec
        | AUnregister deviceId \<Rightarrow> deviceId = c_deviceId rec | _ \<Rightarrow> False)"

fun undisturbed :: "env \<Rightarrow> ChallengeRecord \<Rightarrow> agent_op list \<Rightarrow> agent_state \<Rightarrow> bool" where
  "undisturbed w rec [] s \<longleftrightarrow> True"
| "undisturbed w rec (op # ops) s \<longleftrightarrow>
     \<not> disturbs rec op (fst (agent_step w op s)) \<and> undisturbed w rec ops (snd (agent_step w op s))"

text \<open>The challenge is in the store and its device has this key, on an agent with this engine and identity.\<close>

definition answerable :: "ChallengeRecord \<Rightarrow> handle \<Rightarrow> CryptoEngine \<Rightarrow> byte list \<Rightarrow> AgentService \<Rightarrow> bool" where
  "answerable rec key e pc ag \<longleftrightarrow> challenge_of (ag_challengeStore ag) (c_sessionId rec) = Some rec
     \<and> GetDevicePublicKey (c_deviceId rec) (ag_deviceRegistry ag) = key
     \<and> ag_cryptoEngine ag = e \<and> ag_pcId ag = pc"

lemma GetDevicePublicKey_map:
  "GetDevicePublicKey d reg = (case device_map reg d of Some (name, h) \<Rightarrow> h | None \<Rightarrow> NULL)"
  by (auto simp: GetDevicePublicKey_def device_map_def Let_def split: option.splits)

lemma GetDevicePublicKey_registered:
  assumes "registered_with w imp deviceId name reg l = ((ok, reg'), l')" "d \<noteq> deviceId"
  shows "GetDevicePublicKey d reg' = GetDevicePublicKey d reg"
  using assms
  by (auto simp: registered_with_def Let_def GetDevicePublicKey_map device_map_put split: prod.splits if_splits)

text \<open>The parts of the agent that its operations leave alone.\<close>

lemma initiate_rest:
  assumes "run_state (InitiateUnlockRequest w now uninit deviceId ag) l = ((rec, ag'), l')"
  shows "ag_deviceRegistry ag' = ag_deviceRegistry ag \<and> ag_cryptoEngine ag' = ag_cryptoEngine ag"
  using assms by (auto simp: InitiateUnlockRequest_def run_if Let_def split: if_splits prod.splits)

lemma frame_rest:
  assumes "run_state (AgentService_OnFrameReceived w now uninit frame ag) l = (Some (e, ag'), l')"
  shows "ag_deviceRegistry ag' = ag_deviceRegistry ag \<and> ag_cryptoEngine ag' = ag_cryptoEngine ag"
proof (cases "f_messageType frame = UNLOCK_RESP")
  case True
  with assms obtain err ag1 l1 ok t where
    p: "run_state (ProcessUnlockResponse w now uninit frame ag) l = (Some (err, ag1), l1)" and "ag' = ag1\<lparr>ag_transport := t\<rparr>"
    by (rule OnFrameReceived_unlock)
  moreover from p have "ag1 = ag \<or> ag1 = spend frame now ag"
    by (cases rule: ProcessUnlockResponse_cases) (auto simp: map_option_eq_Some split: if_splits)
  ultimately show ?thesis by (auto simp: spend_def Let_def)
qed (use assms in \<open>auto simp: AgentService_OnFrameReceived_def\<close>)

lemma answerable_step:
  assumes "answerable rec key e pc ag" "agent_step w op (Some (ag, l)) = (res, Some (ag', l'))" "\<not> disturbs rec op res"
  shows "answerable rec key e pc ag'"
proof (cases op)
  case (AInitiate now uninit deviceId)
  obtain r ag1 l1 where r: "run_state (InitiateUnlockRequest w now uninit deviceId ag) l = ((r, ag1), l1)"
    by (metis surj_pair)
  with assms AInitiate InitiateUnlockRequest_effect [OF r] initiate_rest [OF r] show ?thesis
    by (auto simp: answerable_def disturbs_def issues_session_def challenge_of_AddChallenge)
next
  case (AFrame now uninit frame)
  obtain r l1 where r: "run_state (AgentService_OnFrameReceived w now uninit frame ag) l = (r, l1)" by fastforce
  with assms(2) AFrame obtain e where e: "r = Some (e, ag')" "res = Decided e" by (auto split: option.splits)
  note r = r [unfolded e(1)]
  have "challenge_of (ag_challengeStore ag') (c_sessionId rec) = challenge_of (ag_challengeStore ag) (c_sessionId rec)"
  proof (cases "e = Some SUCCESS")
    case True
    with assms(3) have "c_sessionId rec \<noteq> p_sessionId (response_payload frame)"
      by (auto simp: disturbs_def unlocks_def AFrame e)
    with True OnFrameReceived_store [OF r] show ?thesis by (simp add: challenge_of_spend [OF _ refl])
  qed (use OnFrameReceived_store [OF r] in simp)
  with assms(1) OnFrameReceived_store [OF r] frame_rest [OF r] show ?thesis by (simp add: answerable_def)
next
  case (ARegister deviceId name key)
  obtain ok reg l1 where r: "registered_with w (ImportRawPublicKey w (ag_cryptoEngine ag) key) deviceId name (ag_deviceRegistry ag) l
      = ((ok, reg), l1)" by (metis surj_pair)
  with assms ARegister GetDevicePublicKey_registered [OF r, of "c_deviceId rec"] show ?thesis
    by (auto simp: AgentService_RegisterDevice_def RegisterDevice_run answerable_def disturbs_def)
next
  case (AUnregister deviceId)
  with assms show ?thesis
    by (auto simp: UnregisterDevice_run answerable_def disturbs_def GetDevicePublicKey_map device_map_erase Let_def)
next
  case (AExpire now)
  with assms show ?thesis
    by (auto simp: answerable_def disturbs_def challenge_of_ExpireChallenges expire_record_def)
next
  case AStop
  with assms show ?thesis by (auto simp: AgentService_Stop_def answerable_def split: prod.splits)
qed (use assms in \<open>auto simp: answerable_def Let_def\<close>)

lemma answerable_run:
  assumes "answerable rec key e pc ag" "undisturbed w rec ops (Some (ag, l))"
    "run_ops (agent_step w) ops (Some (ag, l)) = Some (ag', l')"
  shows "answerable rec key e pc ag'"
  using assms
proof (induction ops arbitrary: ag l)
  case (Cons op ops)
  have None_run: "run_ops (agent_step w) ops None = None" for ops by (induction ops) auto
  obtain res s1 where step: "agent_step w op (Some (ag, l)) = (res, s1)" by fastforce
  with Cons.prems(3) obtain ag1 l1 where s1: "s1 = Some (ag1, l1)" by (cases s1) (auto simp: None_run)
  with step Cons.prems(2,3) have "\<not> disturbs rec op res" "undisturbed w rec ops (Some (ag1, l1))"
    "run_ops (agent_step w) ops (Some (ag1, l1)) = Some (ag', l')" by simp_all
  with answerable_step [OF Cons.prems(1) step [unfolded s1]] show ?case by (blast intro: Cons.IH)
qed simp

section \<open>An honest answer unlocks\<close>

text \<open>
  Documented behaviour of CNG: hashing succeeds, and what \<open>BCryptFinishHash\<close> gives back is a function
  of the data the object was fed.
\<close>

definition sha_env :: "env \<Rightarrow> (byte list \<Rightarrow> byte list) \<Rightarrow> bool" where
  "sha_env w sha \<longleftrightarrow> (\<forall>l alg. a_ok (w l (Cng (BCryptCreateHash alg []))))
     \<and> (\<forall>l h d. a_ok (w l (Cng (BCryptHashData h d))))
     \<and> (\<forall>l h n. a_ok (w l (Cng (BCryptFinishHash h n))))
     \<and> (\<forall>l alg a d b. a_bytes (w (l @ [(Cng (BCryptCreateHash alg []), a), (Cng (BCryptHashData (a_handle a) d), b)])
          (Cng (BCryptFinishHash (a_handle a) 32))) = sha d)"

text \<open>CNG accepts the signature (raw or DER) of the payload's digest under the key.\<close>

definition cng_accepts :: "env \<Rightarrow> (byte list \<Rightarrow> byte list) \<Rightarrow> handle \<Rightarrow> byte list \<Rightarrow> byte list \<Rightarrow> bool" where
  "cng_accepts w sha key payload sig \<longleftrightarrow> (\<exists>raw. raw_signature sig = Some (True, raw)
     \<and> (\<forall>l. a_ok (w l (Cng (BCryptVerifySignature key (fill 32 (sha payload)) raw)))))"

lemma raw_signature_min: "raw_signature sig = Some (True, raw) \<Longrightarrow> 8 \<le> length sig"
  by (auto simp: raw_signature_def ConvertDerToRawRSignature_def split: if_splits)

lemma VerifySignature_accepts:
  assumes "sha_env w sha" "cng_accepts w sha key payload sig" "key \<noteq> NULL" "payload \<noteq> []"
    and "length payload < 2 ^ 32"
  shows "fst (run_state (VerifySignature w e key (Some payload) (Some sig)) l) = Some True"
proof -
  from assms(2) obtain raw where raw: "raw_signature sig = Some (True, raw)"
    and ok: "\<And>l. a_ok (w l (Cng (BCryptVerifySignature key (fill 32 (sha payload)) raw)))"
    by (auto simp: cng_accepts_def)
  have "sig \<noteq> []" using raw_signature_min [OF raw] by auto
  with assms(1,3,4) raw ok show ?thesis
    unfolding VerifySignature_alt sha_env_def dword_blob_id [OF assms(5)] by (simp add: run_if)
qed

lemma honest_precheck:
  assumes "answerable rec key e pc ag" "c_state rec = OUTSTANDING" "c_pcId rec = pc" "key \<noteq> NULL"
    and "AuthPayload_current p" "f_payload frame = Serialize p @ sig" "8 \<le> length sig" "now \<le> c_expirationTimestampMs rec"
    and "p_sessionId p = c_sessionId rec" "p_deviceId p = c_deviceId rec" "p_challenge p = c_challenge rec"
  shows "precheck now frame ag = None"
proof -
  note fields = response_payload_Serialize [OF assms(5,6)]
  have "verdict (challenge_of (ag_challengeStore ag) (p_sessionId p)) (p_deviceId p) (ag_pcId ag) (p_challenge p) now = SUCCESS"
    unfolding verdict_SUCCESS_iff using assms by (auto simp: answerable_def)
  with assms fields show ?thesis by (auto simp: precheck_def answerable_def Let_def)
qed

lemma honest_answer:
  assumes "agent_step w (AInitiate t0 uninit dev) (Some (ag, l)) = (Issued rec, Some (ag1, l1))"
    and "GetDevicePublicKey dev (ag_deviceRegistry ag) = key" "key \<noteq> NULL"
    and "undisturbed w rec ops (Some (ag1, l1))" "run_ops (agent_step w) ops (Some (ag1, l1)) = Some (ag2, l2)"
    and "AuthPayload_current p" "p_sessionId p = c_sessionId rec" "p_deviceId p = dev" "p_challenge p = c_challenge rec"
    and "f_messageType frame = UNLOCK_RESP" "f_payload frame = Serialize p @ sig" "now \<le> t0 + 30000"
    and "sha_env w sha" "cng_accepts w sha key (Serialize p) sig"
  shows "\<exists>ag3 l3. agent_step w (AFrame now uninit' frame) (Some (ag2, l2)) = (Decided (Some SUCCESS), Some (ag3, l3))
    \<and> challenge_of (ag_challengeStore ag3) (c_sessionId rec) = Some (rec\<lparr>c_state := CONSUMED\<rparr>)"
proof -
  have i: "run_state (InitiateUnlockRequest w t0 uninit dev ag) l = ((rec, ag1), l1)"
    using assms(1) by (auto simp: Let_def prod_eq_iff)
  note eff = InitiateUnlockRequest_effect [OF i]
  from eff(1) GenerateChallenge_fields [of w "ag_cryptoEngine ag" t0 uninit dev "ag_pcId ag" l]
  have rec: "c_deviceId rec = dev" "c_pcId rec = ag_pcId ag" "c_expirationTimestampMs rec = t0 + 30000" "c_state rec = OUTSTANDING"
    by (simp_all add: Let_def DEFAULT_CHALLENGE_TTL_MS_def)
  have "answerable rec key (ag_cryptoEngine ag) (ag_pcId ag) ag1"
    using eff initiate_rest [OF i] assms(2) rec by (simp add: answerable_def challenge_of_AddChallenge)
  from answerable_run [OF this assms(4,5)] have ans: "answerable rec key (ag_cryptoEngine ag) (ag_pcId ag) ag2" .
  have sig: "8 \<le> length sig" using assms(14) raw_signature_min by (auto simp: cng_accepts_def)
  have pre: "precheck now frame ag2 = None"
    by (rule honest_precheck [OF ans]) (use assms rec sig in auto)
  note fields = response_payload_Serialize [OF assms(6,11)]
  have "length (Serialize p) = 108" using fields(3,4) by (metis length_take min.absorb2 le_add1)
  then have "Serialize p \<noteq> []" "length (Serialize p) < 2 ^ 32" by auto
  from VerifySignature_accepts [OF assms(13,14,3) this]
  obtain l3 where v: "run_state (VerifySignature w (ag_cryptoEngine ag2) key (Some (Serialize p)) (Some sig)) l2 = (Some True, l3)"
    by (metis prod.collapse)
  have "drop 108 (f_payload frame) = sig" using fields(3,4) assms(11) by (metis append_eq_conv_conj append_take_drop_id same_append_eq)
  with pre v fields ans assms(8) rec(1)
  have "run_state (ProcessUnlockResponse w now uninit' frame ag2) l2 = (Some (SUCCESS, spend frame now ag2), l3)"
    by (simp add: ProcessUnlockResponse_view answerable_def)
  with assms(10) challenge_of_spend [OF pre refl, of "c_sessionId rec"] ans show ?thesis
    by (auto simp: AgentService_OnFrameReceived_def Let_def fields assms(7) answerable_def split: prod.split)
qed

text \<open>
  C5. An honest answer unlocks. The agent issues a challenge for a registered device; then it serves
  any operations that do not themselves settle this challenge or touch this device (other requests,
  other devices, malformed or badly signed answers to this very challenge, reconnections), staying in defined
  behaviour; then a response arrives whose payload is the request's own, field by field (session, device,
  PC identifier, challenge bytes and expiry of the record the agent issued), no later than the expiry, with a signature that CNG accepts under the device's key. The agent decides
  \<open>SUCCESS\<close>, and the challenge is consumed. No flood of wrong answers can prevent it.
\<close>

theorem honest_unlock:
  assumes "agent_step w (AInitiate t0 uninit dev) (Some (ag, l)) = (Issued rec, Some (ag1, l1))"
    and "GetDevicePublicKey dev (ag_deviceRegistry ag) = key" "key \<noteq> NULL"
    and "undisturbed w rec ops (Some (ag1, l1))" "run_ops (agent_step w) ops (Some (ag1, l1)) = Some (ag2, l2)"
    and "AuthPayload_current p" "p_sessionId p = c_sessionId rec" "p_deviceId p = dev" "p_challenge p = c_challenge rec"
    and "p_pcId p = c_pcId rec" "p_expirationTimestampMs p = c_expirationTimestampMs rec"
    and "f_messageType frame = UNLOCK_RESP" "f_payload frame = Serialize p @ sig" "now \<le> t0 + 30000"
    and "sha_env w sha" "cng_accepts w sha key (Serialize p) sig"
  shows "\<exists>ag3 l3. agent_step w (AFrame now uninit' frame) (Some (ag2, l2)) = (Decided (Some SUCCESS), Some (ag3, l3))
    \<and> challenge_of (ag_challengeStore ag3) (c_sessionId rec) = Some (rec\<lparr>c_state := CONSUMED\<rparr>)"
  using assms(1-9,12-) by (rule honest_answer)

text \<open>
  The sample: the request at clock 1000, an answer with the wrong challenge bytes, a sweep in time,
  then the answer at clock 2000.
\<close>

definition wrong_response :: TransportFrame where
  "wrong_response = sample_response\<lparr>f_payload := Serialize (sample_payload\<lparr>p_challenge := replicate 32 0\<rparr>) @ replicate 64 1\<rparr>"

lemma wrong_rejected: "\<exists>e. e \<noteq> SUCCESS \<and> precheck 1500 wrong_response sample_agent = Some e"
proof -
  let ?p = "sample_payload\<lparr>p_challenge := replicate 32 0\<rparr>"
  have "AuthPayload_current ?p" using sample_payload_current
    by (simp add: AuthPayload_current_def AuthPayload_wf_def size_defs)
  then have fields: "response_payload wrong_response = ?p"
    using response_payload_Serialize(1) [of ?p wrong_response] by (simp add: wrong_response_def)
  have "challenge_of (ag_challengeStore sample_agent) (replicate 16 0xAA) = Some (sample_record\<lparr>c_state := OUTSTANDING\<rparr>)"
    by (simp add: sample_agent_def challenge_of_AddChallenge sample_record_def)
  moreover have "c_challenge sample_record \<noteq> replicate 32 0" by (simp add: sample_record_def)
  ultimately have "verdict (challenge_of (ag_challengeStore sample_agent) (p_sessionId ?p)) (p_deviceId ?p)
      (ag_pcId sample_agent) (p_challenge ?p) 1500 \<noteq> SUCCESS"
    by (auto simp: verdict_SUCCESS_iff sample_payload_def)
  then show ?thesis by (auto simp: precheck_def fields Let_def)
qed

definition echo_payload :: AuthPayload where
  "echo_payload = sample_payload\<lparr>p_pcId := replicate 16 0x99, p_expirationTimestampMs := 31000\<rparr>"

definition echo_response :: TransportFrame where
  "echo_response = sample_response\<lparr>f_payload := Serialize echo_payload @ replicate 64 1\<rparr>"

lemma echo_payload_current: "AuthPayload_current echo_payload"
  using sample_payload_current by (simp add: echo_payload_def AuthPayload_current_def AuthPayload_wf_def size_defs)

theorem honest_unlock_witness:
  "\<exists>rec ag1 l1 ag2 l2 ag3 l3.
     agent_step yes_env (AInitiate 1000 sample_record (replicate 16 0x11)) (Some (sample_agent\<lparr>ag_challengeStore := []\<rparr>, []))
       = (Issued rec, Some (ag1, l1))
     \<and> run_ops (agent_step yes_env) [AFrame 1500 sample_record wrong_response, AExpire 1800] (Some (ag1, l1)) = Some (ag2, l2)
     \<and> agent_step yes_env (AFrame 2000 sample_record echo_response) (Some (ag2, l2)) = (Decided (Some SUCCESS), Some (ag3, l3))"
proof -
  let ?rec = "sample_record\<lparr>c_state := OUTSTANDING\<rparr>" and ?ops = "[AFrame 1500 sample_record wrong_response, AExpire 1800]"
  obtain l1 where i: "agent_step yes_env (AInitiate 1000 sample_record (replicate 16 0x11))
     (Some (sample_agent\<lparr>ag_challengeStore := []\<rparr>, [])) = (Issued ?rec, Some (sample_agent, l1))"
    using initiate_sample by blast
  obtain e where e: "e \<noteq> SUCCESS" "precheck 1500 wrong_response sample_agent = Some e" using wrong_rejected by blast
  then have "run_state (ProcessUnlockResponse yes_env 1500 sample_record wrong_response sample_agent) l1 = (Some (e, sample_agent), l1)"
    by (simp add: ProcessUnlockResponse_view)
  moreover have "f_messageType wrong_response = UNLOCK_RESP" by (simp add: wrong_response_def sample_response_def)
  ultimately obtain ag2 l2 where f: "agent_step yes_env (AFrame 1500 sample_record wrong_response) (Some (sample_agent, l1))
      = (Decided (Some e), Some (ag2, l2))"
    by (cases "run_state (SendFrame yes_env (if e = SUCCESS then UNLOCK_RESP else ERROR_MSG)
        (put_be16 (ErrorCode_value e)) (ag_transport sample_agent)) l1")
      (auto simp: AgentService_OnFrameReceived_def split: prod.splits)
  have quiet: "undisturbed yes_env ?rec ?ops (Some (sample_agent, l1))"
    using e(1) f by (simp add: disturbs_def issues_session_def unlocks_def sample_record_def del: agent_step.simps(3))
  obtain ag3 l3 where run: "run_ops (agent_step yes_env) ?ops (Some (sample_agent, l1)) = Some (ag3, l3)"
    using f by (simp del: agent_step.simps(3))
  have key: "GetDevicePublicKey (replicate 16 0x11) (ag_deviceRegistry (sample_agent\<lparr>ag_challengeStore := []\<rparr>)) = 7" "(7 :: handle) \<noteq> NULL"
    by (simp_all add: sample_agent_def GetDevicePublicKey_def RegisteredDevice_init_def)
  have p: "p_sessionId echo_payload = c_sessionId ?rec" "p_deviceId echo_payload = replicate 16 0x11"
    "p_challenge echo_payload = c_challenge ?rec" "p_pcId echo_payload = c_pcId ?rec"
    "p_expirationTimestampMs echo_payload = c_expirationTimestampMs ?rec" "f_messageType echo_response = UNLOCK_RESP"
    "f_payload echo_response = Serialize echo_payload @ replicate 64 1"
    by (simp_all add: echo_payload_def echo_response_def sample_payload_def sample_record_def sample_response_def)
  have cng: "sha_env yes_env (\<lambda>d. [])" "cng_accepts yes_env (\<lambda>d. []) 7 (Serialize echo_payload) (replicate 64 1)"
    by (simp_all add: sha_env_def cng_accepts_def yes_env_def raw_signature_def)
  from honest_unlock [OF i key quiet run echo_payload_current p _ cng, of 2000] i run
  show ?thesis by fastforce
qed

text \<open>A network that takes everything it is given.\<close>

definition all_env :: env where
  "all_env l c = \<lparr>a_ok = True, a_handle = 7, a_bytes = [],
     a_num = (case c of Sock (WinSend s bs) \<Rightarrow> int (length bs) | _ \<Rightarrow> 0)\<rparr>"

lemma SendFrame_all_env:
  assumes "t_isConnected t" "length payload \<le> MAX_PAYLOAD_SIZE"
  shows "t_isConnected (snd (fst (run_state (SendFrame all_env ty payload t) l)))"
proof -
  have "fst (send_loop all_env s bs (int (length bs)) l)" for s bs l by (subst send_loop.simps) simp
  then have "fst (send_loop all_env s bs 0 l)" if "bs \<noteq> []" for s bs l
    using that by (subst send_loop.simps) (simp add: all_env_def Let_def)
  moreover have "SerializeFrame (out_frame ty payload seq) \<noteq> []" for seq
    using length_SerializeFrame [of "out_frame ty payload seq"] assms(2) by auto
  ultimately show ?thesis using assms by (simp add: SendFrame_run Let_def)
qed

lemma initiate_all_env:
  obtains rec ag' l' where "run_state (InitiateUnlockRequest all_env 1000 sample_record (replicate 16 0x11)
      (sample_agent\<lparr>ag_transport := connected_transport\<rparr>)) [] = ((rec, ag'), l')"
    "t_isConnected (ag_transport ag')" "length (ag_pcId sample_agent) = UUID_SIZE" "ChallengeRecord_wf sample_record" "send_counts all_env"
proof -
  let ?ag = "sample_agent\<lparr>ag_transport := connected_transport\<rparr>"
  obtain rec ag' l' where i: "run_state (InitiateUnlockRequest all_env 1000 sample_record (replicate 16 0x11) ?ag) [] = ((rec, ag'), l')"
    by (metis surj_pair)
  have wf: "ChallengeRecord_wf sample_record" by (simp add: ChallengeRecord_wf_def sample_record_def size_defs)
  have pc: "length (ag_pcId sample_agent) = UUID_SIZE" by (simp add: sample_agent_def AgentService_init_def size_defs)
  have "ChallengeRecord_wf rec"
    using GenerateChallenge_wf [OF wf _ pc, of "replicate 16 0x11"] InitiateUnlockRequest_effect(1) [OF i] by (simp add: size_defs)
  then have "length (unlock_request_payload rec) \<le> MAX_PAYLOAD_SIZE"
    by (simp add: unlock_request_payload_layout) (simp add: ChallengeRecord_wf_def size_defs MAX_PAYLOAD_SIZE_def)
  moreover have on: "t_isConnected (ag_transport ?ag)" by simp
  moreover obtain l1 ok t where s: "run_state (SendFrame all_env UNLOCK_REQ (unlock_request_payload rec) (ag_transport ?ag)) l1 = ((ok, t), l')"
    "ag_transport ag' = t" using i on by (rule initiate_sends)
  ultimately have "t_isConnected (ag_transport ag')"
    using SendFrame_all_env [of "ag_transport ?ag" "unlock_request_payload rec" UNLOCK_REQ l1] unfolding s by simp
  moreover have "send_counts all_env" by (simp add: send_counts_def all_env_def)
  ultimately show thesis using that i wf pc by blast
qed

theorem request_delivered_witness:
  "\<exists>rec ag' l' f recvs. run_state (InitiateUnlockRequest all_env 1000 sample_record (replicate 16 0x11)
        (sample_agent\<lparr>ag_transport := connected_transport\<rparr>)) [] = ((rec, ag'), l')
     \<and> received recvs = sent_on 3 l'
     \<and> ReceiverWorker deliver receiving lose_connection recvs [] (connected_transport, []) = Some (connected_transport, [OnFrameReceived f])
     \<and> f_messageType f = UNLOCK_REQ \<and> length (f_payload f) = 80"
proof -
  obtain rec ag' l' where i: "run_state (InitiateUnlockRequest all_env 1000 sample_record (replicate 16 0x11)
      (sample_agent\<lparr>ag_transport := connected_transport\<rparr>)) [] = ((rec, ag'), l')"
    and on: "t_isConnected (ag_transport ag')" "length (ag_pcId sample_agent) = UUID_SIZE" "ChallengeRecord_wf sample_record" "send_counts all_env"
    by (rule initiate_all_env)
  obtain recvs where recvs: "received recvs = sent_on 3 l'" "\<forall>(n, buf) \<in> set recvs. 0 < n"
    using that [of "map (\<lambda>b. (1, [b])) (sent_on 3 l')"] by (auto simp: received_single)
  obtain f where "ReceiverWorker deliver receiving lose_connection recvs [] (connected_transport, [])
      = Some (connected_transport, [OnFrameReceived f])" "f_messageType f = UNLOCK_REQ" "length (f_payload f) = 80"
    using request_delivered [OF on(4,3) _ _ _ _ i, of connected_transport recvs "[]"] on recvs
    by (auto simp: size_defs)
  with i recvs(1) show ?thesis by blast
qed

end
