(* ===== verification/Shutdown.thy ===== *)
theory Shutdown
  imports Main
begin

text \<open>
  The contract of a shutdown that joins a worker thread, for the two classes that have one
  (\<open>TcpTransport::Close\<close> and \<open>NamedPipeServer::Stop\<close>). \<open>step\<close> is every step of the threads and of the
  peers; \<open>own\<close> is those steps the class relies on to finish. Once the class is stopping, every step
  uses up some of \<open>rank\<close>, and some step of \<open>own\<close> is possible until the call has returned.
\<close>

locale shutdown =
  fixes step own :: "'s \<Rightarrow> 's \<Rightarrow> bool"
    and inv stopping finished :: "'s \<Rightarrow> bool"
    and rank :: "'s \<Rightarrow> nat"
  assumes own_step: "own s s' \<Longrightarrow> step s s'"
    and step_inv: "inv s \<Longrightarrow> step s s' \<Longrightarrow> inv s'"
    and step_rank: "inv s \<Longrightarrow> stopping s \<Longrightarrow> step s s' \<Longrightarrow> stopping s' \<and> rank s' < rank s"
    and own_progress: "inv s \<Longrightarrow> stopping s \<Longrightarrow> \<not> finished s \<Longrightarrow> \<exists>s'. own s s'"
begin

lemma steps_rank:
  "(step ^^ n) s s' \<Longrightarrow> inv s \<Longrightarrow> stopping s \<Longrightarrow> n + rank s' \<le> rank s \<and> inv s' \<and> stopping s'"
proof (induction n arbitrary: s')
  case (Suc n)
  then obtain t where "(step ^^ n) s t" "step t s'" by auto
  with Suc step_inv [of t s'] step_rank [of t s'] show ?case by fastforce
qed simp

text \<open>The class can always finish by the steps of \<open>own\<close>.\<close>

lemma can_finish: "inv s \<Longrightarrow> stopping s \<Longrightarrow> \<exists>s'. own\<^sup>*\<^sup>* s s' \<and> finished s'"
proof (induction "rank s" arbitrary: s rule: less_induct)
  case less
  show ?case
  proof (cases "finished s")
    case False
    then obtain t where t: "own s t" using own_progress less.prems by blast
    then have "rank t < rank s" "stopping t" "inv t"
      using step_rank step_inv own_step less.prems by blast+
    with less.hyps obtain s' where "own\<^sup>*\<^sup>* t s'" "finished s'" by blast
    with t show ?thesis by (blast intro: converse_rtranclp_into_rtranclp)
  qed blast
qed

text \<open>
  No interleaving is longer than the rank; wherever one is, the steps of \<open>own\<close> alone can bring it
  to the end.
\<close>

lemma completes:
  assumes "inv s" "stopping s" "(step ^^ n) s s'"
  shows "n \<le> rank s \<and> inv s' \<and> (finished s' \<or> (\<exists>s''. own s' s'')) \<and> (\<exists>s''. own\<^sup>*\<^sup>* s' s'' \<and> finished s'')"
  using steps_rank [OF assms(3,1,2)] own_progress can_finish by auto

end

end
