(* ===== verification/Tcp_Shutdown.thy ===== *)
theory Tcp_Shutdown
  imports Tcp_Transport Shutdown
begin

text \<open>
  \<open>TcpTransport::Close\<close> against the worker thread it joins (\<open>windows/common/TcpTransport.cpp\<close>). The
  threads share the atomic flags \<open>m_isRunning\<close> and \<open>m_isConnected\<close> and the plain members
  \<open>m_listenSocket\<close> and \<open>m_clientSocket\<close>, without a lock. Each statement that reads or writes one of
  them, and each blocking call, is one step; the steps of the threads and of the peer interleave in
  every order. (In \<open>Tcp_Transport\<close> the worker's bodies are run to completion one at a time.)
\<close>

section \<open>The threads\<close>

text \<open>Where \<open>ListenerWorker\<close> and the \<open>ReceiverWorker\<close> it calls are, by the statement to execute next.\<close>

datatype tcp_worker_pc =
    LAccept             \<comment> \<open>the call \<open>accept(m_listenSocket, ...)\<close>\<close>
  | LWait handle        \<comment> \<open>blocked in that call\<close>
  | LTest handle        \<comment> \<open>\<open>if (acceptedSocket == INVALID_SOCKET || !m_isRunning) return\<close>\<close>
  | LStore handle       \<comment> \<open>\<open>m_clientSocket = acceptedSocket\<close>\<close>
  | LConnected          \<comment> \<open>\<open>m_isConnected = true\<close> and the callback\<close>
  | RRunning            \<comment> \<open>\<open>while (m_isRunning && ...)\<close>\<close>
  | RConnected          \<comment> \<open>\<open>while (... && m_isConnected)\<close>\<close>
  | RRecv               \<comment> \<open>the call \<open>recv(m_clientSocket, ...)\<close>\<close>
  | RWait handle        \<comment> \<open>blocked in that call\<close>
  | RFrames             \<comment> \<open>the inner loop over the received bytes\<close>
  | RLost               \<comment> \<open>\<open>m_isConnected = false\<close>, the callback and \<open>break\<close>\<close>
  | RDone               \<comment> \<open>the thread has ended\<close>

text \<open>Where the thread that calls \<open>Close\<close> is.\<close>

datatype close_pc =
    CIdle               \<comment> \<open>\<open>Close\<close> has not been called\<close>
  | CConnected          \<comment> \<open>\<open>m_isConnected = false\<close>\<close>
  | CListen             \<comment> \<open>\<open>if (m_listenSocket != INVALID_SOCKET)\<close>\<close>
  | CListenClose        \<comment> \<open>\<open>closesocket(m_listenSocket)\<close>\<close>
  | CListenReset        \<comment> \<open>\<open>m_listenSocket = INVALID_SOCKET\<close>\<close>
  | CClient             \<comment> \<open>\<open>if (m_clientSocket != INVALID_SOCKET)\<close>\<close>
  | CClientClose        \<comment> \<open>\<open>closesocket(m_clientSocket)\<close>\<close>
  | CClientReset        \<comment> \<open>\<open>m_clientSocket = INVALID_SOCKET\<close>\<close>
  | CJoin               \<comment> \<open>\<open>m_workerThread.join()\<close>\<close>
  | CDone

record tcp_threads =
  x_listen :: handle
  x_client :: handle
  x_isRunning :: bool
  x_isConnected :: bool
  x_worker :: tcp_worker_pc
  x_close :: close_pc
  x_open :: "handle set"    \<comment> \<open>the sockets that are open\<close>
  x_stray :: bool           \<comment> \<open>some \<open>closesocket\<close> was given a socket that was not open\<close>

text \<open>The state \<open>StartListener\<close> leaves, with the thread on \<open>ListenerWorker\<close>, and the one \<open>Connect\<close> leaves.\<close>

definition tcp_listening :: "handle \<Rightarrow> tcp_threads" where
  "tcp_listening s = \<lparr>x_listen = s, x_client = INVALID_SOCKET, x_isRunning = True, x_isConnected = False,
     x_worker = LAccept, x_close = CIdle, x_open = {s}, x_stray = False\<rparr>"

definition tcp_connected :: "handle \<Rightarrow> tcp_threads" where
  "tcp_connected s = \<lparr>x_listen = INVALID_SOCKET, x_client = s, x_isRunning = True, x_isConnected = True,
     x_worker = RRunning, x_close = CIdle, x_open = {s}, x_stray = False\<rparr>"

definition closesocket :: "handle \<Rightarrow> tcp_threads \<Rightarrow> tcp_threads" where
  "closesocket h x = x\<lparr>x_open := x_open x - {h}, x_stray := (x_stray x \<or> h \<notin> x_open x)\<rparr>"

text \<open>
  The worker. A blocking call returns an error once its socket is not open; while it is, the call
  waits for the peer. The inner loop over the received bytes ends with or without the oversized
  frame that clears \<open>m_isConnected\<close>.
\<close>

inductive tcp_worker_step :: "tcp_threads \<Rightarrow> tcp_threads \<Rightarrow> bool" where
  accept: "x_worker x = LAccept \<Longrightarrow> tcp_worker_step x (x\<lparr>x_worker := LWait (x_listen x)\<rparr>)"
| accept_fails: "x_worker x = LWait s \<Longrightarrow> s \<notin> x_open x \<Longrightarrow> tcp_worker_step x (x\<lparr>x_worker := LTest INVALID_SOCKET\<rparr>)"
| accepted: "x_worker x = LTest s \<Longrightarrow>
    tcp_worker_step x (x\<lparr>x_worker := (if s = INVALID_SOCKET \<or> \<not> x_isRunning x then RDone else LStore s)\<rparr>)"
| store: "x_worker x = LStore s \<Longrightarrow> tcp_worker_step x (x\<lparr>x_client := s, x_worker := LConnected\<rparr>)"
| connected: "x_worker x = LConnected \<Longrightarrow> tcp_worker_step x (x\<lparr>x_isConnected := True, x_worker := RRunning\<rparr>)"
| test_running: "x_worker x = RRunning \<Longrightarrow> tcp_worker_step x (x\<lparr>x_worker := (if x_isRunning x then RConnected else RDone)\<rparr>)"
| test_connected: "x_worker x = RConnected \<Longrightarrow> tcp_worker_step x (x\<lparr>x_worker := (if x_isConnected x then RRecv else RDone)\<rparr>)"
| recv: "x_worker x = RRecv \<Longrightarrow> tcp_worker_step x (x\<lparr>x_worker := RWait (x_client x)\<rparr>)"
| recv_fails: "x_worker x = RWait s \<Longrightarrow> s \<notin> x_open x \<Longrightarrow> tcp_worker_step x (x\<lparr>x_worker := RLost\<rparr>)"
| frames: "x_worker x = RFrames \<Longrightarrow> tcp_worker_step x (x\<lparr>x_worker := RRunning\<rparr>)"
| oversize: "x_worker x = RFrames \<Longrightarrow> tcp_worker_step x (x\<lparr>x_isConnected := False, x_worker := RRunning\<rparr>)"
| lost: "x_worker x = RLost \<Longrightarrow> tcp_worker_step x (x\<lparr>x_isConnected := False, x_worker := RDone\<rparr>)"

inductive close_step :: "tcp_threads \<Rightarrow> tcp_threads \<Rightarrow> bool" where
  running: "x_close x = CIdle \<Longrightarrow> close_step x (x\<lparr>x_isRunning := False, x_close := CConnected\<rparr>)"
| disconnect: "x_close x = CConnected \<Longrightarrow> close_step x (x\<lparr>x_isConnected := False, x_close := CListen\<rparr>)"
| listen: "x_close x = CListen \<Longrightarrow>
    close_step x (x\<lparr>x_close := (if x_listen x \<noteq> INVALID_SOCKET then CListenClose else CClient)\<rparr>)"
| listen_close: "x_close x = CListenClose \<Longrightarrow> close_step x ((closesocket (x_listen x) x)\<lparr>x_close := CListenReset\<rparr>)"
| listen_reset: "x_close x = CListenReset \<Longrightarrow> close_step x (x\<lparr>x_listen := INVALID_SOCKET, x_close := CClient\<rparr>)"
| client: "x_close x = CClient \<Longrightarrow>
    close_step x (x\<lparr>x_close := (if x_client x \<noteq> INVALID_SOCKET then CClientClose else CJoin)\<rparr>)"
| client_close: "x_close x = CClientClose \<Longrightarrow> close_step x ((closesocket (x_client x) x)\<lparr>x_close := CClientReset\<rparr>)"
| client_reset: "x_close x = CClientReset \<Longrightarrow> close_step x (x\<lparr>x_client := INVALID_SOCKET, x_close := CJoin\<rparr>)"
| join: "x_close x = CJoin \<Longrightarrow> x_worker x = RDone \<Longrightarrow> close_step x (x\<lparr>x_close := CDone\<rparr>)"

text \<open>
  The peer and the network: a connection for \<open>accept\<close> (with a socket number that is not in use), a
  failing \<open>accept\<close>, bytes for \<open>recv\<close>, and the end or the loss of the connection.
\<close>

inductive peer_step :: "tcp_threads \<Rightarrow> tcp_threads \<Rightarrow> bool" where
  connects: "x_worker x = LWait l \<Longrightarrow> l \<in> x_open x \<Longrightarrow> s \<notin> x_open x \<Longrightarrow> s \<noteq> INVALID_SOCKET \<Longrightarrow>
    peer_step x (x\<lparr>x_open := insert s (x_open x), x_worker := LTest s\<rparr>)"
| refused: "x_worker x = LWait l \<Longrightarrow> peer_step x (x\<lparr>x_worker := LTest INVALID_SOCKET\<rparr>)"
| sends: "x_worker x = RWait s \<Longrightarrow> s \<in> x_open x \<Longrightarrow> peer_step x (x\<lparr>x_worker := RFrames\<rparr>)"
| ends: "x_worker x = RWait s \<Longrightarrow> s \<in> x_open x \<Longrightarrow> peer_step x (x\<lparr>x_worker := RLost\<rparr>)"

definition own_step :: "tcp_threads \<Rightarrow> tcp_threads \<Rightarrow> bool" where
  "own_step x x' \<longleftrightarrow> tcp_worker_step x x' \<or> close_step x x'"

definition tcp_thread_step :: "tcp_threads \<Rightarrow> tcp_threads \<Rightarrow> bool" where
  "tcp_thread_step x x' \<longleftrightarrow> own_step x x' \<or> peer_step x x'"

inductive tcp_reach :: "tcp_threads \<Rightarrow> bool" where
  listening: "s \<noteq> INVALID_SOCKET \<Longrightarrow> tcp_reach (tcp_listening s)"
| connected: "s \<noteq> INVALID_SOCKET \<Longrightarrow> tcp_reach (tcp_connected s)"
| step: "tcp_reach x \<Longrightarrow> tcp_thread_step x x' \<Longrightarrow> tcp_reach x'"

section \<open>What holds in every interleaving\<close>

text \<open>The sockets each party still answers for: \<open>Close\<close> the two members, the worker what it has accepted.\<close>

definition listen_owned :: "tcp_threads \<Rightarrow> handle set" where
  "listen_owned x = (if x_close x \<in> {CIdle, CConnected, CListen, CListenClose} then {x_listen x} - {INVALID_SOCKET} else {})"

definition client_owned :: "tcp_threads \<Rightarrow> handle set" where
  "client_owned x = (if x_close x = CClientReset then {} else {x_client x} - {INVALID_SOCKET})"

fun in_hand :: "tcp_worker_pc \<Rightarrow> handle set" where
  "in_hand (LTest s) = {s} - {INVALID_SOCKET}"
| "in_hand (LStore s) = {s}"
| "in_hand _ = {}"

text \<open>Before \<open>m_clientSocket\<close> is assigned; and between a test of \<open>m_isRunning\<close> that succeeded and the next.\<close>

fun before_store :: "tcp_worker_pc \<Rightarrow> bool" where
  "before_store LAccept = True" | "before_store (LWait s) = True" | "before_store (LTest s) = True"
| "before_store (LStore s) = True" | "before_store _ = False"

fun in_loop :: "tcp_worker_pc \<Rightarrow> bool" where
  "in_loop RConnected = True" | "in_loop RRecv = True" | "in_loop (RWait s) = True"
| "in_loop RFrames = True" | "in_loop RLost = True" | "in_loop _ = False"

definition sockets_inv :: "tcp_threads \<Rightarrow> bool" where
  "sockets_inv x \<longleftrightarrow> listen_owned x \<union> client_owned x \<union> in_hand (x_worker x) \<subseteq> x_open x
     \<and> (x_worker x \<noteq> RDone \<longrightarrow> x_open x \<subseteq> listen_owned x \<union> client_owned x \<union> in_hand (x_worker x))
     \<and> INVALID_SOCKET \<notin> x_open x \<and> \<not> x_stray x
     \<and> listen_owned x \<inter> client_owned x = {} \<and> in_hand (x_worker x) \<inter> listen_owned x = {}"

definition members_inv :: "tcp_threads \<Rightarrow> bool" where
  "members_inv x \<longleftrightarrow> (before_store (x_worker x) \<longrightarrow> x_client x = INVALID_SOCKET)
     \<and> (\<not> before_store (x_worker x) \<and> x_worker x \<noteq> RDone \<and> x_close x \<notin> {CJoin, CDone} \<longrightarrow> x_client x \<noteq> INVALID_SOCKET)
     \<and> (in_loop (x_worker x) \<and> x_close x = CJoin \<longrightarrow> x_client x = INVALID_SOCKET)
     \<and> (x_close x = CListenClose \<longrightarrow> x_listen x \<noteq> INVALID_SOCKET)
     \<and> (x_close x \<in> {CClientClose, CClientReset} \<longrightarrow> x_client x \<noteq> INVALID_SOCKET)
     \<and> (x_close x \<in> {CClient, CClientClose, CClientReset, CJoin, CDone} \<longrightarrow> x_listen x = INVALID_SOCKET)
     \<and> (x_isRunning x \<longleftrightarrow> x_close x = CIdle)
     \<and> (x_close x = CDone \<longrightarrow> x_worker x = RDone)"

definition tcp_inv :: "tcp_threads \<Rightarrow> bool" where
  "tcp_inv x \<longleftrightarrow> sockets_inv x \<and> members_inv x"

lemmas tcp_inv_defs = tcp_inv_def sockets_inv_def members_inv_def listen_owned_def client_owned_def closesocket_def

lemma in_hand_before: "h \<in> in_hand pc \<Longrightarrow> before_store pc"
  by (cases pc) auto

lemma members_inv_worker: "tcp_worker_step x x' \<Longrightarrow> tcp_inv x \<Longrightarrow> members_inv x'"
  by (induction rule: tcp_worker_step.induct; cases "x_close x") (auto simp: tcp_inv_def sockets_inv_def members_inv_def)

text \<open>Most steps of the worker and the peer leave the sockets alone.\<close>

lemma sockets_inv_move:
  assumes "sockets_inv x" "in_hand pc \<subseteq> in_hand (x_worker x)" "x_worker x \<noteq> RDone"
    "pc = RDone \<or> in_hand (x_worker x) \<subseteq> in_hand pc"
  shows "sockets_inv (x\<lparr>x_worker := pc\<rparr>)" "sockets_inv (x\<lparr>x_isConnected := b, x_worker := pc\<rparr>)"
proof -
  have own: "listen_owned (x\<lparr>x_worker := pc\<rparr>) = listen_owned x" "client_owned (x\<lparr>x_worker := pc\<rparr>) = client_owned x"
    "listen_owned (x\<lparr>x_isConnected := b, x_worker := pc\<rparr>) = listen_owned x"
    "client_owned (x\<lparr>x_isConnected := b, x_worker := pc\<rparr>) = client_owned x"
    by (simp_all add: listen_owned_def client_owned_def)
  show "sockets_inv (x\<lparr>x_worker := pc\<rparr>)" "sockets_inv (x\<lparr>x_isConnected := b, x_worker := pc\<rparr>)"
    using assms unfolding sockets_inv_def own by (simp; blast)+
qed

lemma sockets_inv_worker: "tcp_worker_step x x' \<Longrightarrow> tcp_inv x \<Longrightarrow> sockets_inv x'"
proof (induction rule: tcp_worker_step.induct)
  case (store x s)
  then have "x_client x = INVALID_SOCKET" "x_close x \<noteq> CClientReset" by (auto simp: tcp_inv_def members_inv_def)
  with store show ?case by (auto simp: tcp_inv_def sockets_inv_def client_owned_def listen_owned_def)
qed (auto simp: tcp_inv_def intro!: sockets_inv_move split: if_splits)

lemma tcp_inv_close: "close_step x x' \<Longrightarrow> tcp_inv x \<Longrightarrow> tcp_inv x'"
  by (induction rule: close_step.induct) (auto simp: tcp_inv_defs dest: in_hand_before split: if_splits)

lemma members_inv_peer: "peer_step x x' \<Longrightarrow> members_inv x \<Longrightarrow> members_inv x'"
  by (induction rule: peer_step.induct; cases "x_close x") (auto simp: members_inv_def)

lemma sockets_inv_peer: "peer_step x x' \<Longrightarrow> sockets_inv x \<Longrightarrow> sockets_inv x'"
proof (induction rule: peer_step.induct)
  case (connects x l s)
  have own: "listen_owned (x\<lparr>x_open := insert s (x_open x), x_worker := LTest s\<rparr>) = listen_owned x"
    "client_owned (x\<lparr>x_open := insert s (x_open x), x_worker := LTest s\<rparr>) = client_owned x"
    by (simp_all add: listen_owned_def client_owned_def)
  have hand: "in_hand (LTest s) = {s}" "in_hand (x_worker x) = {}" "x_worker x \<noteq> RDone" using connects by auto
  show ?case using connects hand unfolding sockets_inv_def own by (simp del: in_hand.simps) blast
qed (auto intro!: sockets_inv_move)

lemma tcp_inv_step: "tcp_thread_step x x' \<Longrightarrow> tcp_inv x \<Longrightarrow> tcp_inv x'"
  unfolding tcp_thread_step_def own_step_def
  by (metis members_inv_worker sockets_inv_worker tcp_inv_close members_inv_peer sockets_inv_peer tcp_inv_def)

lemma tcp_reach_inv: "tcp_reach x \<Longrightarrow> tcp_inv x"
proof (induction rule: tcp_reach.induct)
  case (step x x')
  then show ?case by (blast intro: tcp_inv_step)
qed (auto simp: tcp_inv_defs tcp_listening_def tcp_connected_def)

section \<open>Closing comes to an end\<close>

fun tcp_worker_rank :: "tcp_worker_pc \<Rightarrow> nat" where
  "tcp_worker_rank LAccept = 11" | "tcp_worker_rank (LWait s) = 10" | "tcp_worker_rank (LTest s) = 9"
| "tcp_worker_rank (LStore s) = 8" | "tcp_worker_rank LConnected = 7" | "tcp_worker_rank RConnected = 6"
| "tcp_worker_rank RRecv = 5" | "tcp_worker_rank (RWait s) = 4" | "tcp_worker_rank RFrames = 3"
| "tcp_worker_rank RLost = 2" | "tcp_worker_rank RRunning = 1" | "tcp_worker_rank RDone = 0"

fun close_rank :: "close_pc \<Rightarrow> nat" where
  "close_rank CIdle = 9" | "close_rank CConnected = 8" | "close_rank CListen = 7" | "close_rank CListenClose = 6"
| "close_rank CListenReset = 5" | "close_rank CClient = 4" | "close_rank CClientClose = 3"
| "close_rank CClientReset = 2" | "close_rank CJoin = 1" | "close_rank CDone = 0"

definition tcp_rank :: "tcp_threads \<Rightarrow> nat" where
  "tcp_rank x = tcp_worker_rank (x_worker x) + close_rank (x_close x)"

lemma tcp_step_rank: "tcp_thread_step x x' \<Longrightarrow> \<not> x_isRunning x \<Longrightarrow> \<not> x_isRunning x' \<and> tcp_rank x' < tcp_rank x"
  unfolding tcp_thread_step_def own_step_def
  by (elim disjE tcp_worker_step.cases close_step.cases peer_step.cases) (auto simp: tcp_rank_def closesocket_def)

lemma tcp_rank_bound: "tcp_inv x \<Longrightarrow> \<not> x_isRunning x \<Longrightarrow> tcp_rank x \<le> 19"
  by (cases "x_worker x"; cases "x_close x") (auto simp: tcp_rank_def tcp_inv_def members_inv_def)

text \<open>The worker is never left blocked by a \<open>Close\<close> that waits for it.\<close>

lemma tcp_worker_progress:
  assumes "tcp_inv x" "x_close x = CJoin" "x_worker x \<noteq> RDone"
  shows "\<exists>x'. tcp_worker_step x x'"
proof -
  have woken: "s \<notin> x_open x" if "x_worker x = LWait s \<or> x_worker x = RWait s" for s
    using assms that by (auto simp: tcp_inv_defs)
  show ?thesis by (cases "x_worker x") (use assms(3) woken in \<open>auto intro: tcp_worker_step.intros\<close>)
qed

lemma own_progress: "tcp_inv x \<Longrightarrow> x_close x \<noteq> CDone \<Longrightarrow> \<exists>x'. own_step x x'"
  unfolding own_step_def
  by (cases "x_close x") (blast intro: close_step.intros dest: tcp_worker_progress)+

interpretation closing: shutdown tcp_thread_step own_step tcp_inv "\<lambda>x. \<not> x_isRunning x" "\<lambda>x. x_close x = CDone" tcp_rank
proof
  show "tcp_thread_step x x'" if "own_step x x'" for x x' using that by (simp add: tcp_thread_step_def)
qed (auto dest: tcp_step_rank own_progress intro: tcp_inv_step)

text \<open>An established connection: the worker is in the receive loop and nothing it accepted is pending.\<close>

definition established :: "tcp_threads \<Rightarrow> bool" where
  "established x \<longleftrightarrow> (x_worker x = RRunning \<or> in_loop (x_worker x) \<or> x_worker x = RDone)
     \<and> x_open x \<subseteq> listen_owned x \<union> client_owned x
     \<and> (x_close x \<notin> {CIdle, CConnected} \<longrightarrow> \<not> x_isConnected x)
     \<and> (x_close x \<in> {CJoin, CDone} \<longrightarrow> x_client x = INVALID_SOCKET)"

lemma established_step: "tcp_thread_step x x' \<Longrightarrow> tcp_inv x \<Longrightarrow> established x \<Longrightarrow> established x'"
  unfolding tcp_thread_step_def own_step_def
  by (elim disjE tcp_worker_step.cases close_step.cases peer_step.cases)
    (auto simp: established_def listen_owned_def client_owned_def closesocket_def tcp_inv_def members_inv_def split: if_splits)

lemma established_steps: "(tcp_thread_step ^^ n) x x' \<Longrightarrow> tcp_inv x \<Longrightarrow> established x \<Longrightarrow> established x' \<and> tcp_inv x'"
proof (induction n arbitrary: x')
  case (Suc n)
  then show ?case by (auto intro: established_step tcp_inv_step)
qed simp

lemma in_loop_established:
  "tcp_inv x \<Longrightarrow> x_close x = CConnected \<Longrightarrow> x_worker x = RRunning \<or> in_loop (x_worker x) \<Longrightarrow> established x"
  by (cases "x_worker x") (auto simp: established_def tcp_inv_def sockets_inv_def)

lemma close_established:
  assumes "tcp_inv x" "established x" "(tcp_thread_step ^^ n) x x'" "x_close x' = CDone"
  shows "x_open x' = {} \<and> x_client x' = INVALID_SOCKET \<and> \<not> x_isConnected x'"
  using established_steps [OF assms(3,1,2)] assms(4)
  by (auto simp: established_def listen_owned_def client_owned_def)

text \<open>
  C16. \<open>Close\<close> returns without the help of the peer. From any state of the threads in which the
  running flag has been cleared, every interleaving has at most 19 more steps, and until \<open>Close\<close> has
  returned the transport's own two threads have a step and can finish alone: the worker is never
  left blocked in \<open>accept\<close> or \<open>recv\<close> by a \<open>Close\<close> that joins it. No socket is closed twice. When
  \<open>Close\<close> has returned the worker has ended and the listening socket is gone; and if the worker was
  in the receive loop when \<open>Close\<close> cleared the flag, no socket is left open and the transport
  reports that it is not connected.
\<close>

theorem close_completes:
  assumes "tcp_reach x" "\<not> x_isRunning x" "(tcp_thread_step ^^ n) x x'"
  shows "n \<le> 19 \<and> (x_close x' = CDone \<or> (\<exists>x''. own_step x' x''))
    \<and> (\<exists>x''. own_step\<^sup>*\<^sup>* x' x'' \<and> x_close x'' = CDone) \<and> \<not> x_stray x'
    \<and> (x_close x' = CDone \<longrightarrow> x_worker x' = RDone \<and> x_listen x' = INVALID_SOCKET)
    \<and> (x_close x' = CDone \<and> x_close x = CConnected \<and> (x_worker x = RRunning \<or> in_loop (x_worker x))
        \<longrightarrow> x_open x' = {} \<and> x_client x' = INVALID_SOCKET \<and> \<not> x_isConnected x')"
proof -
  have inv: "tcp_inv x" using assms(1) by (rule tcp_reach_inv)
  note run = closing.completes [OF inv assms(2,3)]
  then have "\<not> x_stray x'" "x_close x' = CDone \<longrightarrow> x_worker x' = RDone \<and> x_listen x' = INVALID_SOCKET"
    by (auto simp: tcp_inv_def sockets_inv_def members_inv_def)
  with run tcp_rank_bound [OF inv assms(2)] close_established [OF inv in_loop_established [OF inv] assms(3)]
  show ?thesis by auto
qed

section \<open>What some interleavings leave behind\<close>

abbreviation tcp_at :: "handle \<Rightarrow> handle \<Rightarrow> bool \<Rightarrow> bool \<Rightarrow> tcp_worker_pc \<Rightarrow> close_pc \<Rightarrow> handle set \<Rightarrow> tcp_threads" where
  "tcp_at l c run con wk cl opened \<equiv> \<lparr>x_listen = l, x_client = c, x_isRunning = run, x_isConnected = con,
     x_worker = wk, x_close = cl, x_open = opened, x_stray = False\<rparr>"

lemma tcp_reach_worker: "tcp_reach x \<Longrightarrow> tcp_worker_step x x' \<Longrightarrow> tcp_reach x'"
  by (rule tcp_reach.step) (auto simp: tcp_thread_step_def own_step_def)

lemma tcp_reach_close: "tcp_reach x \<Longrightarrow> close_step x x' \<Longrightarrow> tcp_reach x'"
  by (rule tcp_reach.step) (auto simp: tcp_thread_step_def own_step_def)

lemma tcp_reach_peer: "tcp_reach x \<Longrightarrow> peer_step x x' \<Longrightarrow> tcp_reach x'"
  by (rule tcp_reach.step) (auto simp: tcp_thread_step_def)

lemma sockets_valid: "INVALID_SOCKET \<noteq> 3" "INVALID_SOCKET \<noteq> 4" "(3 :: handle) \<noteq> 4"
  by (simp_all add: INVALID_SOCKET_def SIZE_MAX_def)

lemma reach_accepted: "tcp_reach (tcp_at 3 INVALID_SOCKET True False (LTest 4) CIdle {4, 3})"
proof -
  have "tcp_reach (tcp_at 3 INVALID_SOCKET True False (LWait 3) CIdle {3})"
    using tcp_reach_worker [OF tcp_reach.listening tcp_worker_step.accept, of 3] sockets_valid
    by (simp add: tcp_listening_def)
  then show ?thesis using tcp_reach_peer [OF _ peer_step.connects [of _ 3 4]] sockets_valid by fastforce
qed

text \<open>\<open>Close\<close> from its first statement to the join, over a worker that has not stored a socket.\<close>

lemma reach_closed:
  assumes "tcp_reach (tcp_at 3 INVALID_SOCKET True False wk CIdle {4, 3})"
  shows "tcp_reach (tcp_at INVALID_SOCKET INVALID_SOCKET False False wk CJoin {4})"
proof -
  have "tcp_reach (tcp_at 3 INVALID_SOCKET False False wk CConnected {4, 3})"
    using tcp_reach_close [OF assms close_step.running] by simp
  then have "tcp_reach (tcp_at 3 INVALID_SOCKET False False wk CListen {4, 3})"
    using tcp_reach_close [OF _ close_step.disconnect] by fastforce
  then have "tcp_reach (tcp_at 3 INVALID_SOCKET False False wk CListenClose {4, 3})"
    using tcp_reach_close [OF _ close_step.listen] sockets_valid by fastforce
  from tcp_reach_close [OF this close_step.listen_close]
  have "tcp_reach (tcp_at 3 INVALID_SOCKET False False wk CListenReset {4})"
    using sockets_valid by (simp add: closesocket_def insert_Diff_if)
  then have "tcp_reach (tcp_at INVALID_SOCKET INVALID_SOCKET False False wk CClient {4})"
    using tcp_reach_close [OF _ close_step.listen_reset] by fastforce
  then show ?thesis using tcp_reach_close [OF _ close_step.client] by fastforce
qed

text \<open>
  Two interleavings in which the worker accepts a connection while \<open>Close\<close> runs. If the worker's
  test of \<open>m_isRunning\<close> comes after \<open>Close\<close> cleared it, the accepted socket is dropped without being
  closed, and no member holds it any more. If the test comes before, the worker stores the socket
  and sets \<open>m_isConnected\<close> after \<open>Close\<close> has looked at both: \<open>Close\<close> returns, and the transport
  reports a connection that nobody reads.
\<close>

theorem close_races:
  "(\<exists>x. tcp_reach x \<and> x_close x = CDone \<and> x_client x = INVALID_SOCKET \<and> x_listen x = INVALID_SOCKET \<and> x_open x \<noteq> {})
   \<and> (\<exists>x. tcp_reach x \<and> x_close x = CDone \<and> x_isConnected x \<and> x_client x \<in> x_open x)"
proof
  have "tcp_reach (tcp_at INVALID_SOCKET INVALID_SOCKET False False RDone CJoin {4})"
    using tcp_reach_worker [OF reach_closed [OF reach_accepted] tcp_worker_step.accepted] by fastforce
  then have "tcp_reach (tcp_at INVALID_SOCKET INVALID_SOCKET False False RDone CDone {4})"
    using tcp_reach_close [OF _ close_step.join] by fastforce
  then show "\<exists>x. tcp_reach x \<and> x_close x = CDone \<and> x_client x = INVALID_SOCKET \<and> x_listen x = INVALID_SOCKET \<and> x_open x \<noteq> {}"
    by force
next
  have "tcp_reach (tcp_at 3 INVALID_SOCKET True False (LStore 4) CIdle {4, 3})"
    using tcp_reach_worker [OF reach_accepted tcp_worker_step.accepted] sockets_valid by fastforce
  note stored = tcp_reach_worker [OF reach_closed [OF this] tcp_worker_step.store [of _ 4]]
  then have "tcp_reach (tcp_at INVALID_SOCKET 4 False False LConnected CJoin {4})" by simp
  then have "tcp_reach (tcp_at INVALID_SOCKET 4 False True RRunning CJoin {4})"
    using tcp_reach_worker [OF _ tcp_worker_step.connected] by fastforce
  then have "tcp_reach (tcp_at INVALID_SOCKET 4 False True RDone CJoin {4})"
    using tcp_reach_worker [OF _ tcp_worker_step.test_running] by fastforce
  then have "tcp_reach (tcp_at INVALID_SOCKET 4 False True RDone CDone {4})"
    using tcp_reach_close [OF _ close_step.join] by fastforce
  then show "\<exists>x. tcp_reach x \<and> x_close x = CDone \<and> x_isConnected x \<and> x_client x \<in> x_open x" by force
qed

text \<open>A worker blocked in \<open>recv\<close> when \<open>Close\<close> begins: \<open>Close\<close> needs six steps and the worker two.\<close>

theorem close_completes_witness:
  "\<exists>x x'. tcp_reach x \<and> \<not> x_isRunning x \<and> x_worker x = RWait 3 \<and> 3 \<in> x_open x
     \<and> own_step\<^sup>*\<^sup>* x x' \<and> x_close x' = CDone"
proof -
  have "tcp_reach (tcp_at INVALID_SOCKET 3 True True RConnected CIdle {3})"
    using tcp_reach_worker [OF tcp_reach.connected tcp_worker_step.test_running, of 3] sockets_valid
    by (simp add: tcp_connected_def)
  then have "tcp_reach (tcp_at INVALID_SOCKET 3 True True RRecv CIdle {3})"
    using tcp_reach_worker [OF _ tcp_worker_step.test_connected] by fastforce
  then have "tcp_reach (tcp_at INVALID_SOCKET 3 True True (RWait 3) CIdle {3})"
    using tcp_reach_worker [OF _ tcp_worker_step.recv] by fastforce
  then have at: "tcp_reach (tcp_at INVALID_SOCKET 3 False True (RWait 3) CConnected {3})"
    using tcp_reach_close [OF _ close_step.running] by fastforce
  from close_completes [OF at, of 0] obtain x' where
    "own_step\<^sup>*\<^sup>* (tcp_at INVALID_SOCKET 3 False True (RWait 3) CConnected {3}) x'" "x_close x' = CDone" by auto
  with at show ?thesis by force
qed

end
