(* ===== verification/Tcp_Senders.thy ===== *)
theory Tcp_Senders
  imports Tcp_Transport
begin

text \<open>
  Concurrent calls of \<open>TcpTransport::SendFrame\<close> (\<open>windows/common/TcpTransport.cpp\<close>). The agent sends
  from two threads: the caller of \<open>InitiateUnlockRequest\<close> and the worker that answers in
  \<open>OnFrameReceived\<close>. \<open>m_sendMutex\<close> is taken after the test of \<open>m_isConnected\<close>, and everything behind it,
  the counter included, runs under the lock. Each thread makes one call; its statements interleave
  with those of the other calls in every order. The socket stays the same (\<open>Close\<close> against the worker
  is in \<open>Tcp_Shutdown\<close>).
\<close>

section \<open>The threads\<close>

datatype send_pc =
    SCall TransportMessageType "byte list"        \<comment> \<open>\<open>if (!m_isConnected || m_clientSocket == INVALID_SOCKET) return false\<close>\<close>
  | SLock TransportMessageType "byte list"        \<comment> \<open>\<open>std::lock_guard<std::mutex> lock(m_sendMutex)\<close>\<close>
  | SBuild TransportMessageType "byte list"       \<comment> \<open>the frame, its number, \<open>SerializeFrame\<close>\<close>
  | SSend "byte list" nat                         \<comment> \<open>\<open>while (totalSent < toSend)\<close> with \<open>send\<close>\<close>
  | SFail                                         \<comment> \<open>\<open>m_isConnected = false; return false\<close>\<close>
  | SLeave bool                                   \<comment> \<open>the destructor of \<open>lock\<close>\<close>
  | SDone bool                                    \<comment> \<open>the call has returned\<close>

record senders =
  n_isConnected :: bool
  n_sequenceCounter :: u32
  n_sendMutex :: "nat option"                     \<comment> \<open>the thread that holds it\<close>
  n_thread :: "nat \<Rightarrow> send_pc"
  n_wire :: "byte list"                           \<comment> \<open>what the network has taken\<close>
  n_log :: "(nat \<times> TransportFrame \<times> nat) list"    \<comment> \<open>the frames built, with the thread and the bytes taken of each\<close>

definition senders_init :: "u32 \<Rightarrow> (nat \<Rightarrow> TransportMessageType \<times> byte list) \<Rightarrow> senders" where
  "senders_init seq calls = \<lparr>n_isConnected = True, n_sequenceCounter = seq, n_sendMutex = None,
     n_thread = (\<lambda>i. SCall (fst (calls i)) (snd (calls i))), n_wire = [], n_log = []\<rparr>"

definition move :: "nat \<Rightarrow> send_pc \<Rightarrow> senders \<Rightarrow> senders" where
  "move i pc s = s\<lparr>n_thread := (n_thread s)(i := pc)\<rparr>"

fun note_sent :: "nat \<Rightarrow> (nat \<times> TransportFrame \<times> nat) list \<Rightarrow> (nat \<times> TransportFrame \<times> nat) list" where
  "note_sent m [] = []"
| "note_sent m [(i, f, k)] = [(i, f, k + m)]"
| "note_sent m (e # e' # es) = e # note_sent m (e' # es)"

text \<open>
  One step of one call. \<open>send\<close> takes some of the bytes it is offered, or fails. In the last rule the
  receiver thread finds the connection gone.
\<close>

inductive send_step :: "senders \<Rightarrow> senders \<Rightarrow> bool" where
  test: "n_thread s i = SCall ty payload \<Longrightarrow>
    send_step s (move i (if n_isConnected s then SLock ty payload else SDone False) s)"
| lock: "n_thread s i = SLock ty payload \<Longrightarrow> n_sendMutex s = None \<Longrightarrow>
    send_step s (move i (SBuild ty payload) (s\<lparr>n_sendMutex := Some i\<rparr>))"
| build: "n_thread s i = SBuild ty payload \<Longrightarrow> frame = out_frame ty payload (n_sequenceCounter s) \<Longrightarrow>
    serialized = SerializeFrame frame \<Longrightarrow>
    send_step s (move i (if serialized = [] then SLeave False else SSend serialized 0)
      (s\<lparr>n_sequenceCounter := n_sequenceCounter s + 1, n_log := n_log s @ [(i, frame, 0)]\<rparr>))"
| send: "n_thread s i = SSend serialized off \<Longrightarrow> 0 < sent \<Longrightarrow> off + sent \<le> length serialized \<Longrightarrow>
    send_step s (move i (SSend serialized (off + sent))
      (s\<lparr>n_wire := n_wire s @ take sent (drop off serialized), n_log := note_sent sent (n_log s)\<rparr>))"
| send_fails: "n_thread s i = SSend serialized off \<Longrightarrow> off < length serialized \<Longrightarrow> send_step s (move i SFail s)"
| sent: "n_thread s i = SSend serialized off \<Longrightarrow> \<not> off < length serialized \<Longrightarrow> send_step s (move i (SLeave True) s)"
| failed: "n_thread s i = SFail \<Longrightarrow> send_step s (move i (SLeave False) (s\<lparr>n_isConnected := False\<rparr>))"
| leave: "n_thread s i = SLeave ok \<Longrightarrow> send_step s (move i (SDone ok) (s\<lparr>n_sendMutex := None\<rparr>))"
| lost: "send_step s (s\<lparr>n_isConnected := False\<rparr>)"

inductive send_reach :: "senders \<Rightarrow> senders \<Rightarrow> bool" for s\<^sub>0 where
  start: "send_reach s\<^sub>0 s\<^sub>0"
| step: "send_reach s\<^sub>0 s \<Longrightarrow> send_step s s' \<Longrightarrow> send_reach s\<^sub>0 s'"

section \<open>What the lock keeps together\<close>

definition whole :: "nat \<Rightarrow> senders \<Rightarrow> bool" where
  "whole i s \<longleftrightarrow> (\<exists>f. (i, f, length (SerializeFrame f)) \<in> set (n_log s) \<and> SerializeFrame f \<noteq> [])"

definition part :: "nat \<times> TransportFrame \<times> nat \<Rightarrow> byte list" where
  "part e = take (snd (snd e)) (SerializeFrame (fst (snd e)))"

text \<open>Where a thread is, against its call, the lock and the log.\<close>

fun thread_ok :: "(nat \<Rightarrow> TransportMessageType \<times> byte list) \<Rightarrow> senders \<Rightarrow> nat \<Rightarrow> send_pc \<Rightarrow> bool" where
  "thread_ok calls s i (SCall ty payload) \<longleftrightarrow> calls i = (ty, payload) \<and> i \<notin> fst ` set (n_log s) \<and> n_sendMutex s \<noteq> Some i"
| "thread_ok calls s i (SLock ty payload) \<longleftrightarrow> calls i = (ty, payload) \<and> i \<notin> fst ` set (n_log s) \<and> n_sendMutex s \<noteq> Some i"
| "thread_ok calls s i (SBuild ty payload) \<longleftrightarrow> calls i = (ty, payload) \<and> i \<notin> fst ` set (n_log s) \<and> n_sendMutex s = Some i"
| "thread_ok calls s i (SSend serialized off) \<longleftrightarrow> n_sendMutex s = Some i \<and> serialized \<noteq> [] \<and> off \<le> length serialized
     \<and> (\<exists>l f. n_log s = l @ [(i, f, off)] \<and> serialized = SerializeFrame f)"
| "thread_ok calls s i SFail \<longleftrightarrow> n_sendMutex s = Some i"
| "thread_ok calls s i (SLeave ok) \<longleftrightarrow> n_sendMutex s = Some i \<and> (ok \<longrightarrow> whole i s)"
| "thread_ok calls s i (SDone ok) \<longleftrightarrow> n_sendMutex s \<noteq> Some i \<and> (ok \<longrightarrow> whole i s)"

definition log_ok :: "u32 \<Rightarrow> (nat \<Rightarrow> TransportMessageType \<times> byte list) \<Rightarrow> senders \<Rightarrow> bool" where
  "log_ok seq calls s \<longleftrightarrow> n_wire s = concat (map part (n_log s))
     \<and> map (fst \<circ> snd) (n_log s) = out_frames seq (map (calls \<circ> fst) (n_log s))
     \<and> n_sequenceCounter s = seq + of_nat (length (n_log s))
     \<and> distinct (map fst (n_log s))"

definition senders_inv :: "u32 \<Rightarrow> (nat \<Rightarrow> TransportMessageType \<times> byte list) \<Rightarrow> senders \<Rightarrow> bool" where
  "senders_inv seq calls s \<longleftrightarrow> log_ok seq calls s \<and> (\<forall>i. thread_ok calls s i (n_thread s i))"

lemma out_frames_snoc:
  "out_frames seq (msgs @ [(ty, payload)]) = out_frames seq msgs @ [out_frame ty payload (seq + of_nat (length msgs))]"
  by (induction seq msgs rule: out_frames.induct) (auto simp: algebra_simps)

lemma note_sent_snoc [simp]: "note_sent m (l @ [(i, f, k)]) = l @ [(i, f, k + m)]"
proof (induction l)
  case (Cons e l)
  then show ?case by (cases l) auto
qed simp

lemma move_simps [simp]:
  "n_isConnected (move i pc s) = n_isConnected s" "n_sequenceCounter (move i pc s) = n_sequenceCounter s"
  "n_sendMutex (move i pc s) = n_sendMutex s" "n_wire (move i pc s) = n_wire s" "n_log (move i pc s) = n_log s"
  "n_thread (move i pc s) = (n_thread s)(i := pc)"
  by (simp_all add: move_def)

text \<open>A thread that is not inside the lock is not affected by what the holder of the lock does.\<close>

lemma thread_ok_frame:
  assumes "thread_ok calls s j pc" "n_sendMutex s = Some i" "j \<noteq> i"
    and "\<And>x. x \<in> set (n_log s) \<Longrightarrow> fst x \<noteq> i \<Longrightarrow> x \<in> set (n_log s')"
    and "fst ` set (n_log s') \<subseteq> insert i (fst ` set (n_log s))" "n_sendMutex s' \<in> {None, Some i}"
  shows "thread_ok calls s' j pc"
proof -
  have w: "whole j s \<Longrightarrow> whole j s'" using assms(3,4) by (fastforce simp: whole_def)
  show ?thesis by (cases pc) (use assms w in auto)
qed

lemma thread_ok_same:
  "thread_ok calls s j pc \<Longrightarrow> n_sendMutex s' = n_sendMutex s \<Longrightarrow> n_log s' = n_log s \<Longrightarrow> thread_ok calls s' j pc"
  by (cases pc) (auto simp: whole_def)

lemma senders_invD: "senders_inv seq calls s \<Longrightarrow> n_thread s i = pc \<Longrightarrow> thread_ok calls s i pc"
  by (auto simp: senders_inv_def)

text \<open>A step that only moves a thread, and perhaps clears the flag.\<close>

lemma senders_inv_move:
  assumes "senders_inv seq calls s" "thread_ok calls s i pc"
  shows "senders_inv seq calls (move i pc s)" "senders_inv seq calls (move i pc (s\<lparr>n_isConnected := b\<rparr>))"
    "senders_inv seq calls (s\<lparr>n_isConnected := b\<rparr>)"
proof -
  have "thread_ok calls s' j pc'" if "thread_ok calls s j pc'"
    "s' \<in> {move i pc s, move i pc (s\<lparr>n_isConnected := b\<rparr>), s\<lparr>n_isConnected := b\<rparr>}" for s' j pc'
    by (rule thread_ok_same [OF that(1)]) (use that(2) in auto)
  with assms show "senders_inv seq calls (move i pc s)" "senders_inv seq calls (move i pc (s\<lparr>n_isConnected := b\<rparr>))"
    "senders_inv seq calls (s\<lparr>n_isConnected := b\<rparr>)"
    by (simp_all add: senders_inv_def log_ok_def)
qed

text \<open>A step of the thread that holds the lock, or releases it.\<close>

lemma senders_inv_holder:
  assumes "senders_inv seq calls s" "n_sendMutex s = Some i" "log_ok seq calls s'" "thread_ok calls s' i pc"
    and "n_thread s' = (n_thread s)(i := pc)" "n_sendMutex s' \<in> {None, Some i}"
    and "\<And>x. x \<in> set (n_log s) \<Longrightarrow> fst x \<noteq> i \<Longrightarrow> x \<in> set (n_log s')"
    and "fst ` set (n_log s') \<subseteq> insert i (fst ` set (n_log s))"
  shows "senders_inv seq calls s'"
proof -
  have "thread_ok calls s' j (n_thread s j)" if "j \<noteq> i" for j
    by (rule thread_ok_frame [where i = i and s = s]) (use assms that in \<open>auto simp: senders_inv_def\<close>)
  with assms(3,4,5) show ?thesis by (simp add: senders_inv_def)
qed

lemma senders_inv_build:
  assumes inv: "senders_inv seq calls s" and at: "n_thread s i = SBuild ty payload"
    and "frame = out_frame ty payload (n_sequenceCounter s)" "serialized = SerializeFrame frame"
  shows "senders_inv seq calls (move i (if serialized = [] then SLeave False else SSend serialized 0)
      (s\<lparr>n_sequenceCounter := n_sequenceCounter s + 1, n_log := n_log s @ [(i, frame, 0)]\<rparr>))" (is "senders_inv _ _ ?s'")
proof (rule senders_inv_holder [OF inv])
  note here = senders_invD [OF inv at]
  have log: "log_ok seq calls s" using inv by (simp add: senders_inv_def)
  show "n_sendMutex s = Some i" using here by simp
  show "log_ok seq calls ?s'" using here log assms(3) by (auto simp: log_ok_def part_def out_frames_snoc)
  show "thread_ok calls ?s' i (if serialized = [] then SLeave False else SSend serialized 0)"
    using here assms(3,4) by auto
qed (use senders_invD [OF inv at] in auto)

lemma senders_inv_send:
  assumes inv: "senders_inv seq calls s" and at: "n_thread s i = SSend serialized off"
    and "off + sent \<le> length serialized"
  shows "senders_inv seq calls (move i (SSend serialized (off + sent))
      (s\<lparr>n_wire := n_wire s @ take sent (drop off serialized), n_log := note_sent sent (n_log s)\<rparr>))" (is "senders_inv _ _ ?s'")
proof -
  from senders_invD [OF inv at] obtain l f where
    l: "n_log s = l @ [(i, f, off)]" "serialized = SerializeFrame f" "n_sendMutex s = Some i" "serialized \<noteq> []" by auto
  have log: "log_ok seq calls s" using inv by (simp add: senders_inv_def)
  have "part (i, f, off + sent) = part (i, f, off) @ take sent (drop off serialized)"
    by (simp add: part_def l(2) take_add)
  with log have "log_ok seq calls ?s'" by (simp add: log_ok_def l(1))
  moreover have "thread_ok calls ?s' i (SSend serialized (off + sent))" using l assms(3) by auto
  ultimately show ?thesis
    by (rule senders_inv_holder [OF inv l(3)]) (auto simp: l)
qed

lemma senders_inv_lock:
  assumes inv: "senders_inv seq calls s" and at: "n_thread s i = SLock ty payload" and "n_sendMutex s = None"
  shows "senders_inv seq calls (move i (SBuild ty payload) (s\<lparr>n_sendMutex := Some i\<rparr>))" (is "senders_inv _ _ ?s'")
proof -
  have "thread_ok calls ?s' j (n_thread s j)" if "j \<noteq> i" for j
    using senders_invD [OF inv refl, of j] assms(3) that by (cases "n_thread s j") (auto simp: whole_def)
  with senders_invD [OF inv at] inv show ?thesis by (simp add: senders_inv_def log_ok_def)
qed

lemma senders_inv_leave:
  assumes inv: "senders_inv seq calls s" and at: "n_thread s i = SLeave ok"
  shows "senders_inv seq calls (move i (SDone ok) (s\<lparr>n_sendMutex := None\<rparr>))"
  by (rule senders_inv_holder [OF inv, where i = i])
    (use senders_invD [OF inv at] inv in \<open>auto simp: senders_inv_def log_ok_def whole_def\<close>)

lemma senders_inv_step: "send_step s s' \<Longrightarrow> senders_inv seq calls s \<Longrightarrow> senders_inv seq calls s'"
proof (induction rule: send_step.induct)
  case (sent s i serialized off)
  from senders_invD [OF this(3,1)] sent(2) have "whole i s" by (auto simp: whole_def)
  with senders_invD [OF sent(3,1)] sent show ?case by (intro senders_inv_move) auto
next
  case (lost s)
  from senders_inv_move(3) [OF lost senders_invD [OF lost refl, of 0]] show ?case .
next
  case (test s i ty payload)
  from senders_invD [OF test(2,1)] test(2) show ?case by (intro senders_inv_move) auto
next
  case (send_fails s i serialized off)
  from senders_invD [OF send_fails(3,1)] send_fails(3) show ?case by (intro senders_inv_move) auto
next
  case (failed s i)
  from senders_invD [OF failed(2,1)] failed(2) show ?case by (intro senders_inv_move) auto
qed (blast intro: senders_inv_build senders_inv_send senders_inv_lock senders_inv_leave)+

lemma senders_reach_inv: "send_reach (senders_init seq calls) s \<Longrightarrow> senders_inv seq calls s"
proof (induction rule: send_reach.induct)
  case start
  then show ?case by (simp add: senders_inv_def senders_init_def log_ok_def)
qed (rule senders_inv_step)

text \<open>
  C17. The wire, in every interleaving and with every failure: whole frames and beginnings of frames, one
  after the other, never bytes of one frame inside another, in the order of the sequence numbers;
  each call contributes at most one, and a call that answered true all of its frame.
\<close>

theorem senders_never_interleave:
  assumes "send_reach (senders_init seq calls) s"
  shows "\<exists>order cuts. n_wire s = concat (map2 (\<lambda>f k. take k (SerializeFrame f)) (out_frames seq (map calls order)) cuts)
    \<and> length cuts = length order \<and> distinct order
    \<and> n_sequenceCounter s = seq + of_nat (length order)
    \<and> (\<forall>i. n_thread s i = SDone True \<longrightarrow>
         (\<exists>n < length order. order ! n = i \<and> cuts ! n = length (SerializeFrame (out_frames seq (map calls order) ! n))))"
proof -
  let ?order = "map fst (n_log s)" and ?cuts = "map (snd \<circ> snd) (n_log s)"
  note inv = senders_reach_inv [OF assms]
  then have log: "log_ok seq calls s" by (simp add: senders_inv_def)
  then have frames: "out_frames seq (map calls ?order) = map (fst \<circ> snd) (n_log s)" by (simp add: log_ok_def)
  have parts: "map2 (\<lambda>f k. take k (SerializeFrame f)) (map (fst \<circ> snd) l) (map (snd \<circ> snd) l) = map part l" for l
    by (induction l) (auto simp: part_def)
  have "n_wire s = concat (map part (n_log s))" using log by (simp add: log_ok_def)
  then have wire: "n_wire s = concat (map2 (\<lambda>f k. take k (SerializeFrame f)) (out_frames seq (map calls ?order)) ?cuts)"
    by (simp only: frames parts)
  have "\<exists>n < length ?order. ?order ! n = i \<and> ?cuts ! n = length (SerializeFrame (out_frames seq (map calls ?order) ! n))"
    if "n_thread s i = SDone True" for i
  proof -
    from senders_invD [OF inv that] obtain f where "(i, f, length (SerializeFrame f)) \<in> set (n_log s)"
      by (auto simp: whole_def)
    then obtain n where "n < length (n_log s)" "n_log s ! n = (i, f, length (SerializeFrame f))" by (metis in_set_conv_nth)
    then show ?thesis unfolding frames by (intro exI [of _ n]) auto
  qed
  with wire log show ?thesis by (intro exI [of _ ?order] exI [of _ ?cuts]) (auto simp: log_ok_def)
qed

text \<open>If every call that built a frame has answered true, the wire carries these frames.\<close>

lemma quiet_log:
  assumes "senders_inv seq calls s" "n_sendMutex s = None" "\<forall>i. n_thread s i \<noteq> SDone False"
  shows "fst ` set (n_log s) = {i. n_thread s i = SDone True}"
    and "\<forall>(i, f, k) \<in> set (n_log s). k = length (SerializeFrame f) \<and> SerializeFrame f \<noteq> []"
proof -
  have returned: "n_thread s i = SDone True" if "i \<in> fst ` set (n_log s)" for i
    using assms(2,3) senders_invD [OF assms(1) refl, of i] that by (cases "n_thread s i") (simp_all, metis)
  then show "fst ` set (n_log s) = {i. n_thread s i = SDone True}"
    using senders_invD [OF assms(1), of _ "SDone True"] by (auto simp: whole_def image_iff) (metis fst_conv)
  have keys: "distinct (map fst (n_log s))" using assms(1) by (simp add: senders_inv_def log_ok_def)
  have "k = length (SerializeFrame f) \<and> SerializeFrame f \<noteq> []" if e: "(i, f, k) \<in> set (n_log s)" for i f k
  proof -
    have "n_thread s i = SDone True" using returned [of i] e by (metis fst_conv image_eqI)
    from senders_invD [OF assms(1) this] obtain f' where
      "(i, f', length (SerializeFrame f')) \<in> set (n_log s)" "SerializeFrame f' \<noteq> []" by (auto simp: whole_def)
    with eq_key_imp_eq_value [OF keys e] show ?thesis by blast
  qed
  then show "\<forall>(i, f, k) \<in> set (n_log s). k = length (SerializeFrame f) \<and> SerializeFrame f \<noteq> []" by blast
qed

lemma quiet_wire:
  assumes "senders_inv seq calls s" "n_sendMutex s = None" "\<forall>i. n_thread s i \<noteq> SDone False"
  shows "n_wire s = concat (map SerializeFrame (out_frames seq (map (calls \<circ> fst) (n_log s))))"
    and "\<forall>f \<in> set (out_frames seq (map (calls \<circ> fst) (n_log s))). length (f_payload f) \<le> MAX_PAYLOAD_SIZE"
proof -
  note full = quiet_log(2) [OF assms]
  have log: "log_ok seq calls s" using assms(1) by (simp add: senders_inv_def)
  have "map part (n_log s) = map (SerializeFrame \<circ> (fst \<circ> snd)) (n_log s)" using full by (auto simp: part_def)
  then show "n_wire s = concat (map SerializeFrame (out_frames seq (map (calls \<circ> fst) (n_log s))))"
    using log by (simp add: log_ok_def flip: map_map)
  show "\<forall>f \<in> set (out_frames seq (map (calls \<circ> fst) (n_log s))). length (f_payload f) \<le> MAX_PAYLOAD_SIZE"
  proof -
    have "out_frames seq (map (calls \<circ> fst) (n_log s)) = map (fst \<circ> snd) (n_log s)" using log by (simp add: log_ok_def)
    moreover have "length (f_payload f) \<le> MAX_PAYLOAD_SIZE" if "(i, f, k) \<in> set (n_log s)" for i f k
      using full that SerializeFrame_oversized [of f] by (force simp: not_le [symmetric])
    ultimately show ?thesis by force
  qed
qed

text \<open>
  C15. Concurrent senders are as good as one. Threads call \<open>SendFrame\<close> at the same time, their
  statements interleaving in any way; take a moment at which no call is inside the lock and none has
  answered false. Then there is an order of the calls that have returned, such that a peer that gets
  the bytes of the wire, in pieces of any size, delivers exactly the messages of these calls in this
  order, numbered consecutively: what a single thread sending them one after the other produces.
\<close>

theorem concurrent_send_receive:
  assumes "send_reach (senders_init seq calls) s" "n_sendMutex s = None" "\<forall>i. n_thread s i \<noteq> SDone False"
    and "t_listener r" "t_isRunning r" "t_isConnected r" "\<forall>(n, buf) \<in> set recvs. 0 < n"
    and "received recvs = n_wire s"
  shows "\<exists>order. distinct order \<and> set order = {i. n_thread s i = SDone True}
    \<and> ReceiverWorker deliver receiving lose_connection recvs [] (r, es)
      = Some (r, es @ map (OnFrameReceived \<circ> frame_norm) (out_frames seq (map calls order)))"
proof (intro exI conjI)
  note inv = senders_reach_inv [OF assms(1)]
  show "distinct (map fst (n_log s))" using inv by (simp add: senders_inv_def log_ok_def)
  show "set (map fst (n_log s)) = {i. n_thread s i = SDone True}" using quiet_log(1) [OF inv assms(2,3)] by simp
  have "received recvs = concat (map SerializeFrame (out_frames seq (map calls (map fst (n_log s)))))"
    using assms(8) quiet_wire(1) [OF inv assms(2,3)] by simp
  with drain_frames [OF quiet_wire(2) [OF inv assms(2,3)]] tcp.worker_frames [of recvs "(r, es)"] assms(4-7)
  show "ReceiverWorker deliver receiving lose_connection recvs [] (r, es)
      = Some (r, es @ map (OnFrameReceived \<circ> frame_norm) (out_frames seq (map calls (map fst (n_log s)))))"
    by (simp add: receiving_def fold_deliver)
qed

section \<open>What the test outside the lock lets through\<close>

text \<open>A call that has passed the test, finds the lock free and is not disturbed sends its frame, connected or not.\<close>

lemma locked_call:
  assumes "send_reach s\<^sub>0 s" "n_thread s i = SLock ty payload" "n_sendMutex s = None" "length payload \<le> MAX_PAYLOAD_SIZE"
    and "f = out_frame ty payload (n_sequenceCounter s)"
  shows "send_reach s\<^sub>0 (move i (SDone True) (s\<lparr>n_sequenceCounter := n_sequenceCounter s + 1,
    n_wire := n_wire s @ SerializeFrame f, n_log := n_log s @ [(i, f, length (SerializeFrame f))]\<rparr>))"
proof -
  let ?ser = "SerializeFrame f" and ?n = "length (SerializeFrame f)"
  have len: "0 < ?n" "?ser \<noteq> []" using assms(4) length_SerializeFrame [of f] by (auto simp: assms(5))
  let ?s1 = "move i (SBuild ty payload) (s\<lparr>n_sendMutex := Some i\<rparr>)"
  let ?s2 = "move i (SSend ?ser 0) (?s1\<lparr>n_sequenceCounter := n_sequenceCounter s + 1, n_log := n_log s @ [(i, f, 0)]\<rparr>)"
  let ?s3 = "move i (SSend ?ser ?n) (?s2\<lparr>n_wire := n_wire s @ ?ser, n_log := n_log s @ [(i, f, ?n)]\<rparr>)"
  have "send_reach s\<^sub>0 ?s1" using assms by (blast intro: send_reach.step send_step.lock)
  moreover have "send_step ?s1 ?s2" using send_step.build [of ?s1 i ty payload f ?ser] assms(5) len by simp
  moreover have "send_step ?s2 ?s3" using send_step.send [of ?s2 i ?ser 0 ?n] len by simp
  moreover have "send_step ?s3 (move i (SLeave True) ?s3)" by (rule send_step.sent) auto
  moreover have "send_step (move i (SLeave True) ?s3) (move i (SDone True) ((move i (SLeave True) ?s3)\<lparr>n_sendMutex := None\<rparr>))"
    by (rule send_step.leave) simp
  ultimately have "send_reach s\<^sub>0 (move i (SDone True) ((move i (SLeave True) ?s3)\<lparr>n_sendMutex := None\<rparr>))"
    by (meson send_reach.step)
  then show ?thesis using assms(3) by (cases s) (simp add: move_def)
qed

definition two_calls :: "nat \<Rightarrow> TransportMessageType \<times> byte list" where
  "two_calls i = (if i = 0 then (UNLOCK_REQ, [1, 2]) else (ERROR_MSG, []))"

lemma two_frames_length:
  "length (SerializeFrame (out_frame UNLOCK_REQ [1, 2] seq)) = 20" "length (SerializeFrame (out_frame ERROR_MSG [] seq)) = 18"
  by (simp_all add: length_SerializeFrame MAX_PAYLOAD_SIZE_def)

definition pcs :: "send_pc \<Rightarrow> send_pc \<Rightarrow> nat \<Rightarrow> send_pc" where
  "pcs a b i = (if i = 0 then a else if i = 1 then b else SCall ERROR_MSG [])"

lemma pcs_simps [simp]:
  "pcs a b 0 = a" "pcs a b (Suc 0) = b" "(pcs a b)(0 := c) = pcs c b" "(pcs a b)(Suc 0 := c) = pcs a c"
  by (auto simp: pcs_def)

abbreviation send_at :: "bool \<Rightarrow> u32 \<Rightarrow> nat option \<Rightarrow> send_pc \<Rightarrow> send_pc \<Rightarrow> byte list \<Rightarrow> (nat \<times> TransportFrame \<times> nat) list \<Rightarrow> senders" where
  "send_at con seq m a b wire l \<equiv> \<lparr>n_isConnected = con, n_sequenceCounter = seq, n_sendMutex = m,
     n_thread = pcs a b, n_wire = wire, n_log = l\<rparr>"

lemma two_init: "senders_init 1 two_calls = send_at True 1 None (SCall UNLOCK_REQ [1, 2]) (SCall ERROR_MSG []) [] []"
  by (auto simp: senders_init_def two_calls_def pcs_def)

text \<open>Both calls have passed the test.\<close>

lemma both_waiting: "send_reach (senders_init 1 two_calls) (send_at True 1 None (SLock UNLOCK_REQ [1, 2]) (SLock ERROR_MSG []) [] [])"
proof -
  have "send_reach (senders_init 1 two_calls) (send_at True 1 None (SLock UNLOCK_REQ [1, 2]) (SCall ERROR_MSG []) [] [])"
    using send_reach.step [OF send_reach.start send_step.test [of "senders_init 1 two_calls" 0]]
    by (simp add: two_init move_def)
  from send_reach.step [OF this send_step.test [of _ 1]] show ?thesis by (simp add: move_def)
qed

lemma torn_dropped:
  fixes seq seq' :: u32
  defines "wire \<equiv> take 5 (SerializeFrame (out_frame UNLOCK_REQ [1, 2] seq)) @ SerializeFrame (out_frame ERROR_MSG [] seq')"
  shows "drain wire = Some ([OnError oversize_error], wire, True)"
proof -
  have magic: "put_be32 FRAME_MAGIC = [0x50, 0x4B, 0x46, 0x52]" by (simp add: put_be32_def FRAME_MAGIC_def)
  obtain y where y: "SerializeFrame (out_frame ERROR_MSG [] seq') = [0x50, 0x4B, 0x46, 0x52] @ y"
    by (simp add: SerializeFrame_layout frame_body_def MAX_PAYLOAD_SIZE_def magic)
  have "take 5 (SerializeFrame (out_frame UNLOCK_REQ [1, 2] seq)) = [0x50, 0x4B, 0x46, 0x52, 0]"
    by (simp add: SerializeFrame_layout frame_body_def MAX_PAYLOAD_SIZE_def magic) (simp add: put_be32_def)
  with y have wire: "wire = [0x50, 0x4B, 0x46, 0x52, 0, 0x50, 0x4B, 0x46, 0x52] @ y" by (simp add: wire_def)
  have "length wire = 23" by (simp add: wire_def two_frames_length)
  moreover have "fr_magic wire = FRAME_MAGIC" by (simp add: wire fr_magic_def FRAME_MAGIC_def dec_be32_def get_be32_def)
  moreover have "fr_plen wire = 0x504B46" by (simp add: wire fr_plen_def dec_be32_def get_be32_def)
  ultimately show ?thesis by (subst drain_step) (simp add: MAX_PAYLOAD_SIZE_def)
qed

text \<open>
  The first call sends five bytes and fails; the second, which had passed the test before, sends its
  whole frame behind the five bytes, on a transport that has given up the connection, and answers
  true. The peer sees the beginning of a frame whose length field is completed by the magic number
  of the next: it drops the connection and delivers neither message.
\<close>

theorem torn_then_whole:
  "\<exists>s. send_reach (senders_init 1 two_calls) s \<and> \<not> n_isConnected s
     \<and> n_thread s 0 = SDone False \<and> n_thread s 1 = SDone True
     \<and> n_wire s = take 5 (SerializeFrame (out_frame UNLOCK_REQ [1, 2] 1)) @ SerializeFrame (out_frame ERROR_MSG [] 2)
     \<and> drain (n_wire s) = Some ([OnError oversize_error], n_wire s, True)"
proof -
  let ?f = "out_frame UNLOCK_REQ [1, 2] 1" and ?r = "send_reach (senders_init 1 two_calls)"
  let ?w = "take 5 (SerializeFrame ?f)"
  have "?r (send_at True 1 (Some 0) (SBuild UNLOCK_REQ [1, 2]) (SLock ERROR_MSG []) [] [])"
    using send_reach.step [OF both_waiting send_step.lock [of _ 0]] by (simp add: move_def)
  from send_reach.step [OF this send_step.build [of _ 0, OF _ refl refl]]
  have "?r (send_at True 2 (Some 0) (SSend (SerializeFrame ?f) 0) (SLock ERROR_MSG []) [] [(0, ?f, 0)])"
    using two_frames_length(1) [of 1] by (auto simp: move_def split: if_splits)
  from send_reach.step [OF this send_step.send [of _ 0 "SerializeFrame ?f" 0 5]]
  have "?r (send_at True 2 (Some 0) (SSend (SerializeFrame ?f) 5) (SLock ERROR_MSG []) ?w [(0, ?f, 5)])"
    using two_frames_length(1) [of 1] by (simp add: move_def)
  from send_reach.step [OF this send_step.send_fails [of _ 0]]
  have "?r (send_at True 2 (Some 0) SFail (SLock ERROR_MSG []) ?w [(0, ?f, 5)])"
    using two_frames_length(1) [of 1] by (simp add: move_def)
  from send_reach.step [OF this send_step.failed [of _ 0]]
  have "?r (send_at False 2 (Some 0) (SLeave False) (SLock ERROR_MSG []) ?w [(0, ?f, 5)])" by (simp add: move_def)
  from send_reach.step [OF this send_step.leave [of _ 0 False]]
  have "?r (send_at False 2 None (SDone False) (SLock ERROR_MSG []) ?w [(0, ?f, 5)])" by (simp add: move_def)
  from locked_call [OF this, of 1 ERROR_MSG "[]", OF _ _ _ refl] show ?thesis
    using torn_dropped [of 1 2] by (intro exI conjI) (auto simp: MAX_PAYLOAD_SIZE_def)
qed

theorem senders_never_interleave_witness:
  "\<exists>order cuts. take 5 (SerializeFrame (out_frame UNLOCK_REQ [1, 2] 1)) @ SerializeFrame (out_frame ERROR_MSG [] 2)
       = concat (map2 (\<lambda>f k. take k (SerializeFrame f)) (out_frames 1 (map two_calls order)) cuts)
     \<and> distinct order \<and> (\<exists>n < length order. order ! n = 1)"
proof -
  obtain s where s: "send_reach (senders_init 1 two_calls) s" "n_thread s 1 = SDone True"
    "n_wire s = take 5 (SerializeFrame (out_frame UNLOCK_REQ [1, 2] 1)) @ SerializeFrame (out_frame ERROR_MSG [] 2)"
    using torn_then_whole by blast
  from senders_never_interleave [OF s(1)] s(2,3) show ?thesis by metis
qed

theorem concurrent_send_receive_witness:
  "\<exists>s order. send_reach (senders_init 1 two_calls) s \<and> distinct order \<and> set order = {0, 1}
     \<and> ReceiverWorker deliver receiving lose_connection [(9, n_wire s), (99, drop 9 (n_wire s))] [] (connected_transport, [])
       = Some (connected_transport, map (OnFrameReceived \<circ> frame_norm) (out_frames 1 (map two_calls order)))"
proof -
  let ?f = "out_frame ERROR_MSG [] 1" and ?g = "out_frame UNLOCK_REQ [1, 2] 2"
  have "send_reach (senders_init 1 two_calls) (send_at True 2 None (SLock UNLOCK_REQ [1, 2]) (SDone True) (SerializeFrame ?f) [(1, ?f, 18)])"
    using locked_call [OF both_waiting, of 1 ERROR_MSG "[]", OF _ _ _ refl] two_frames_length(2) [of 1]
    by (simp add: MAX_PAYLOAD_SIZE_def move_def)
  from locked_call [OF this, of 0 UNLOCK_REQ "[1, 2]", OF _ _ _ refl]
  have r: "send_reach (senders_init 1 two_calls) (send_at True 3 None (SDone True) (SDone True)
      (SerializeFrame ?f @ SerializeFrame ?g) [(1, ?f, 18), (0, ?g, 20)])"
    using two_frames_length(1) [of 2] by (simp add: MAX_PAYLOAD_SIZE_def move_def)
  have len: "length (SerializeFrame ?f @ SerializeFrame ?g) = 38" by (simp add: two_frames_length)
  define recvs where "recvs = [(9 :: int, SerializeFrame ?f @ SerializeFrame ?g), (99, drop 9 (SerializeFrame ?f @ SerializeFrame ?g))]"
  have "received [(9, x), (99, drop 9 x)] = x" if "length x = 38" for x using that by simp
  from this [OF len] have all: "received recvs = SerializeFrame ?f @ SerializeFrame ?g" by (simp only: recvs_def)
  have returned: "{i. pcs (SDone True) (SDone True) i = SDone True} = {0, 1}" "\<forall>i. pcs (SDone True) (SDone True) i \<noteq> SDone False"
    by (auto simp: pcs_def)
  have "\<forall>(n, buf) \<in> set recvs. 0 < n" by (simp add: recvs_def)
  with concurrent_send_receive [OF r, of connected_transport recvs "[]"] returned all
  obtain order where "distinct order" "set order = {0, 1}"
    "ReceiverWorker deliver receiving lose_connection recvs [] (connected_transport, [])
     = Some (connected_transport, map (OnFrameReceived \<circ> frame_norm) (out_frames 1 (map two_calls order)))"
    by (auto simp: connected_transport_def)
  with r show ?thesis unfolding recvs_def by (intro exI [of _ "send_at True 3 None (SDone True) (SDone True)
      (SerializeFrame ?f @ SerializeFrame ?g) [(1, ?f, 18), (0, ?g, 20)]"] exI [of _ order]) simp
qed

end
