(* ===== verification/Pairing_Crypto.thy ===== *)
theory Pairing_Crypto
  imports Win_Api
begin

text \<open>
  The key agreement of pairing: \<open>windows/common/HkdfEngine.cpp\<close>, \<open>SasEngine.cpp\<close> and
  \<open>EcdhKeyExchange.cpp\<close>. CNG is the environment; that it computes some function \<open>H\<close> as
  HMAC-SHA256 is a hypothesis of the theorems that compare the key derivation with RFC 5869.
\<close>

section \<open>HMAC and HKDF\<close>

text \<open>Both sizes are cast to \<open>ULONG\<close>.\<close>

definition HmacSha256 :: "env \<Rightarrow> byte list option \<Rightarrow> byte list option \<Rightarrow> (os_log, byte list) state" where
  "HmacSha256 w key data =
     (case key of
        None \<Rightarrow> State_Monad.return []
      | Some k \<Rightarrow>
          if length k = 0 then State_Monad.return []
          else do {
            a \<leftarrow> cng w (BCryptOpenAlgorithmProvider ''BCRYPT_SHA256_ALGORITHM'' ''BCRYPT_ALG_HANDLE_HMAC_FLAG'');
            if \<not> a_ok a then State_Monad.return []
            else do {
              let hAlg = a_handle a;
              b \<leftarrow> cng w (BCryptCreateHash hAlg (dword_blob k));
              if \<not> a_ok b
              then do { _ \<leftarrow> cng w (BCryptCloseAlgorithmProvider hAlg); State_Monad.return [] }
              else do {
                let hHash = a_handle b;
                hashed \<leftarrow> (if data \<noteq> None \<and> length (the data) > 0
                           then do { c \<leftarrow> cng w (BCryptHashData hHash (dword_blob (the data))); State_Monad.return (a_ok c) }
                           else State_Monad.return True);
                if \<not> hashed
                then do {
                  _ \<leftarrow> cng w (BCryptDestroyHash hHash);
                  _ \<leftarrow> cng w (BCryptCloseAlgorithmProvider hAlg);
                  State_Monad.return []
                }
                else do {
                  f \<leftarrow> cng w (BCryptFinishHash hHash 32);
                  let mac = fill 32 (a_bytes f);
                  _ \<leftarrow> cng w (BCryptDestroyHash hHash);
                  _ \<leftarrow> cng w (BCryptCloseAlgorithmProvider hAlg);
                  if \<not> a_ok f then State_Monad.return [] else State_Monad.return mac
                }}}})"

definition Extract :: "env \<Rightarrow> byte list option \<Rightarrow> byte list option \<Rightarrow> (os_log, byte list) state" where
  "Extract w salt ikm =
     (let actualSalt = (case salt of None \<Rightarrow> replicate 32 0 | Some s \<Rightarrow> if length s = 0 then replicate 32 0 else s)
      in HmacSha256 w (Some actualSalt) ikm)"

text \<open>The loop of \<open>Expand\<close>; the counter is one byte and wraps.\<close>

function Expand_loop ::
    "env \<Rightarrow> byte list \<Rightarrow> byte list \<Rightarrow> nat \<Rightarrow> byte list \<Rightarrow> byte list \<Rightarrow> byte \<Rightarrow> os_log \<Rightarrow> byte list \<times> os_log" where
  "Expand_loop w prk info outLen okm t counter l =
     (if length okm < outLen
      then
        let msg = t @ info @ [counter];
            (t, l) = run_state (HmacSha256 w (Some prk) (Some msg)) l
        in if t = [] then ([], l)
           else
             let toCopy = min (length t) (outLen - length okm)
             in Expand_loop w prk info outLen (okm @ take toCopy t) t (counter + 1) l
      else (okm, l))"
  by pat_completeness auto

termination
proof (relation "measure (\<lambda>(w, prk, info, outLen, okm, t, counter, l). outLen - length okm)", goal_cases)
  case 1
  then show ?case by simp
next
  case (2 w prk info outLen okm t counter l msg r t' l' toCopy)
  then have "0 < toCopy" "toCopy \<le> length t'" by simp_all
  with 2(1) show ?case by simp
qed

declare Expand_loop.simps [simp del]

definition Expand :: "env \<Rightarrow> byte list option \<Rightarrow> byte list \<Rightarrow> nat \<Rightarrow> (os_log, byte list) state" where
  "Expand w prk info outLen =
     (case prk of
        None \<Rightarrow> State_Monad.return []
      | Some k \<Rightarrow>
          if length k = 0 \<or> outLen = 0 then State_Monad.return []
          else State (Expand_loop w k info outLen [] [] 1))"

definition DeriveKey ::
    "env \<Rightarrow> byte list option \<Rightarrow> byte list option \<Rightarrow> byte list \<Rightarrow> nat \<Rightarrow> (os_log, byte list) state" where
  "DeriveKey w salt ikm info outLen = do {
     prk \<leftarrow> Extract w salt ikm;
     if prk = [] then State_Monad.return [] else Expand w (Some prk) info outLen
   }"

section \<open>The short authentication string\<close>

text \<open>The bytes of the string literal \<open>"PhoneKey-SAS-PIN"\<close>.\<close>

definition sas_info :: "byte list" where
  "sas_info = map of_char ''PhoneKey-SAS-PIN''"

lemma length_sas_info: "length sas_info = 16"
  by (simp add: sas_info_def)

text \<open>\<open>std::setw(6) << std::setfill('0')\<close>: zeros on the left up to six characters.\<close>

definition setw6 :: "string \<Rightarrow> string" where
  "setw6 s = replicate (6 - length s) (CHR ''0'') @ s"

definition ComputeSasPin :: "env \<Rightarrow> byte list option \<Rightarrow> (os_log, string) state" where
  "ComputeSasPin w kSas =
     (case kSas of
        None \<Rightarrow> State_Monad.return ''000000''
      | Some k \<Rightarrow>
          if length k = 0 then State_Monad.return ''000000''
          else do {
            mac \<leftarrow> HmacSha256 w (Some k) (Some sas_info);
            if length mac < 4 then State_Monad.return ''000000''
            else do {
              let val = get_be32 (mac ! 0) (mac ! 1) (mac ! 2) (mac ! 3);
              let pin = (val mod 900000) + 100000;
              State_Monad.return (setw6 (decimal (unat pin)))
            }})"

section \<open>Ephemeral Diffie-Hellman\<close>

record EcdhKeyExchange =
  x_hEcdhAlg :: handle
  x_hLocalKeyPair :: handle

definition EcdhKeyExchange_init :: EcdhKeyExchange where
  "EcdhKeyExchange_init = \<lparr>x_hEcdhAlg = NULL, x_hLocalKeyPair = NULL\<rparr>"

definition EcdhKeyExchange_destroy :: "env \<Rightarrow> EcdhKeyExchange \<Rightarrow> (os_log, EcdhKeyExchange) state" where
  "EcdhKeyExchange_destroy w x = do {
     x \<leftarrow> (if x_hLocalKeyPair x \<noteq> NULL
           then do { _ \<leftarrow> cng w (BCryptDestroyKey (x_hLocalKeyPair x)); State_Monad.return (x\<lparr>x_hLocalKeyPair := NULL\<rparr>) }
           else State_Monad.return x);
     (if x_hEcdhAlg x \<noteq> NULL
      then do { _ \<leftarrow> cng w (BCryptCloseAlgorithmProvider (x_hEcdhAlg x)); State_Monad.return (x\<lparr>x_hEcdhAlg := NULL\<rparr>) }
      else State_Monad.return x)
   }"

definition GenerateEphemeralKeyPair :: "env \<Rightarrow> EcdhKeyExchange \<Rightarrow> (os_log, bool \<times> EcdhKeyExchange) state" where
  "GenerateEphemeralKeyPair w x = do {
     a \<leftarrow> cng w (BCryptOpenAlgorithmProvider ''BCRYPT_ECDH_P256_ALGORITHM'' '''');
     if \<not> a_ok a then State_Monad.return (False, x)
     else do {
       let x = x\<lparr>x_hEcdhAlg := a_handle a\<rparr>;
       b \<leftarrow> cng w (BCryptGenerateKeyPair (x_hEcdhAlg x) 256);
       if \<not> a_ok b then State_Monad.return (False, x)
       else do {
         let x = x\<lparr>x_hLocalKeyPair := a_handle b\<rparr>;
         c \<leftarrow> cng w (BCryptFinalizeKeyPair (x_hLocalKeyPair x));
         State_Monad.return (a_ok c, x)
       }}}"

text \<open>
  \<open>sizeof(BCRYPT_ECCKEY_BLOB)\<close> is 8. The first export asks for the size (\<open>a_num\<close>), the second
  fills a buffer of that size.
\<close>

definition GetPublicPointUncompressed :: "env \<Rightarrow> EcdhKeyExchange \<Rightarrow> (os_log, byte list) state" where
  "GetPublicPointUncompressed w x =
     (if x_hLocalKeyPair x = NULL then State_Monad.return []
      else do {
        a \<leftarrow> cng w (BCryptExportKey (x_hLocalKeyPair x));
        let cbBlob = nat (a_num a);
        if \<not> a_ok a \<or> cbBlob < 8 + 64 then State_Monad.return []
        else do {
          b \<leftarrow> cng w (BCryptExportKey (x_hLocalKeyPair x));
          let blob = fill cbBlob (a_bytes b);
          if \<not> a_ok b then State_Monad.return []
          else State_Monad.return (0x04 # take 64 (drop 8 blob))
        }})"

definition ComputeSharedSecret :: "env \<Rightarrow> EcdhKeyExchange \<Rightarrow> byte list option \<Rightarrow> (os_log, byte list) state" where
  "ComputeSharedSecret w x peerPublicXy =
     (case peerPublicXy of
        None \<Rightarrow> State_Monad.return []
      | Some peer \<Rightarrow>
          if x_hLocalKeyPair x = NULL \<or> (length peer \<noteq> 64 \<and> length peer \<noteq> 65) then State_Monad.return []
          else do {
            let xy = (if length peer = 65 \<and> peer ! 0 = 0x04 then drop 1 peer else peer);
            a \<leftarrow> cng w (BCryptImportKeyPair (x_hEcdhAlg x) (EccBlob ''BCRYPT_ECDH_PUBLIC_P256_MAGIC'' 32 (take 64 xy)));
            if \<not> a_ok a then State_Monad.return []
            else do {
              let hPeerKey = a_handle a;
              b \<leftarrow> cng w (BCryptSecretAgreement (x_hLocalKeyPair x) hPeerKey);
              _ \<leftarrow> cng w (BCryptDestroyKey hPeerKey);
              if \<not> a_ok b then State_Monad.return []
              else do {
                let hSecret = a_handle b;
                c \<leftarrow> cng w (BCryptDeriveKey hSecret);
                let cbSecret = nat (a_num c);
                if \<not> a_ok c \<or> cbSecret = 0
                then do { _ \<leftarrow> cng w (BCryptDestroySecret hSecret); State_Monad.return [] }
                else do {
                  d \<leftarrow> cng w (BCryptDeriveKey hSecret);
                  let sharedSecret = fill cbSecret (a_bytes d);
                  _ \<leftarrow> cng w (BCryptDestroySecret hSecret);
                  if \<not> a_ok d then State_Monad.return [] else State_Monad.return sharedSecret
                }}}})"

section \<open>HKDF is RFC 5869\<close>

text \<open>
  Documented behaviour of CNG: every call of a keyed hash succeeds, and the finished hash of an
  object created with key \<open>k\<close> and fed \<open>d\<close> once (or nothing) is \<open>H k d\<close>, 32 bytes.
\<close>

definition hmac_env :: "env \<Rightarrow> (byte list \<Rightarrow> byte list \<Rightarrow> byte list) \<Rightarrow> bool" where
  "hmac_env w H \<longleftrightarrow> (\<forall>k d. length (H k d) = 32)
     \<and> (\<forall>l a f. a_ok (w l (Cng (BCryptOpenAlgorithmProvider a f))))
     \<and> (\<forall>l alg k. a_ok (w l (Cng (BCryptCreateHash alg k))))
     \<and> (\<forall>l h d. a_ok (w l (Cng (BCryptHashData h d))))
     \<and> (\<forall>l h n. a_ok (w l (Cng (BCryptFinishHash h n))))
     \<and> (\<forall>l alg k a d b. a_bytes (w (l @ [(Cng (BCryptCreateHash alg k), a), (Cng (BCryptHashData (a_handle a) d), b)])
          (Cng (BCryptFinishHash (a_handle a) 32))) = H k d)
     \<and> (\<forall>l alg k a. a_bytes (w (l @ [(Cng (BCryptCreateHash alg k), a)]) (Cng (BCryptFinishHash (a_handle a) 32))) = H k [])"

lemma HmacSha256_computes:
  assumes "hmac_env w H" "k \<noteq> []" "length k < 2 ^ 32" "length (case data of None \<Rightarrow> [] | Some d \<Rightarrow> d) < 2 ^ 32"
  shows "fst (run_state (HmacSha256 w (Some k) data) l) = H k (case data of None \<Rightarrow> [] | Some d \<Rightarrow> d)"
proof -
  note blob = dword_blob_id [OF assms(3)]
  let ?o = "Cng (BCryptOpenAlgorithmProvider ''BCRYPT_SHA256_ALGORITHM'' ''BCRYPT_ALG_HANDLE_HMAC_FLAG'')"
  let ?l1 = "l @ [(?o, w l ?o)]"
  let ?c = "Cng (BCryptCreateHash (a_handle (w l ?o)) k)"
  let ?h = "a_handle (w ?l1 ?c)"
  let ?d = "Cng (BCryptHashData ?h (the data))"
  let ?f = "Cng (BCryptFinishHash ?h 32)"
  have ok: "a_ok (w l' (Cng (BCryptOpenAlgorithmProvider a f)))" "a_ok (w l' (Cng (BCryptCreateHash alg k')))"
    "a_ok (w l' (Cng (BCryptHashData h d)))" "a_ok (w l' (Cng (BCryptFinishHash h n)))" for l' a f alg k' h d n
    using assms(1) by (simp_all add: hmac_env_def)
  have fill32: "fill 32 (H k d) = H k d" for d
    using assms(1) by (simp add: hmac_env_def fill_def)
  have F1: "a_bytes (w (?l1 @ [(?c, w ?l1 ?c), (?d, b)]) ?f) = H k (the data)" for b
    using assms(1) unfolding hmac_env_def by blast
  have F2: "a_bytes (w (?l1 @ [(?c, w ?l1 ?c)]) ?f) = H k []"
    using assms(1) unfolding hmac_env_def by blast
  show ?thesis
  proof (cases "data \<noteq> None \<and> length (the data) > 0")
    case True
    with assms(4) have "dword_blob (the data) = the data" by (intro dword_blob_id) auto
    with True assms(2) F1 ok fill32 show ?thesis by (auto simp: HmacSha256_def run_if Let_def blob)
  next
    case False
    then have "(case data of None \<Rightarrow> [] | Some d \<Rightarrow> d) = []" by (auto split: option.split)
    with False assms(2) F2 ok fill32 show ?thesis by (auto simp: HmacSha256_def run_if Let_def blob)
  qed
qed

text \<open>The output blocks of RFC 5869 and the output keying material of length \<open>L\<close>.\<close>

fun hkdf_T :: "(byte list \<Rightarrow> byte list \<Rightarrow> byte list) \<Rightarrow> byte list \<Rightarrow> byte list \<Rightarrow> nat \<Rightarrow> byte list" where
  "hkdf_T H prk info 0 = []"
| "hkdf_T H prk info (Suc n) = H prk (hkdf_T H prk info n @ info @ [of_nat (Suc n)])"

definition hkdf_expand :: "(byte list \<Rightarrow> byte list \<Rightarrow> byte list) \<Rightarrow> byte list \<Rightarrow> byte list \<Rightarrow> nat \<Rightarrow> byte list" where
  "hkdf_expand H prk info L = take L (concat (map (hkdf_T H prk info) [1..<Suc ((L + 31) div 32)]))"

definition hkdf_extract :: "(byte list \<Rightarrow> byte list \<Rightarrow> byte list) \<Rightarrow> byte list \<Rightarrow> byte list \<Rightarrow> byte list" where
  "hkdf_extract H salt ikm = H (if salt = [] then replicate 32 0 else salt) ikm"

definition blocks :: "(byte list \<Rightarrow> byte list \<Rightarrow> byte list) \<Rightarrow> byte list \<Rightarrow> byte list \<Rightarrow> nat \<Rightarrow> byte list" where
  "blocks H prk info n = concat (map (hkdf_T H prk info) [1..<Suc n])"

lemma blocks_Suc: "blocks H prk info (Suc n) = blocks H prk info n @ hkdf_T H prk info (Suc n)"
  by (simp add: blocks_def)

lemma length_blocks: "hmac_env w H \<Longrightarrow> length (blocks H prk info n) = 32 * n"
  by (induction n) (simp_all add: blocks_Suc, simp_all add: blocks_def hmac_env_def)

lemma Expand_loop_step:
  assumes "length okm < L" "run_state (HmacSha256 w (Some prk) (Some (t @ info @ [c]))) l = (t', l')" "t' \<noteq> []"
  shows "Expand_loop w prk info L okm t c l
    = Expand_loop w prk info L (okm @ take (min (length t') (L - length okm)) t') t' (c + 1) l'"
  using assms by (subst Expand_loop.simps) simp

lemma Expand_loop_blocks:
  assumes "hmac_env w H" "prk \<noteq> []" "32 * n < L + 32" "length prk < 2 ^ 32" "length info + 33 < 2 ^ 32"
  shows "fst (Expand_loop w prk info L (take L (blocks H prk info n)) (hkdf_T H prk info n) (of_nat (Suc n)) l)
    = hkdf_expand H prk info L"
  using assms(3)
proof (induction "L - 32 * n" arbitrary: n l rule: less_induct)
  case less
  let ?t = "hkdf_T H prk info n" and ?okm = "take L (blocks H prk info n)"
  have len: "length (blocks H prk info m) = 32 * m" for m using assms(1) by (rule length_blocks)
  have T32: "length (hkdf_T H prk info (Suc n)) = 32" using assms(1) by (simp add: hmac_env_def)
  show ?case
  proof (cases "32 * n < L")
    case True
    obtain t' l' where r: "run_state (HmacSha256 w (Some prk) (Some (?t @ info @ [of_nat (Suc n)]))) l = (t', l')"
      by fastforce
    have "length ?t \<le> 32" using assms(1) by (cases n) (simp_all add: hmac_env_def)
    with r HmacSha256_computes [OF assms(1,2,4), of "Some (?t @ info @ [of_nat (Suc n)])" l] assms(5)
    have t': "t' = hkdf_T H prk info (Suc n)" by simp
    have okm: "?okm = blocks H prk info n" using True by (simp add: len)
    have okm': "?okm @ take (min (length t') (L - length ?okm)) t' = take L (blocks H prk info (Suc n))"
      using True T32 by (cases "32 \<le> L - 32 * n") (simp_all add: okm len blocks_Suc t' del: hkdf_T.simps)
    have "t' \<noteq> []" using T32 by (auto simp: t' simp del: hkdf_T.simps)
    moreover have "length ?okm < L" using True by (simp add: len)
    moreover have c: "(of_nat (Suc n) :: byte) + 1 = of_nat (Suc (Suc n))" by simp
    ultimately have step: "Expand_loop w prk info L ?okm ?t (of_nat (Suc n)) l
        = Expand_loop w prk info L (take L (blocks H prk info (Suc n))) (hkdf_T H prk info (Suc n)) (of_nat (Suc (Suc n))) l'"
      using Expand_loop_step [OF _ r, of ?okm L] unfolding t' c okm' [unfolded t'] by blast
    show ?thesis unfolding step using True less.prems by (intro less.hyps) simp_all
  next
    case False
    with less.prems have n: "(L + 31) div 32 = n" by simp
    have "length ?okm = L" using False by (simp add: len)
    then have "Expand_loop w prk info L ?okm ?t (of_nat (Suc n)) l = (?okm, l)" by (subst Expand_loop.simps) simp
    then show ?thesis by (simp add: hkdf_expand_def n blocks_def)
  qed
qed

lemma DeriveKey_computes:
  assumes "hmac_env w H" "0 < L" "length (case salt of None \<Rightarrow> [] | Some s \<Rightarrow> s) < 2 ^ 32"
    and "length (case ikm of None \<Rightarrow> [] | Some d \<Rightarrow> d) < 2 ^ 32" "length info + 33 < 2 ^ 32"
  shows "fst (run_state (DeriveKey w salt ikm info L) l)
      = hkdf_expand H (hkdf_extract H (case salt of None \<Rightarrow> [] | Some s \<Rightarrow> s) (case ikm of None \<Rightarrow> [] | Some d \<Rightarrow> d)) info L
    \<and> length (fst (run_state (DeriveKey w salt ikm info L) l)) = L"
proof -
  let ?salt = "case salt of None \<Rightarrow> replicate 32 0 | Some s \<Rightarrow> if length s = 0 then replicate 32 0 else s"
  let ?prk = "hkdf_extract H (case salt of None \<Rightarrow> [] | Some s \<Rightarrow> s) (case ikm of None \<Rightarrow> [] | Some d \<Rightarrow> d)"
  have "?salt \<noteq> []" "length ?salt < 2 ^ 32" using assms(3) by (auto split: option.split)
  from HmacSha256_computes [OF assms(1) this assms(4), of l]
  have prk: "fst (run_state (Extract w salt ikm) l) = ?prk"
    by (cases salt) (simp_all add: Extract_def hkdf_extract_def)
  then obtain l1 where e: "run_state (Extract w salt ikm) l = (?prk, l1)"
    by (cases "run_state (Extract w salt ikm) l") simp
  have len: "length ?prk = 32" using assms(1) by (simp add: hkdf_extract_def hmac_env_def)
  then have ne: "?prk \<noteq> []" by (metis list.size(3) zero_neq_numeral)
  have "fst (Expand_loop w ?prk info L [] [] 1 l1) = hkdf_expand H ?prk info L"
    using Expand_loop_blocks [OF assms(1) ne, of 0 L info l1] assms(5) len by (simp add: blocks_def)
  then have r: "fst (run_state (DeriveKey w salt ikm info L) l) = hkdf_expand H ?prk info L"
    using assms(2) ne by (simp add: DeriveKey_def e Expand_def)
  have "length (hkdf_expand H ?prk info L) = min L (32 * ((L + 31) div 32))"
    using length_blocks [OF assms(1), of ?prk info "(L + 31) div 32"] by (simp add: hkdf_expand_def blocks_def)
  also have "\<dots> = L" by simp
  finally show ?thesis using r by simp
qed

text \<open>
  C38. \<open>HkdfEngine::DeriveKey\<close> is HKDF of RFC 5869: if CNG computes \<open>H\<close> as HMAC-SHA256 and its calls
  succeed, the result for every positive length up to the limit of the RFC, 255 blocks of 32 bytes,
  and every salt, input and info string whose sizes survive the cast to \<open>ULONG\<close> (each hashed message
  is at most 33 bytes longer than the info string), is the output of extract-then-expand with \<open>H\<close>,
  of exactly that length; an absent or empty salt is 32 zero bytes.
\<close>

theorem DeriveKey_is_hkdf:
  assumes "hmac_env w H" "0 < L" "L \<le> 255 * 32" "length (case salt of None \<Rightarrow> [] | Some s \<Rightarrow> s) < 2 ^ 32"
    and "length (case ikm of None \<Rightarrow> [] | Some d \<Rightarrow> d) < 2 ^ 32" "length info + 33 < 2 ^ 32"
  shows "fst (run_state (DeriveKey w salt ikm info L) l)
      = hkdf_expand H (hkdf_extract H (case salt of None \<Rightarrow> [] | Some s \<Rightarrow> s) (case ikm of None \<Rightarrow> [] | Some d \<Rightarrow> d)) info L
    \<and> length (fst (run_state (DeriveKey w salt ikm info L) l)) = L"
  using assms(1,2,4-) by (rule DeriveKey_computes)

text \<open>
  An environment that satisfies the hypothesis: its keyed hash of \<open>d\<close> under \<open>k\<close> is the first 32
  bytes of \<open>k @ d\<close>, read off the last calls.
\<close>

definition sample_hmac :: "byte list \<Rightarrow> byte list \<Rightarrow> byte list" where
  "sample_hmac k d = fill 32 (k @ d)"

definition hmac_sample_env :: env where
  "hmac_sample_env l c = \<lparr>a_ok = True, a_handle = 7, a_bytes =
     (case rev l of
        (Cng (BCryptHashData h d), _) # (Cng (BCryptCreateHash alg k), _) # _ \<Rightarrow> sample_hmac k d
      | (Cng (BCryptCreateHash alg k), _) # _ \<Rightarrow> sample_hmac k []
      | _ \<Rightarrow> []), a_num = 0\<rparr>"

lemma hmac_env_sample: "hmac_env hmac_sample_env sample_hmac"
  by (simp add: hmac_env_def hmac_sample_env_def sample_hmac_def)

theorem DeriveKey_is_hkdf_witness:
  "fst (run_state (DeriveKey hmac_sample_env None (Some [1, 2]) [3] 40) [])
      = hkdf_expand sample_hmac (hkdf_extract sample_hmac [] [1, 2]) [3] 40
    \<and> length (fst (run_state (DeriveKey hmac_sample_env None (Some [1, 2]) [3] 40) [])) = 40"
proof -
  have "(0 :: nat) < 40" "(40 :: nat) \<le> 255 * 32"
    "length (case None :: byte list option of None \<Rightarrow> [] | Some s \<Rightarrow> s) < 2 ^ 32"
    "length (case Some [1, 2 :: byte] of None \<Rightarrow> [] | Some d \<Rightarrow> d) < 2 ^ 32" "length [3 :: byte] + 33 < 2 ^ 32"
    by simp_all
  from DeriveKey_is_hkdf [OF hmac_env_sample this, of "[]"] show ?thesis
    unfolding option.case .
qed

section \<open>The PIN\<close>

lemma setw6_six: "length s = 6 \<Longrightarrow> setw6 s = s"
  by (simp add: setw6_def)

lemma pin_bounds:
  fixes v :: u32
  shows "unat (v mod 900000 + 100000) = unat v mod 900000 + 100000"
proof -
  have m: "unat (v mod 900000) = unat v mod 900000" by (simp add: unat_mod)
  have "unat (v mod 900000) + unat (100000 :: u32) < 2 ^ LENGTH(32)" by (simp add: m)
  then have "unat (v mod 900000 + 100000) = unat (v mod 900000) + unat (100000 :: u32)"
    by (rule unat_add_lem [THEN iffD1])
  then show ?thesis by (simp add: m)
qed

text \<open>
  C39. The PIN of \<open>SasEngine::ComputeSasPin\<close> always has six characters: the failure value
  \<open>000000\<close>, or the decimal digits of a number from 100000 to 999999, namely the first four bytes of
  the MAC (big-endian) modulo 900000 plus 100000; no digit is lost and none is padded. If CNG
  computes \<open>H\<close> (and the size of the key fits a \<open>ULONG\<close>), both sides of a pairing with the same key show the same PIN.
\<close>

theorem sas_pin_correct:
  "length (fst (run_state (ComputeSasPin w kSas) l)) = 6
   \<and> (fst (run_state (ComputeSasPin w kSas) l) = ''000000''
      \<or> 100000 \<le> decimal_value (fst (run_state (ComputeSasPin w kSas) l))
        \<and> decimal_value (fst (run_state (ComputeSasPin w kSas) l)) \<le> 999999)
   \<and> (hmac_env w H \<and> kSas = Some k \<and> k \<noteq> [] \<and> length k < 2 ^ 32 \<longrightarrow>
        decimal_value (fst (run_state (ComputeSasPin w kSas) l))
          = unat (dec_be32 (take 4 (H k sas_info))) mod 900000 + 100000)"
proof (cases "kSas = None \<or> kSas = Some []")
  case True
  then show ?thesis by (auto simp: ComputeSasPin_def)
next
  case False
  then obtain k' where k': "kSas = Some k'" "k' \<noteq> []" by auto
  obtain mac l1 where mac: "run_state (HmacSha256 w (Some k') (Some sas_info)) l = (mac, l1)" by fastforce
  let ?v = "unat (get_be32 (mac ! 0) (mac ! 1) (mac ! 2) (mac ! 3)) mod 900000 + 100000"
  have six: "length (decimal ?v) = 6" using length_decimal [of 5 ?v] by simp
  have run: "fst (run_state (ComputeSasPin w kSas) l) = (if length mac < 4 then ''000000'' else decimal ?v)"
    using k' six by (simp add: ComputeSasPin_def mac Let_def pin_bounds setw6_six)
  have "length mac = 32 \<and> mac = H k' sas_info" if "hmac_env w H" "length k' < 2 ^ 32"
    using HmacSha256_computes [OF that(1) k'(2) that(2), of "Some sas_info" l] length_sas_info that
    by (simp add: mac hmac_env_def)
  then have H: "hmac_env w H \<and> kSas = Some k \<and> k \<noteq> [] \<and> length k < 2 ^ 32 \<longrightarrow> \<not> length mac < 4
      \<and> unat (dec_be32 (take 4 (H k sas_info))) mod 900000 + 100000 = ?v"
    by (auto simp: k' dec_be32_def)
  have "?v < 900000 + 100000" by simp
  then have "?v \<le> 999999" by simp
  then show ?thesis unfolding run using six H by (simp add: decimal_value_decimal)
qed

theorem sas_pin_correct_witness:
  "decimal_value (fst (run_state (ComputeSasPin hmac_sample_env (Some [1])) []))
     = unat (dec_be32 (take 4 (sample_hmac [1] sas_info))) mod 900000 + 100000"
  using sas_pin_correct [of hmac_sample_env "Some [1]" "[]" sample_hmac "[1]"] hmac_env_sample by simp

section \<open>Resources\<close>

lemma HmacSha256_neutral: "resource_neutral (HmacSha256 w k d)"
proof (rule spends_neutral, cases k)
  case None
  then show "spends {#} (HmacSha256 w k d)" by (simp add: HmacSha256_def spends_return)
next
  case (Some k')
  show "spends {#} (HmacSha256 w k d)"
    unfolding Some HmacSha256_def option.case Let_def
    by (auto simp: bind_if spends_return intro!: spends_sys)
qed

lemma Expand_loop_neutral:
  "Expand_loop w prk info L okm t c l = (r, l') \<Longrightarrow> held l' = held l \<and> (releases_ok l \<longrightarrow> releases_ok l')"
proof (induction w prk info L okm t c l rule: Expand_loop.induct)
  case (1 w prk info L okm t c l)
  obtain t' l1 where h: "run_state (HmacSha256 w (Some prk) (Some (t @ info @ [c]))) l = (t', l1)" by fastforce
  have n: "held l1 = held l" "releases_ok l \<longrightarrow> releases_ok l1"
    using HmacSha256_neutral [of w "Some prk" "Some (t @ info @ [c])"] h
    unfolding resource_neutral_def by (metis snd_conv)+
  show ?case
  proof (cases "length okm < L \<and> t' \<noteq> []")
    case True
    from "1.IH" [OF _ refl h [symmetric]] True "1.prems" Expand_loop_step [OF _ h] n show ?thesis by auto
  next
    case False
    with "1.prems" h n show ?thesis by (subst (asm) Expand_loop.simps) (auto split: if_splits)
  qed
qed

lemma Extract_neutral: "resource_neutral (Extract w salt ikm)"
  by (simp add: Extract_def HmacSha256_neutral Let_def)

lemma Expand_neutral: "resource_neutral (Expand w prk info L)"
proof (cases "prk = None \<or> prk = Some [] \<or> L = 0")
  case True
  then have "Expand w prk info L = State_Monad.return []" by (auto simp: Expand_def split: option.split)
  then show ?thesis by (simp add: neutral_return)
next
  case False
  then obtain k where "prk = Some k" "k \<noteq> []" "L \<noteq> 0" by auto
  then show ?thesis
    using Expand_loop_neutral [of w k info L "[]" "[]" 1]
    by (auto simp: Expand_def resource_neutral_def prod_eq_iff)
qed

lemma DeriveKey_neutral: "resource_neutral (DeriveKey w salt ikm info L)"
  unfolding DeriveKey_def
  by (rule spends_neutral, rule spends_bind [OF Extract_neutral])
    (auto intro: spends_return neutral_spends Expand_neutral)

lemma ComputeSasPin_neutral: "resource_neutral (ComputeSasPin w kSas)"
proof (rule spends_neutral, cases kSas)
  case None
  then show "spends {#} (ComputeSasPin w kSas)" by (simp add: ComputeSasPin_def spends_return)
next
  case (Some k)
  show "spends {#} (ComputeSasPin w kSas)"
    unfolding Some ComputeSasPin_def option.case Let_def
    by (auto intro!: spends_return spends_bind [OF HmacSha256_neutral])
qed

lemma GetPublicPoint_neutral: "resource_neutral (GetPublicPointUncompressed w x)"
  unfolding GetPublicPointUncompressed_def Let_def
  by (rule spends_neutral) (auto intro!: spends_intros)

lemma ComputeSharedSecret_neutral: "resource_neutral (ComputeSharedSecret w x peer)"
proof (rule spends_neutral, cases peer)
  case None
  then show "spends {#} (ComputeSharedSecret w x peer)" by (simp add: ComputeSharedSecret_def spends_return)
next
  case (Some p)
  show "spends {#} (ComputeSharedSecret w x peer)"
    unfolding Some ComputeSharedSecret_def option.case Let_def
    by (auto intro!: spends_return spends_sys)
qed

text \<open>
  What a key exchange object is used for after \<open>GenerateEphemeralKeyPair\<close>, and what it holds.
\<close>

datatype pairing_call =
    UsePublicPoint
  | UseSharedSecret "byte list option"
  | UseDeriveKey "byte list option" "byte list option" "byte list" nat
  | UseSasPin "byte list option"

fun pairing_use :: "env \<Rightarrow> EcdhKeyExchange \<Rightarrow> pairing_call \<Rightarrow> (os_log, unit) state" where
  "pairing_use w x UsePublicPoint = do { _ \<leftarrow> GetPublicPointUncompressed w x; State_Monad.return () }"
| "pairing_use w x (UseSharedSecret peer) = do { _ \<leftarrow> ComputeSharedSecret w x peer; State_Monad.return () }"
| "pairing_use w x (UseDeriveKey salt ikm info L) = do { _ \<leftarrow> DeriveKey w salt ikm info L; State_Monad.return () }"
| "pairing_use w x (UseSasPin k) = do { _ \<leftarrow> ComputeSasPin w k; State_Monad.return () }"

fun pairing_uses :: "env \<Rightarrow> EcdhKeyExchange \<Rightarrow> pairing_call list \<Rightarrow> (os_log, unit) state" where
  "pairing_uses w x [] = State_Monad.return ()"
| "pairing_uses w x (u # us) = do { _ \<leftarrow> pairing_use w x u; pairing_uses w x us }"

lemma pairing_uses_neutral: "resource_neutral (pairing_uses w x us)"
proof (induction us)
  case Nil
  then show ?case by (simp add: resource_neutral_def)
next
  case (Cons u us)
  have "resource_neutral (pairing_use w x u)"
    by (cases u) (simp_all add: neutral_bind neutral_return GetPublicPoint_neutral
        ComputeSharedSecret_neutral DeriveKey_neutral ComputeSasPin_neutral)
  with Cons show ?case by (simp add: neutral_bind)
qed

definition ecdh_holds :: "EcdhKeyExchange \<Rightarrow> resource multiset" where
  "ecdh_holds x = (if x_hLocalKeyPair x = NULL then {#} else {#RKey (x_hLocalKeyPair x)#})
     + (if x_hEcdhAlg x = NULL then {#} else {#RAlg (x_hEcdhAlg x)#})"

lemma destroy_spends: "spends (ecdh_holds x) (EcdhKeyExchange_destroy w x)"
  unfolding EcdhKeyExchange_destroy_def ecdh_holds_def
  by (auto simp: bind_if intro!: spends_return spends_sys)

text \<open>Documented behaviour of CNG: what was opened or generated has a handle, not null.\<close>

definition ecdh_nonnull :: "env \<Rightarrow> bool" where
  "ecdh_nonnull w \<longleftrightarrow> (\<forall>l a b. a_ok (w l (Cng (BCryptOpenAlgorithmProvider a b)))
       \<longrightarrow> a_handle (w l (Cng (BCryptOpenAlgorithmProvider a b))) \<noteq> NULL)
     \<and> (\<forall>l h n. a_ok (w l (Cng (BCryptGenerateKeyPair h n)))
       \<longrightarrow> a_handle (w l (Cng (BCryptGenerateKeyPair h n))) \<noteq> NULL)"

definition ecdh_open :: os_call where
  "ecdh_open = Cng (BCryptOpenAlgorithmProvider ''BCRYPT_ECDH_P256_ALGORITHM'' [])"

lemma Generate_held:
  assumes "ecdh_nonnull w" "run_state (GenerateEphemeralKeyPair w x) l = ((ok, x'), l')"
  shows "(\<exists>new. held l' = new + held l \<and> (releases_ok l \<longrightarrow> releases_ok l')
     \<and> (x = EcdhKeyExchange_init \<longrightarrow> new = ecdh_holds x') \<and> (ok \<longrightarrow> new = ecdh_holds x'
         \<and> x_hLocalKeyPair x' \<noteq> NULL \<and> x_hEcdhAlg x' \<noteq> NULL))"
proof -
  obtain a where a: "a = w l ecdh_open" by blast
  obtain g where g: "g = Cng (BCryptGenerateKeyPair (a_handle a) 256)" by blast
  obtain b where b: "b = w (l @ [(ecdh_open, a)]) g" by blast
  obtain f c where f: "f = Cng (BCryptFinalizeKeyPair (a_handle b))" and c: "c = w (l @ [(ecdh_open, a), (g, b)]) f" by blast
  have nn: "a_ok a \<longrightarrow> a_handle a \<noteq> NULL" "a_ok b \<longrightarrow> a_handle b \<noteq> NULL"
    using assms(1) by (auto simp: ecdh_nonnull_def ecdh_open_def a b g)
  have run: "run_state (GenerateEphemeralKeyPair w x) l =
    (if \<not> a_ok a then ((False, x), l @ [(ecdh_open, a)])
     else if \<not> a_ok b then ((False, x\<lparr>x_hEcdhAlg := a_handle a\<rparr>), l @ [(ecdh_open, a), (g, b)])
     else ((a_ok c, x\<lparr>x_hEcdhAlg := a_handle a, x_hLocalKeyPair := a_handle b\<rparr>),
       l @ [(ecdh_open, a), (g, b), (f, c)]))"
    unfolding c f b g a by (simp add: GenerateEphemeralKeyPair_def run_if Let_def flip: ecdh_open_def)
  have eff: "acquires (ecdh_open, a) = (if a_ok a then {#RAlg (a_handle a)#} else {#})" "releases (ecdh_open, a) = {#}"
    "acquires (g, b) = (if a_ok b then {#RKey (a_handle b)#} else {#})" "releases (g, b) = {#}"
    "acquires (f, c) = {#}" "releases (f, c) = {#}"
    by (simp_all add: ecdh_open_def g f)
  show ?thesis
    using assms(2) nn unfolding run
    by (auto simp: eff ecdh_holds_def EcdhKeyExchange_init_def split: if_splits)
qed

text \<open>
  A pairing session gives back everything: one \<open>GenerateEphemeralKeyPair\<close> (successful or not),
  any sequence of public-point, shared-secret, HKDF and PIN computations with any of their CNG calls
  failing, and the destructor leave the process with exactly the resources it had before.
\<close>

theorem pairing_no_leak:
  assumes "ecdh_nonnull w" "run_state (GenerateEphemeralKeyPair w EcdhKeyExchange_init) l = ((ok, x), l1)"
    and "run_state (pairing_uses w x us) l1 = ((), l2)" "run_state (EcdhKeyExchange_destroy w x) l2 = (x', l3)"
  shows "held l3 = held l \<and> (releases_ok l \<longrightarrow> releases_ok l3)"
proof -
  from Generate_held [OF assms(1,2)] have g: "held l1 = held l + ecdh_holds x" "releases_ok l \<longrightarrow> releases_ok l1"
    by (auto simp: add.commute)
  have u: "held l2 = held l1" "releases_ok l1 \<longrightarrow> releases_ok l2"
    using pairing_uses_neutral [of w x us] assms(3) unfolding resource_neutral_def by (metis snd_conv)+
  from destroy_spends [of x w, unfolded spends_def, rule_format, of l2 "held l"] g u assms(4) show ?thesis by auto
qed

lemma ecdh_nonnull_sample: "ecdh_nonnull hmac_sample_env"
  by (simp add: ecdh_nonnull_def hmac_sample_env_def)

theorem pairing_no_leak_witness:
  "\<exists>ok x l1 l2 x' l3. run_state (GenerateEphemeralKeyPair hmac_sample_env EcdhKeyExchange_init) [] = ((ok, x), l1)
     \<and> run_state (pairing_uses hmac_sample_env x [UsePublicPoint, UseSasPin (Some [1])]) l1 = ((), l2)
     \<and> run_state (EcdhKeyExchange_destroy hmac_sample_env x) l2 = (x', l3)
     \<and> held l3 = {#} \<and> releases_ok l3"
proof -
  obtain ok x l1 where g: "run_state (GenerateEphemeralKeyPair hmac_sample_env EcdhKeyExchange_init) [] = ((ok, x), l1)"
    by (metis surj_pair)
  obtain l2 where u: "run_state (pairing_uses hmac_sample_env x [UsePublicPoint, UseSasPin (Some [1])]) l1 = ((), l2)"
    by (metis surj_pair old.unit.exhaust)
  obtain x' l3 where d: "run_state (EcdhKeyExchange_destroy hmac_sample_env x) l2 = (x', l3)"
    by (metis surj_pair)
  from pairing_no_leak [OF ecdh_nonnull_sample g u d] g u d show ?thesis by auto
qed

text \<open>
  A second \<open>GenerateEphemeralKeyPair\<close> on the same object leaks: when both calls succeed, the
  provider and the key pair of the first stay open after the destructor.
\<close>

theorem regenerate_leaks:
  assumes "ecdh_nonnull w" "run_state (GenerateEphemeralKeyPair w EcdhKeyExchange_init) l = ((True, x1), l1)"
    and "run_state (GenerateEphemeralKeyPair w x1) l1 = ((True, x2), l2)"
    and "run_state (EcdhKeyExchange_destroy w x2) l2 = (x', l3)"
  shows "held l3 = held l + {#RKey (x_hLocalKeyPair x1), RAlg (x_hEcdhAlg x1)#}"
proof -
  have "held l1 = held l + ecdh_holds x1" "held l2 = held l1 + ecdh_holds x2"
    using Generate_held [OF assms(1,2)] Generate_held [OF assms(1,3)] by (auto simp: add.commute)
  then have "held l3 = held l + ecdh_holds x1"
    using destroy_spends [of x2 w, unfolded spends_def, rule_format, of l2 "held l + ecdh_holds x1"] assms(4) by auto
  moreover have "ecdh_holds x1 = {#RKey (x_hLocalKeyPair x1), RAlg (x_hEcdhAlg x1)#}"
    using Generate_held [OF assms(1,2)] by (auto simp: ecdh_holds_def)
  ultimately show ?thesis by simp
qed

lemma Generate_sample:
  "run_state (GenerateEphemeralKeyPair hmac_sample_env x) l
     = ((True, x\<lparr>x_hEcdhAlg := 7, x_hLocalKeyPair := 7\<rparr>), snd (run_state (GenerateEphemeralKeyPair hmac_sample_env x) l))"
  by (simp add: GenerateEphemeralKeyPair_def run_if Let_def hmac_sample_env_def)

theorem regenerate_leaks_witness:
  "\<exists>x1 l1 x2 l2 x' l3. run_state (GenerateEphemeralKeyPair hmac_sample_env EcdhKeyExchange_init) [] = ((True, x1), l1)
     \<and> run_state (GenerateEphemeralKeyPair hmac_sample_env x1) l1 = ((True, x2), l2)
     \<and> run_state (EcdhKeyExchange_destroy hmac_sample_env x2) l2 = (x', l3)
     \<and> held l3 = {#RKey 7, RAlg 7#}"
proof -
  let ?x = "EcdhKeyExchange_init\<lparr>x_hEcdhAlg := 7, x_hLocalKeyPair := 7\<rparr>"
  obtain l1 where g1: "run_state (GenerateEphemeralKeyPair hmac_sample_env EcdhKeyExchange_init) [] = ((True, ?x), l1)"
    using Generate_sample by blast
  obtain x2 l2 where g2: "run_state (GenerateEphemeralKeyPair hmac_sample_env ?x) l1 = ((True, x2), l2)"
    using Generate_sample by blast
  obtain x' l3 where d: "run_state (EcdhKeyExchange_destroy hmac_sample_env x2) l2 = (x', l3)"
    by (metis surj_pair)
  from regenerate_leaks [OF ecdh_nonnull_sample g1 g2 d] g1 g2 d show ?thesis by auto
qed

end
