(* ===== verification/Pairing_Agreement.thy ===== *)
theory Pairing_Agreement
  imports Pairing_Crypto
begin

text \<open>
  Two parties that pair: each generates an ephemeral key with \<open>EcdhKeyExchange\<close>, sends its public
  point, computes the shared secret from the other's point, derives a key from it with \<open>HkdfEngine\<close>
  and shows the PIN of \<open>SasEngine\<close>. Each party has a CNG of its own; that both compute the same
  Diffie-Hellman function and the same HMAC is the hypothesis.
\<close>

section \<open>What CNG computes\<close>

definition peer_blob :: "byte list \<Rightarrow> ecc_blob" where
  "peer_blob Q = EccBlob ''BCRYPT_ECDH_PUBLIC_P256_MAGIC'' 32 Q"

text \<open>
  The object \<open>x\<close> holds the private key \<open>a\<close>: CNG exports the blob header and the 64 bytes of the public
  point, imports the public points of the curve, and the raw secret it derives from an agreement
  with the point \<open>Q\<close> is \<open>dh a Q\<close>, 32 bytes, asked for its size first.
\<close>

definition cng_ecdh :: "('k \<Rightarrow> byte list) \<Rightarrow> ('k \<Rightarrow> byte list \<Rightarrow> byte list) \<Rightarrow> env \<Rightarrow> EcdhKeyExchange \<Rightarrow> 'k \<Rightarrow> bool" where
  "cng_ecdh pub dh w x a \<longleftrightarrow> x_hLocalKeyPair x \<noteq> NULL
     \<and> (\<forall>l. let r = w l (Cng (BCryptExportKey (x_hLocalKeyPair x)))
           in a_ok r \<and> a_num r = 72 \<and> length (a_bytes r) = 72 \<and> drop 8 (a_bytes r) = pub a)
     \<and> (\<forall>l b. a_ok (w l (Cng (BCryptImportKeyPair (x_hEcdhAlg x) (peer_blob (pub b))))))
     \<and> (\<forall>l h. a_ok (w l (Cng (BCryptSecretAgreement (x_hLocalKeyPair x) h))))
     \<and> (\<forall>l Q r s t u. let ask = Cng (BCryptDeriveKey (a_handle s));
             l' = l @ [(Cng (BCryptImportKeyPair (x_hEcdhAlg x) (peer_blob Q)), r),
                       (Cng (BCryptSecretAgreement (x_hLocalKeyPair x) (a_handle r)), s),
                       (Cng (BCryptDestroyKey (a_handle r)), t)]
           in a_ok (w l' ask) \<and> a_num (w l' ask) = 32
              \<and> a_ok (w (l' @ [(ask, u)]) ask) \<and> a_bytes (w (l' @ [(ask, u)]) ask) = dh a Q)"

lemma point_exported:
  assumes "cng_ecdh pub dh w x a"
  shows "fst (run_state (GetPublicPointUncompressed w x) l) = 0x04 # take 64 (pub a)"
proof -
  let ?c = "Cng (BCryptExportKey (x_hLocalKeyPair x))"
  have "a_ok (w l ?c) \<and> a_num (w l ?c) = 72 \<and> length (a_bytes (w l ?c)) = 72 \<and> drop 8 (a_bytes (w l ?c)) = pub a" for l
    using assms by (simp add: cng_ecdh_def Let_def)
  moreover from this have "fill 72 (a_bytes (w l ?c)) = a_bytes (w l ?c)" for l by (simp add: fill_def)
  ultimately show ?thesis
    using assms by (simp add: GetPublicPointUncompressed_def run_if Let_def cng_ecdh_def)
qed

text \<open>With the tag or without it, a point of the curve gives the agreed secret.\<close>

lemma secret_agreed:
  assumes "cng_ecdh pub dh w x a" "length (pub b) = 64" "length (dh a (pub b)) = 32" "peer \<in> {pub b, 0x04 # pub b}"
  shows "fst (run_state (ComputeSharedSecret w x (Some peer)) l) = dh a (pub b)"
proof -
  let ?i = "Cng (BCryptImportKeyPair (x_hEcdhAlg x) (peer_blob (pub b)))"
  obtain r where r: "r = w l ?i" by blast
  let ?s = "Cng (BCryptSecretAgreement (x_hLocalKeyPair x) (a_handle r))"
  obtain s where s: "s = w (l @ [(?i, r)]) ?s" by blast
  let ?t = "Cng (BCryptDestroyKey (a_handle r))"
  obtain t where t: "t = w (l @ [(?i, r), (?s, s)]) ?t" by blast
  let ?u = "Cng (BCryptDeriveKey (a_handle s))" and ?l = "l @ [(?i, r), (?s, s), (?t, t)]"
  obtain u where u: "u = w ?l ?u" by blast
  have xy: "take 64 (if length peer = 65 \<and> peer ! 0 = 0x04 then drop 1 peer else peer) = pub b"
    "\<not> (length peer \<noteq> 64 \<and> length peer \<noteq> 65)" using assms(2,4) by auto
  have ok: "x_hLocalKeyPair x \<noteq> NULL" "a_ok r" "a_ok s" "a_ok u" "a_num u = 32"
    "a_ok (w (l @ [(?i, r), (?s, s), (?t, t), (?u, u)]) ?u)" "a_bytes (w (l @ [(?i, r), (?s, s), (?t, t), (?u, u)]) ?u) = dh a (pub b)"
    using assms(1) by (simp_all add: cng_ecdh_def Let_def r s u)
  have "fill 32 (dh a (pub b)) = dh a (pub b)" using assms(3) by (simp add: fill_def)
  with ok xy show ?thesis
    by (auto simp: ComputeSharedSecret_def run_if Let_def simp flip: peer_blob_def r s t u)
qed

section \<open>Agreement\<close>

lemma pin_computed:
  assumes "hmac_env w H" "k \<noteq> []" "length k < 2 ^ 32"
  shows "fst (run_state (ComputeSasPin w (Some k)) l)
    = setw6 (decimal (unat (dec_be32 (take 4 (H k sas_info)) mod 900000 + 100000)))"
proof -
  obtain mac l1 where mac: "run_state (HmacSha256 w (Some k) (Some sas_info)) l = (mac, l1)" by fastforce
  then have "mac = H k sas_info" using HmacSha256_computes [OF assms, of "Some sas_info" l] length_sas_info by simp
  moreover have "length (H k sas_info) = 32" using assms(1) by (simp add: hmac_env_def)
  ultimately show ?thesis using assms(2) mac by (simp add: ComputeSasPin_def Let_def dec_be32_def)
qed

text \<open>
  Two parties that run the pairing code agree. Each sends what \<open>GetPublicPointUncompressed\<close>
  gives, computes \<open>ComputeSharedSecret\<close> from what it got, derives a key from the secret with the same
  salt (the session) and info string, and shows the PIN of that key. If the CNG of each computes the
  same commuting Diffie-Hellman function and the same HMAC, then the points have 65 bytes with the
  tag, both secrets are the same 32 bytes, both keys are the same, and both screens show the same
  PIN, whatever else each machine has called before and between.
\<close>

theorem pairing_agreement:
  assumes "\<forall>a b. dh a (pub b) = dh b (pub a)" "\<forall>a. length (pub a) = 64" "\<forall>a b. length (dh a (pub b)) = 32"
    and "cng_ecdh pub dh w\<^sub>1 x\<^sub>1 a" "cng_ecdh pub dh w\<^sub>2 x\<^sub>2 b" "hmac_env w\<^sub>1 H" "hmac_env w\<^sub>2 H" "0 < L" "L < 2 ^ 32"
    and "length (case salt of None \<Rightarrow> [] | Some s \<Rightarrow> s) < 2 ^ 32" "length info + 33 < 2 ^ 32"
    and "P\<^sub>1 = fst (run_state (GetPublicPointUncompressed w\<^sub>1 x\<^sub>1) l\<^sub>1)" "P\<^sub>2 = fst (run_state (GetPublicPointUncompressed w\<^sub>2 x\<^sub>2) l\<^sub>2)"
    and "S\<^sub>1 = fst (run_state (ComputeSharedSecret w\<^sub>1 x\<^sub>1 (Some P\<^sub>2)) m\<^sub>1)" "S\<^sub>2 = fst (run_state (ComputeSharedSecret w\<^sub>2 x\<^sub>2 (Some P\<^sub>1)) m\<^sub>2)"
    and "K\<^sub>1 = fst (run_state (DeriveKey w\<^sub>1 salt (Some S\<^sub>1) info L) n\<^sub>1)" "K\<^sub>2 = fst (run_state (DeriveKey w\<^sub>2 salt (Some S\<^sub>2) info L) n\<^sub>2)"
  shows "P\<^sub>1 = 0x04 # pub a \<and> P\<^sub>2 = 0x04 # pub b \<and> S\<^sub>1 = S\<^sub>2 \<and> length S\<^sub>1 = 32 \<and> K\<^sub>1 = K\<^sub>2 \<and> length K\<^sub>1 = L
    \<and> fst (run_state (ComputeSasPin w\<^sub>1 (Some K\<^sub>1)) q\<^sub>1) = fst (run_state (ComputeSasPin w\<^sub>2 (Some K\<^sub>2)) q\<^sub>2)"
proof -
  have P: "P\<^sub>1 = 0x04 # pub a" "P\<^sub>2 = 0x04 # pub b"
    using point_exported [OF assms(4)] point_exported [OF assms(5)] assms(2,12,13) by simp_all
  have "S\<^sub>1 = dh a (pub b)" unfolding assms(14) P using assms(2,3) by (intro secret_agreed [OF assms(4)]) auto
  moreover have "S\<^sub>2 = dh b (pub a)" unfolding assms(15) P using assms(2,3) by (intro secret_agreed [OF assms(5)]) auto
  ultimately have S: "S\<^sub>1 = S\<^sub>2" "length S\<^sub>1 = 32" using assms(1,3) by simp_all
  note k\<^sub>1 = DeriveKey_computes [OF assms(6,8,10) _ assms(11), of "Some S\<^sub>1" n\<^sub>1, folded assms(16)]
  note k\<^sub>2 = DeriveKey_computes [OF assms(7,8,10) _ assms(11), of "Some S\<^sub>2" n\<^sub>2, folded assms(17)]
  have K: "K\<^sub>1 = K\<^sub>2" using k\<^sub>1 k\<^sub>2 S by simp
  have "length (case Some S\<^sub>1 of None \<Rightarrow> [] | Some d \<Rightarrow> d) < 2 ^ 32" using S by simp
  from conjunct2 [OF k\<^sub>1 [OF this]] have "length K\<^sub>1 = L" .
  moreover from this assms(8) have "K\<^sub>1 \<noteq> []" by auto
  ultimately show ?thesis using pin_computed [OF assms(6)] pin_computed [OF assms(7)] K P S assms(9) by simp
qed

section \<open>Where two implementations part\<close>

text \<open>
  \<open>ComputeSharedSecret\<close> hands on the bytes of \<open>BCRYPT_KDF_RAW_SECRET\<close> as they are. CNG documents them as
  little-endian: the reverse of the 32-byte coordinate that the standard (and the phone's
  \<open>javax.crypto.KeyAgreement\<close>) gives. Then the secret of the PC is not the secret of the phone, unless
  it reads the same in both directions.
\<close>

theorem raw_secret_reversed:
  assumes "cng_ecdh pub (\<lambda>a Q. rev (ecdh a Q)) w x a" "length (pub b) = 64" "length (ecdh a (pub b)) = 32"
    and "rev (ecdh a (pub b)) \<noteq> ecdh a (pub b)" "peer = 0x04 # pub b"
  shows "fst (run_state (ComputeSharedSecret w x (Some peer)) l) \<noteq> ecdh a (pub b)"
  using secret_agreed [OF assms(1), of b peer l] assms(2-) by simp

text \<open>
  A 65-byte argument without the tag \<open>0x04\<close> is not refused: its first 64 bytes are taken as the
  point, so that the last coordinate is cut and everything is shifted by one byte.
\<close>

theorem untagged_point_shifted:
  assumes "length peer = 65" "peer ! 0 \<noteq> 0x04"
  shows "ComputeSharedSecret w x (Some peer) = ComputeSharedSecret w x (Some (take 64 peer))"
  using assms by (simp add: ComputeSharedSecret_def Let_def)

section \<open>A concrete pairing\<close>

text \<open>A toy group: the private key is a byte, its point 64 copies of it, the secret the product, padded.\<close>

definition toy_pub :: "byte \<Rightarrow> byte list" where "toy_pub a = replicate 64 a"

definition toy_dh :: "byte \<Rightarrow> byte list \<Rightarrow> byte list" where "toy_dh a Q = (a * hd Q) # replicate 31 0"

definition toy_env :: "byte \<Rightarrow> env" where
  "toy_env a l c = (case c of
     Cng (BCryptExportKey h) \<Rightarrow> \<lparr>a_ok = True, a_handle = 7, a_bytes = replicate 8 0 @ toy_pub a, a_num = 72\<rparr>
   | Cng (BCryptDeriveKey h) \<Rightarrow> \<lparr>a_ok = True, a_handle = 7, a_bytes =
       (case rev l of
          (Cng (BCryptDeriveKey _), _) # _ # _ # (Cng (BCryptImportKeyPair _ blob), _) # _ \<Rightarrow> toy_dh a (xy blob)
        | _ \<Rightarrow> []), a_num = 32\<rparr>
   | _ \<Rightarrow> hmac_sample_env l c)"

definition toy_exchange :: EcdhKeyExchange where
  "toy_exchange = \<lparr>x_hEcdhAlg = 5, x_hLocalKeyPair = 6\<rparr>"

lemma toy_cng: "cng_ecdh toy_pub toy_dh (toy_env a) toy_exchange a"
  by (simp add: cng_ecdh_def toy_env_def toy_exchange_def toy_pub_def peer_blob_def hmac_sample_env_def Let_def)

lemma toy_hmac: "hmac_env (toy_env a) sample_hmac"
  using hmac_env_sample by (simp add: hmac_env_def toy_env_def)

theorem pairing_agreement_witness:
  "\<exists>S K. fst (run_state (ComputeSharedSecret (toy_env 3) toy_exchange
          (Some (fst (run_state (GetPublicPointUncompressed (toy_env 5) toy_exchange) [])))) []) = S
     \<and> fst (run_state (ComputeSharedSecret (toy_env 5) toy_exchange
          (Some (fst (run_state (GetPublicPointUncompressed (toy_env 3) toy_exchange) [])))) []) = S
     \<and> length S = 32 \<and> length K = 32 \<and> fst (run_state (DeriveKey (toy_env 3) (Some [1]) (Some S) [2] 32) []) = K
     \<and> fst (run_state (ComputeSasPin (toy_env 3) (Some K)) []) = fst (run_state (ComputeSasPin (toy_env 5) (Some K)) [])"
proof -
  have dh: "\<forall>a b. toy_dh a (toy_pub b) = toy_dh b (toy_pub a)" "\<forall>a. length (toy_pub a) = 64" "\<forall>a b. length (toy_dh a (toy_pub b)) = 32"
    by (simp_all add: toy_dh_def toy_pub_def mult.commute)
  have L: "(0 :: nat) < 32" "(32 :: nat) < 2 ^ 32" "length (case Some [1 :: byte] of None \<Rightarrow> [] | Some s \<Rightarrow> s) < 2 ^ 32"
    "length [2 :: byte] + 33 < 2 ^ 32" by simp_all
  from pairing_agreement [OF dh toy_cng toy_cng toy_hmac toy_hmac L refl refl refl refl refl refl,
      where a = 3 and b = 5 and l\<^sub>1 = "[]" and l\<^sub>2 = "[]" and m\<^sub>1 = "[]" and m\<^sub>2 = "[]" and n\<^sub>1 = "[]" and n\<^sub>2 = "[]"
        and q\<^sub>1 = "[]" and q\<^sub>2 = "[]"]
  show ?thesis by (elim conjE) (intro exI conjI, auto)
qed

theorem raw_secret_reversed_witness:
  "fst (run_state (ComputeSharedSecret (toy_env 3) toy_exchange (Some (0x04 # toy_pub 5))) []) \<noteq> rev (toy_dh 3 (toy_pub 5))"
proof (rule raw_secret_reversed [where pub = toy_pub and b = 5 and a = 3 and ecdh = "\<lambda>a Q. rev (toy_dh a Q)"])
  show "cng_ecdh toy_pub (\<lambda>a Q. rev (rev (toy_dh a Q))) (toy_env 3) toy_exchange 3" using toy_cng by simp
  have "rev (toy_dh 3 (toy_pub 5)) ! 0 = 0" "toy_dh 3 (toy_pub 5) ! 0 = 15"
    by (simp_all add: toy_dh_def toy_pub_def rev_nth nth_append)
  moreover have "(15 :: byte) \<noteq> 0" by simp
  ultimately show "rev (rev (toy_dh 3 (toy_pub 5))) \<noteq> rev (toy_dh 3 (toy_pub 5))" by (metis rev_rev_ident)
qed (simp_all add: toy_pub_def toy_dh_def)

end
