(* ===== verification/Device_Manager.thy ===== *)
theory Device_Manager
  imports Protocol Crypto_Engine
begin

text \<open>
  \<open>windows/agent/DpapiStorage.cpp\<close> (encrypted files) and \<open>windows/agent/MultiDeviceManager.cpp\<close>
  (the list of paired phones). DPAPI and the file system are the environment; what a reader
  relies on (a protected blob unprotects to what was protected, a file holds what was written and flushed)
  are hypotheses of the round-trip theorem. The list of phones refines a map from device
  identifiers to records; the laws of that map are the locale \<open>map_impl\<close>.
\<close>

section \<open>DPAPI storage\<close>

text \<open>The out-vector is assigned only on success.\<close>

definition EncryptData :: "env \<Rightarrow> byte list \<Rightarrow> byte list \<Rightarrow> (os_log, bool \<times> byte list) state" where
  "EncryptData w plaintext outCiphertext =
     (if plaintext = [] then State_Monad.return (False, outCiphertext)
      else do {
        dataOut \<leftarrow> store w (CryptProtectData (dword_blob plaintext));
        if \<not> a_ok dataOut then State_Monad.return (False, outCiphertext)
        else do {
          _ \<leftarrow> store w (LocalFree (a_handle dataOut));
          State_Monad.return (True, a_bytes dataOut)
        }})"

definition DecryptData :: "env \<Rightarrow> byte list \<Rightarrow> byte list \<Rightarrow> (os_log, bool \<times> byte list) state" where
  "DecryptData w ciphertext outPlaintext =
     (if ciphertext = [] then State_Monad.return (False, outPlaintext)
      else do {
        dataOut \<leftarrow> store w (CryptUnprotectData (dword_blob ciphertext));
        if \<not> a_ok dataOut then State_Monad.return (False, outPlaintext)
        else do {
          _ \<leftarrow> store w (LocalFree (a_handle dataOut));
          State_Monad.return (True, a_bytes dataOut)
        }})"

text \<open>
  The stream buffers what is written: \<open>FileWrite\<close> answers \<open>good()\<close>, which the function returns, and
  \<open>FileClose\<close> is the flush and close in the destructor of \<open>outFile\<close>, after the result has been computed
  and with nobody to see its own.
\<close>

definition SaveToFile :: "env \<Rightarrow> string \<Rightarrow> byte list \<Rightarrow> (os_log, bool) state" where
  "SaveToFile w filePath plaintextData = do {
     (ok, encrypted) \<leftarrow> EncryptData w plaintextData [];
     if \<not> ok then State_Monad.return False
     else do {
       f \<leftarrow> store w (FileOpenWrite filePath);
       if \<not> a_ok f then State_Monad.return False
       else do {
         r \<leftarrow> store w (FileWrite filePath encrypted);
         _ \<leftarrow> store w (FileClose filePath);
         State_Monad.return (a_ok r)
       }}}"

definition LoadFromFile :: "env \<Rightarrow> string \<Rightarrow> byte list \<Rightarrow> (os_log, bool \<times> byte list) state" where
  "LoadFromFile w filePath outPlaintextData = do {
     f \<leftarrow> store w (FileOpenRead filePath);
     if \<not> a_ok f then State_Monad.return (False, outPlaintextData)
     else do {
       r \<leftarrow> store w (FileRead filePath);
       let encrypted = a_bytes r;
       if encrypted = [] then State_Monad.return (False, outPlaintextData)
       else DecryptData w encrypted outPlaintextData
     }}"

section \<open>The paired phones\<close>

record PairedDeviceInfo =
  i_deviceId :: "byte list"
  i_nickname :: string
  i_rawPublicKey :: "byte list"
  i_isPrimary :: bool
  i_pairedTimestampMs :: u64
  i_lastUsedTimestampMs :: u64

type_synonym MultiDeviceManager = "PairedDeviceInfo list"

definition MultiDeviceManager_init :: MultiDeviceManager where
  "MultiDeviceManager_init = []"

text \<open>One record of the buffer that \<open>SaveStore\<close> protects.\<close>

definition store_record :: "PairedDeviceInfo \<Rightarrow> byte list" where
  "store_record dev = i_deviceId dev @ [if i_isPrimary dev then 1 else 0] @ i_rawPublicKey dev"

definition SaveStore :: "env \<Rightarrow> MultiDeviceManager \<Rightarrow> (os_log, bool) state" where
  "SaveStore w m_devices = do {
     (ok, encrypted) \<leftarrow> EncryptData w (concat (map store_record m_devices)) [];
     State_Monad.return ok
   }"

definition LoadStore :: "MultiDeviceManager \<Rightarrow> bool \<times> MultiDeviceManager" where
  "LoadStore m_devices = (True, m_devices)"

text \<open>\<open>std::find_if\<close>, then assignment to the element found or \<open>push_back\<close>.\<close>

fun assign_or_push :: "PairedDeviceInfo \<Rightarrow> PairedDeviceInfo list \<Rightarrow> PairedDeviceInfo list" where
  "assign_or_push info [] = [info]"
| "assign_or_push info (d # ds) =
     (if i_deviceId d = i_deviceId info then info # ds else d # assign_or_push info ds)"

definition Manager_RegisterDevice ::
    "env \<Rightarrow> PairedDeviceInfo \<Rightarrow> MultiDeviceManager \<Rightarrow> (os_log, bool \<times> MultiDeviceManager) state" where
  "Manager_RegisterDevice w info m_devices = do {
     let m_devices = assign_or_push info m_devices;
     ok \<leftarrow> SaveStore w m_devices;
     State_Monad.return (ok, m_devices)
   }"

text \<open>
  \<open>std::remove_if\<close> moves the kept elements to the front in order; its result differs from \<open>end()\<close>
  exactly when an element was dropped, and then the tail is erased.
\<close>

definition RevokeDevice ::
    "env \<Rightarrow> byte list \<Rightarrow> MultiDeviceManager \<Rightarrow> (os_log, bool \<times> MultiDeviceManager) state" where
  "RevokeDevice w deviceId m_devices = do {
     let kept = filter (\<lambda>d. i_deviceId d \<noteq> deviceId) m_devices;
     if length kept \<noteq> length m_devices
     then do { ok \<leftarrow> SaveStore w kept; State_Monad.return (ok, kept) }
     else State_Monad.return (False, m_devices)
   }"

definition SetPrimaryDevice ::
    "env \<Rightarrow> byte list \<Rightarrow> MultiDeviceManager \<Rightarrow> (os_log, bool \<times> MultiDeviceManager) state" where
  "SetPrimaryDevice w deviceId m_devices = do {
     let found = list_ex (\<lambda>dev. i_deviceId dev = deviceId) m_devices;
     let m_devices = map (\<lambda>dev. dev\<lparr>i_isPrimary := (i_deviceId dev = deviceId)\<rparr>) m_devices;
     if found
     then do { ok \<leftarrow> SaveStore w m_devices; State_Monad.return (ok, m_devices) }
     else State_Monad.return (False, m_devices)
   }"

text \<open>The answer and \<open>outInfo\<close>, which is assigned only when the device is found.\<close>

fun GetDevice :: "byte list \<Rightarrow> PairedDeviceInfo \<Rightarrow> MultiDeviceManager \<Rightarrow> bool \<times> PairedDeviceInfo" where
  "GetDevice deviceId outInfo [] = (False, outInfo)"
| "GetDevice deviceId outInfo (dev # ds) =
     (if i_deviceId dev = deviceId then (True, dev) else GetDevice deviceId outInfo ds)"

definition ListDevices :: "MultiDeviceManager \<Rightarrow> PairedDeviceInfo list" where
  "ListDevices m_devices = m_devices"

text \<open>
  \<open>uninit\<close> is the local \<open>PairedDeviceInfo info\<close>: its scalars are indeterminate and its key vector
  is empty, but it is read only after \<open>GetDevice\<close> has assigned it.
\<close>

definition GetPublicKeyHandle ::
    "env \<Rightarrow> CryptoEngine \<Rightarrow> PairedDeviceInfo \<Rightarrow> byte list \<Rightarrow> MultiDeviceManager \<Rightarrow> (os_log, handle) state" where
  "GetPublicKeyHandle w m_crypto uninit deviceId m_devices =
     (let (ok, info) = GetDevice deviceId uninit m_devices
      in if \<not> ok \<or> i_rawPublicKey info = [] then State_Monad.return NULL
         else ImportRawPublicKey w m_crypto (Some (i_rawPublicKey info)))"

section \<open>Files round trip\<close>

text \<open>
  What is known of a file from a log of calls: nothing, the bytes given to a stream that is still open
  (some of them may be in its buffer), or the bytes on disk after a successful flush.
\<close>

datatype file_state = Unknown | Buffered "byte list" | OnDisk "byte list"

fun file_call :: "string \<Rightarrow> os_call \<times> answer \<Rightarrow> file_state \<Rightarrow> file_state" where
  "file_call p (Store (FileOpenWrite q), a) c = (if q \<noteq> p then c else if a_ok a then Buffered [] else Unknown)"
| "file_call p (Store (FileWrite q bs), a) c =
     (if q \<noteq> p then c else case c of Buffered x \<Rightarrow> if a_ok a then Buffered (x @ bs) else Unknown | _ \<Rightarrow> Unknown)"
| "file_call p (Store (FileClose q), a) c =
     (if q \<noteq> p then c else case c of Buffered x \<Rightarrow> if a_ok a then OnDisk x else Unknown | _ \<Rightarrow> Unknown)"
| "file_call p e c = c"

definition file_after :: "string \<Rightarrow> file_state \<Rightarrow> os_log \<Rightarrow> file_state" where
  "file_after p c l = fold (file_call p) l c"

lemma file_after_simps [simp]:
  "file_after p c [] = c" "file_after p c (e # l) = file_after p (file_call p e c) l"
  "file_after p c (l @ l') = file_after p (file_after p c l) l'"
  by (simp_all add: file_after_def)

text \<open>A call that opens the file for writing, writes it or closes it.\<close>

fun writes_to :: "string \<Rightarrow> os_call \<Rightarrow> bool" where
  "writes_to p (Store (FileOpenWrite q)) \<longleftrightarrow> q = p"
| "writes_to p (Store (FileWrite q bs)) \<longleftrightarrow> q = p"
| "writes_to p (Store (FileClose q)) \<longleftrightarrow> q = p"
| "writes_to p _ \<longleftrightarrow> False"

lemma file_call_other: "\<not> writes_to p (fst e) \<Longrightarrow> file_call p e c = c"
  by (induction p e c rule: file_call.induct) simp_all

lemma file_after_other: "\<forall>e \<in> set l. \<not> writes_to p (fst e) \<Longrightarrow> file_after p c l = c"
  by (induction l) (simp_all add: file_call_other)

text \<open>
  Documented behaviour. A file whose bytes are on disk can be opened and read back; a blob that
  \<open>CryptProtectData\<close> produced is not empty, its size fits a \<open>DWORD\<close>, and \<open>CryptUnprotectData\<close>
  gives the plaintext back.
\<close>

definition files_keep :: "env \<Rightarrow> bool" where
  "files_keep w \<longleftrightarrow> (\<forall>l p c. file_after p Unknown l = OnDisk c \<longrightarrow>
     a_ok (w l (Store (FileOpenRead p))) \<and> a_bytes (w l (Store (FileRead p))) = c)"

definition dpapi_inverts :: "env \<Rightarrow> bool" where
  "dpapi_inverts w \<longleftrightarrow> (\<forall>l p l'. let a = w l (Store (CryptProtectData p));
     b = w (l @ (Store (CryptProtectData p), a) # l') (Store (CryptUnprotectData (a_bytes a)))
     in a_ok a \<longrightarrow> a_bytes a \<noteq> [] \<and> length (a_bytes a) < 2 ^ 32 \<and> a_ok b \<and> a_bytes b = p)"

lemma dpapi_invertsD:
  assumes "dpapi_inverts w" "a = w l (Store (CryptProtectData p))" "a_ok a"
    "b = w (l @ (Store (CryptProtectData p), a) # l') (Store (CryptUnprotectData (a_bytes a)))"
  shows "a_bytes a \<noteq> []" "length (a_bytes a) < 2 ^ 32" "a_ok b" "a_bytes b = p"
  using assms(1) [unfolded dpapi_inverts_def Let_def, rule_format, of l p l'] assms(2-4) by auto

lemma SaveToFile_true:
  assumes "run_state (SaveToFile w path data) l = (True, l1)" "a_ok (snd (last l1))"
  obtains a l' where "a = w l (Store (CryptProtectData (dword_blob data)))" "a_ok a"
    "l1 = l @ (Store (CryptProtectData (dword_blob data)), a) # l'"
    "file_after path Unknown l1 = OnDisk (a_bytes a)" "fst (last l1) = Store (FileClose path)"
proof -
  obtain a where a: "a = w l (Store (CryptProtectData (dword_blob data)))" by blast
  show thesis
    using assms
    by (intro that [OF a, of "tl (drop (length l) l1)"])
      (auto simp: SaveToFile_def EncryptData_def run_if simp flip: a split: if_splits)
qed

text \<open>
  C32. What \<open>SaveToFile\<close> stored, \<open>LoadFromFile\<close> returns. If the save answered true, the flush at the
  end of it (its last call, whose result the code does not look at) succeeded, and nothing has opened, written
  or closed the file for writing since, then the load answers true and gives the plaintext back,
  whatever else the process has done in between (for data below 4 GB, the size a \<open>DWORD\<close> can hold).
\<close>

theorem save_load:
  assumes env: "files_keep w" "dpapi_inverts w" and size: "length data < 2 ^ 32"
    and save: "run_state (SaveToFile w path data) l = (True, l1)"
    and flushed: "a_ok (snd (last l1))"
    and since: "\<forall>e \<in> set l2. \<not> writes_to path (fst e)"
  shows "fst (run_state (LoadFromFile w path out) (l1 @ l2)) = (True, data) \<and> fst (last l1) = Store (FileClose path)"
proof -
  obtain a l' where a: "a = w l (Store (CryptProtectData data))" "a_ok a"
    and l1: "l1 = l @ (Store (CryptProtectData data), a) # l'"
    and kept: "file_after path Unknown l1 = OnDisk (a_bytes a)" and closed: "fst (last l1) = Store (FileClose path)"
    using SaveToFile_true [OF save flushed] dword_blob_id [OF size] by metis
  obtain x where x: "x = w (l1 @ l2) (Store (FileOpenRead path))" by blast
  let ?l3 = "(l1 @ l2) @ [(Store (FileOpenRead path), x)]"
  obtain y where y: "y = w ?l3 (Store (FileRead path))" by blast
  let ?l4 = "?l3 @ [(Store (FileRead path), y)]"
  obtain b where b: "b = w ?l4 (Store (CryptUnprotectData (a_bytes a)))" by blast
  have "file_after path Unknown (l1 @ l2) = OnDisk (a_bytes a)" "file_after path Unknown ?l3 = OnDisk (a_bytes a)"
    by (simp_all add: kept file_after_other [OF since])
  then have xy: "a_ok x" "a_bytes y = a_bytes a" using env(1) unfolding files_keep_def x y by blast+
  have "?l4 = l @ (Store (CryptProtectData data), a) # (l' @ l2 @ [(Store (FileOpenRead path), x), (Store (FileRead path), y)])"
    by (simp add: l1)
  note dec = dpapi_invertsD [OF env(2) a b [unfolded this]]
  show ?thesis
    using xy dec closed
    by (simp add: LoadFromFile_def DecryptData_def run_if Let_def dword_blob_id flip: x y [simplified] b [simplified])
qed

text \<open>
  An environment with both properties: it protects by prefixing one byte. With \<open>space\<close> false the
  disk is full, so that the flush fails and nothing is there to read.
\<close>

definition vault_env :: "bool \<Rightarrow> env" where
  "vault_env space l c = (let ok = \<lparr>a_ok = True, a_handle = 7, a_bytes = [], a_num = 0\<rparr> in
     (case c of
        Store (CryptProtectData p) \<Rightarrow> ok\<lparr>a_ok := length p < 1000, a_bytes := 0x5A # p\<rparr>
      | Store (CryptUnprotectData b) \<Rightarrow> ok\<lparr>a_bytes := tl b\<rparr>
      | Store (FileClose p) \<Rightarrow> ok\<lparr>a_ok := space\<rparr>
      | Store (FileRead p) \<Rightarrow> ok\<lparr>a_bytes := (case file_after p Unknown l of OnDisk x \<Rightarrow> x | _ \<Rightarrow> [])\<rparr>
      | _ \<Rightarrow> ok))"

lemma vault_env_documented: "files_keep (vault_env space)" "dpapi_inverts (vault_env space)"
  by (simp_all add: files_keep_def dpapi_inverts_def vault_env_def)

lemma save_vault:
  "run_state (SaveToFile (vault_env space) ''store.bin'' [1, 2]) []
     = (True, snd (run_state (SaveToFile (vault_env space) ''store.bin'' [1, 2]) []))"
  "snd (last (snd (run_state (SaveToFile (vault_env space) ''store.bin'' [1, 2]) []))) = vault_env space [] (Store (FileClose ''store.bin''))"
  by (simp_all add: SaveToFile_def EncryptData_def run_if vault_env_def dword_blob_def)

theorem save_load_witness:
  "fst (run_state (LoadFromFile (vault_env True) ''store.bin'' []) (snd (run_state (SaveToFile (vault_env True) ''store.bin'' [1, 2]) [])
     @ [(Sock WinSocket, vault_env True [] (Sock WinSocket))])) = (True, [1, 2])"
proof -
  have "a_ok (snd (last (snd (run_state (SaveToFile (vault_env True) ''store.bin'' [1, 2]) []))))"
    unfolding save_vault(2) by (simp add: vault_env_def)
  from save_load [OF vault_env_documented _ save_vault(1) this, THEN conjunct1,
      of "[(Sock WinSocket, vault_env True [] (Sock WinSocket))]" "[]"] show ?thesis by auto
qed

text \<open>
  The flush is not checked: on a full disk \<open>SaveToFile\<close> answers true, and a \<open>LoadFromFile\<close> right after
  it fails.
\<close>

theorem save_ignores_flush:
  "fst (run_state (SaveToFile (vault_env False) ''store.bin'' [1, 2]) [])
   \<and> \<not> fst (fst (run_state (LoadFromFile (vault_env False) ''store.bin'' [])
        (snd (run_state (SaveToFile (vault_env False) ''store.bin'' [1, 2]) []))))"
  by (simp add: SaveToFile_def EncryptData_def LoadFromFile_def run_if vault_env_def dword_blob_def)

section \<open>The list of phones is a map\<close>

text \<open>
  The contract of a store of records: insertion, removal and an update of every record, each seen
  through the lookup. A history of such changes acts on the lookup as it acts on a map.
\<close>

datatype ('k, 'v) change = Put 'k 'v | Del 'k | Adjust "'k \<Rightarrow> 'v \<Rightarrow> 'v"

fun map_change :: "('k, 'v) change \<Rightarrow> ('k \<rightharpoonup> 'v) \<Rightarrow> ('k \<rightharpoonup> 'v)" where
  "map_change (Put k v) m = m(k \<mapsto> v)"
| "map_change (Del k) m = m(k := None)"
| "map_change (Adjust f) m = (\<lambda>k. map_option (f k) (m k))"

locale map_impl =
  fixes wf :: "'s \<Rightarrow> bool" and look :: "'s \<Rightarrow> 'k \<rightharpoonup> 'v" and change :: "('k, 'v) change \<Rightarrow> 's \<Rightarrow> 's"
    and admits :: "('k, 'v) change \<Rightarrow> bool"
  assumes change_wf: "wf s \<Longrightarrow> admits c \<Longrightarrow> wf (change c s)"
    and look_change: "wf s \<Longrightarrow> admits c \<Longrightarrow> look (change c s) = map_change c (look s)"
begin

lemma look_changes:
  "wf s \<Longrightarrow> list_all admits cs \<Longrightarrow> wf (fold change cs s) \<and> look (fold change cs s) = fold map_change cs (look s)"
  by (induction cs arbitrary: s) (simp_all add: change_wf look_change)

end

definition device_map :: "MultiDeviceManager \<Rightarrow> byte list \<rightharpoonup> PairedDeviceInfo" where
  "device_map ds = map_of (map (\<lambda>d. (i_deviceId d, d)) ds)"

definition device_ids :: "MultiDeviceManager \<Rightarrow> byte list list" where
  "device_ids ds = map i_deviceId ds"

text \<open>The changes the manager makes: it files a record under its own identifier and keeps identifiers.\<close>

fun device_change :: "(byte list, PairedDeviceInfo) change \<Rightarrow> MultiDeviceManager \<Rightarrow> MultiDeviceManager" where
  "device_change (Put k info) ds = assign_or_push info ds"
| "device_change (Del k) ds = filter (\<lambda>d. i_deviceId d \<noteq> k) ds"
| "device_change (Adjust f) ds = map (\<lambda>d. f (i_deviceId d) d) ds"

fun keeps_ids :: "(byte list, PairedDeviceInfo) change \<Rightarrow> bool" where
  "keeps_ids (Put k info) = (k = i_deviceId info)"
| "keeps_ids (Del k) = True"
| "keeps_ids (Adjust f) = (\<forall>k d. i_deviceId (f k d) = i_deviceId d)"

lemma ids_assign_or_push: "device_ids (assign_or_push info ds)
    = (if i_deviceId info \<in> set (device_ids ds) then device_ids ds else device_ids ds @ [i_deviceId info])"
  by (induction ds) (auto simp: device_ids_def)

lemma device_map_None: "device_map ds k = None \<longleftrightarrow> k \<notin> set (device_ids ds)"
  by (simp add: device_map_def map_of_eq_None_iff device_ids_def image_image)

lemma device_map_Cons: "device_map (d # ds) = (device_map ds)(i_deviceId d \<mapsto> d)"
  by (simp add: device_map_def)

lemma map_of_assign_or_push: "device_map (assign_or_push info ds) = (device_map ds)(i_deviceId info \<mapsto> info)"
  by (induction ds) (auto simp: device_map_def fun_eq_iff)

lemma map_of_filter_ids: "device_map (filter (\<lambda>d. i_deviceId d \<noteq> k) ds) = (device_map ds)(k := None)"
  by (induction ds) (auto simp: device_map_def fun_eq_iff)

lemma map_of_adjust:
  "(\<And>k d. i_deviceId (f k d) = i_deviceId d) \<Longrightarrow>
    device_map (map (\<lambda>d. f (i_deviceId d) d) ds) = (\<lambda>k. map_option (f k) (device_map ds k))"
  by (induction ds) (auto simp: device_map_def fun_eq_iff)

lemma device_change_distinct:
  "distinct (device_ids ds) \<Longrightarrow> keeps_ids c \<Longrightarrow> distinct (device_ids (device_change c ds))"
proof (cases c)
  case (Put k info)
  assume "distinct (device_ids ds)"
  then show ?thesis by (simp add: Put ids_assign_or_push)
next
  case (Del k)
  assume "distinct (device_ids ds)"
  then show ?thesis by (simp add: Del device_ids_def distinct_map_filter)
next
  case (Adjust f)
  assume "distinct (device_ids ds)" "keeps_ids c"
  then show ?thesis by (simp add: Adjust device_ids_def comp_def)
qed

interpretation devices: map_impl "\<lambda>ds. distinct (device_ids ds)" device_map device_change keeps_ids
proof
  show "device_map (device_change c ds) = map_change c (device_map ds)" if "keeps_ids c" for c ds
    using that by (cases c) (auto simp: map_of_assign_or_push map_of_filter_ids map_of_adjust)
qed (rule device_change_distinct)

lemma GetDevice_map: "GetDevice k out ds = (case device_map ds k of None \<Rightarrow> (False, out) | Some d \<Rightarrow> (True, d))"
  by (induction ds) (auto simp: device_map_def)

text \<open>The operations of a manager that change it, and the change each one stands for.\<close>

datatype manager_op = MRegister PairedDeviceInfo | MRevoke "byte list" | MSetPrimary "byte list"

fun manager_step :: "env \<Rightarrow> manager_op \<Rightarrow> MultiDeviceManager \<Rightarrow> (os_log, bool \<times> MultiDeviceManager) state" where
  "manager_step w (MRegister info) ds = Manager_RegisterDevice w info ds"
| "manager_step w (MRevoke k) ds = RevokeDevice w k ds"
| "manager_step w (MSetPrimary k) ds = SetPrimaryDevice w k ds"

fun manager_run :: "env \<Rightarrow> manager_op list \<Rightarrow> MultiDeviceManager \<Rightarrow> (os_log, MultiDeviceManager) state" where
  "manager_run w [] ds = State_Monad.return ds"
| "manager_run w (op # ops) ds = do { (ok, ds) \<leftarrow> manager_step w op ds; manager_run w ops ds }"

fun op_change :: "manager_op \<Rightarrow> (byte list, PairedDeviceInfo) change" where
  "op_change (MRegister info) = Put (i_deviceId info) info"
| "op_change (MRevoke k) = Del k"
| "op_change (MSetPrimary k) = Adjust (\<lambda>id dev. dev\<lparr>i_isPrimary := (id = k)\<rparr>)"

lemma keeps_ids_op: "keeps_ids (op_change op)"
  by (cases op) simp_all

lemma filter_same_length: "length (filter P xs) = length xs \<Longrightarrow> filter P xs = xs"
  by (induction xs) (auto split: if_splits, metis Suc_n_not_le_n length_filter_le)

lemma manager_step_change:
  "run_state (manager_step w op ds) l = ((ok, ds'), l') \<Longrightarrow> ds' = device_change (op_change op) ds"
  by (cases op)
    (auto simp: Manager_RegisterDevice_def RevokeDevice_def SetPrimaryDevice_def Let_def run_if filter_same_length
      split: prod.splits if_splits)

lemma manager_run_changes:
  "run_state (manager_run w ops ds) l = (ds', l') \<Longrightarrow> ds' = fold device_change (map op_change ops) ds"
proof (induction ops arbitrary: ds l)
  case (Cons op ops)
  obtain ok ds1 l1 where s: "run_state (manager_step w op ds) l = ((ok, ds1), l1)" by (metis surj_pair)
  with Cons.prems have "run_state (manager_run w ops ds1) l1 = (ds', l')" by simp
  from Cons.IH [OF this] manager_step_change [OF s] show ?case by simp
qed simp

text \<open>
  C31. The manager refines a map. After any history of \<open>RegisterDevice\<close>, \<open>RevokeDevice\<close> and
  \<open>SetPrimaryDevice\<close>, whatever they answered, the list holds at most one record per device, and
  \<open>GetDevice\<close> returns what the same history makes of an empty map: the last record registered for
  the identifier with the primary mark the later \<open>SetPrimaryDevice\<close> calls gave it, and nothing for
  a revoked device.
\<close>

theorem manager_refines_map:
  assumes "run_state (manager_run w ops MultiDeviceManager_init) l = (ds, l')"
  shows "distinct (map i_deviceId (ListDevices ds))
    \<and> GetDevice k out ds = (case fold map_change (map op_change ops) Map.empty k of
        None \<Rightarrow> (False, out) | Some info \<Rightarrow> (True, info))"
proof -
  have "distinct (device_ids MultiDeviceManager_init)" "device_map MultiDeviceManager_init = Map.empty"
    by (simp_all add: MultiDeviceManager_init_def device_ids_def device_map_def)
  moreover have "list_all keeps_ids (map op_change ops)" by (simp add: list_all_iff keeps_ids_op)
  ultimately show ?thesis
    using devices.look_changes [of MultiDeviceManager_init "map op_change ops"] manager_run_changes [OF assms]
    by (simp add: GetDevice_map ListDevices_def flip: device_ids_def)
qed

definition sample_device :: "byte \<Rightarrow> bool \<Rightarrow> PairedDeviceInfo" where
  "sample_device b p = \<lparr>i_deviceId = replicate UUID_SIZE b, i_nickname = ''phone'', i_rawPublicKey = replicate 64 b,
     i_isPrimary = p, i_pairedTimestampMs = 0, i_lastUsedTimestampMs = 0\<rparr>"

theorem manager_refines_map_witness:
  "GetDevice (replicate UUID_SIZE 1) (sample_device 9 False) (fst (run_state
     (manager_run (vault_env True) [MRegister (sample_device 1 True), MRegister (sample_device 2 False),
        MSetPrimary (replicate UUID_SIZE 2)] MultiDeviceManager_init) [])) = (True, sample_device 1 False)"
  (is "GetDevice _ _ (fst ?r) = _")
proof -
  obtain ds l' where r: "?r = (ds, l')" by fastforce
  from manager_refines_map [OF this, of "replicate UUID_SIZE 1" "sample_device 9 False"] show ?thesis
    unfolding r fst_conv by (simp add: sample_device_def UUID_SIZE_def)
qed

section \<open>Answers, the primary device and resources\<close>

lemma EncryptData_run:
  "run_state (EncryptData w p out) l =
     (let c = Store (CryptProtectData (dword_blob p)); a = w l c; f = Store (LocalFree (a_handle a))
      in if p = [] then ((False, out), l)
         else if \<not> a_ok a then ((False, out), l @ [(c, a)])
         else ((True, a_bytes a), l @ [(c, a), (f, w (l @ [(c, a)]) f)]))"
  by (simp add: EncryptData_def run_if Let_def)

lemma EncryptData_neutral: "resource_neutral (EncryptData w p out)"
  unfolding EncryptData_def by (rule spends_neutral) (auto intro!: spends_return spends_sys)

lemma DecryptData_neutral: "resource_neutral (DecryptData w p out)"
  unfolding DecryptData_def by (rule spends_neutral) (auto intro!: spends_return spends_sys)

lemma SaveStore_neutral: "resource_neutral (SaveStore w ds)"
  unfolding SaveStore_def by (auto intro!: neutral_bind EncryptData_neutral neutral_return split: prod.split)

text \<open>The calls \<open>SaveStore\<close> makes.\<close>

definition dpapi_only :: "os_log \<Rightarrow> bool" where
  "dpapi_only l = list_all (\<lambda>(c, a). case c of Store (CryptProtectData _) \<Rightarrow> True | Store (LocalFree _) \<Rightarrow> True | _ \<Rightarrow> False) l"

definition store_accepted :: "env \<Rightarrow> os_log \<Rightarrow> MultiDeviceManager \<Rightarrow> bool" where
  "store_accepted w l ds = a_ok (w l (Store (CryptProtectData (dword_blob (concat (map store_record ds))))))"

lemma SaveStore_run:
  "\<exists>l'. run_state (SaveStore w ds) l = (ds \<noteq> [] \<and> store_accepted w l ds, l @ l') \<and> dpapi_only l'"
proof -
  have "concat (map store_record ds) = [] \<longleftrightarrow> ds = []" by (cases ds) (auto simp: store_record_def)
  then show ?thesis
    by (auto simp: SaveStore_def EncryptData_run store_accepted_def dpapi_only_def Let_def)
qed

fun known :: "manager_op \<Rightarrow> MultiDeviceManager \<Rightarrow> bool" where
  "known (MRegister info) ds = True"
| "known (MRevoke k) ds = (k \<in> set (device_ids ds))"
| "known (MSetPrimary k) ds = (k \<in> set (device_ids ds))"

lemma manager_step_view:
  "manager_step w op ds = (let ds' = device_change (op_change op) ds in
     if known op ds then do { ok \<leftarrow> SaveStore w ds'; State_Monad.return (ok, ds') } else State_Monad.return (False, ds'))"
proof (cases op)
  case (MRegister info)
  then show ?thesis by (simp add: Manager_RegisterDevice_def)
next
  case (MRevoke k)
  have "length (filter (\<lambda>d. i_deviceId d \<noteq> k) ds) \<noteq> length ds \<longleftrightarrow> k \<in> set (device_ids ds)"
    by (metis (mono_tags, lifting) device_ids_def filter_True filter_same_length imageE imageI list.set_map mem_Collect_eq set_filter)
  with MRevoke filter_same_length [of "\<lambda>d. i_deviceId d \<noteq> k" ds] show ?thesis
    by (simp add: RevokeDevice_def Let_def) metis
next
  case (MSetPrimary k)
  have "list_ex (\<lambda>dev. i_deviceId dev = k) ds \<longleftrightarrow> k \<in> set (device_ids ds)"
    by (auto simp: list_ex_iff device_ids_def)
  with MSetPrimary show ?thesis by (simp add: SetPrimaryDevice_def Let_def)
qed

text \<open>
  What the manager's answers mean. The change is made in every case; the answer is true exactly
  when the device was known (for a revocation or a new primary), a device is left, and DPAPI
  accepted the serialized list. So revoking the only phone removes it and answers false. No answer
  means that anything was persisted: the only calls are DPAPI calls, no file is written and the
  ciphertext is dropped, with its memory given back.
\<close>

theorem manager_answers:
  assumes "run_state (manager_step w op ds) l = ((ok, ds'), l')"
  shows "ds' = device_change (op_change op) ds
    \<and> ok = (known op ds \<and> ds' \<noteq> [] \<and> store_accepted w l ds')
    \<and> (\<exists>new. l' = l @ new \<and> dpapi_only new) \<and> held l' = held l \<and> (releases_ok l \<longrightarrow> releases_ok l')"
proof -
  have "resource_neutral (manager_step w op ds)"
    unfolding manager_step_view Let_def by (auto intro: neutral_bind SaveStore_neutral neutral_return)
  note n = neutral_run [OF this assms]
  obtain new where "run_state (SaveStore w ds') l = (ds' \<noteq> [] \<and> store_accepted w l ds', l @ new)" "dpapi_only new"
    using SaveStore_run by blast
  with assms n manager_step_change [OF assms] show ?thesis
    by (auto simp: manager_step_view Let_def dpapi_only_def split: if_splits)
qed

theorem manager_answers_witness:
  "\<exists>l'. run_state (manager_step (vault_env True) (MRevoke (replicate UUID_SIZE 1)) [sample_device 1 True]) [] = ((False, []), l')"
proof -
  obtain ok ds' l' where r: "run_state (manager_step (vault_env True) (MRevoke (replicate UUID_SIZE 1)) [sample_device 1 True]) []
      = ((ok, ds'), l')" by (metis surj_pair)
  from manager_answers [OF this] have "ds' = []" "\<not> ok" by (auto simp: sample_device_def)
  with r show ?thesis by simp
qed

text \<open>
  After \<open>SetPrimaryDevice\<close> at most one phone is primary, the one asked for if it is paired and
  none otherwise (an unknown identifier clears the mark of the phone that had it).
\<close>

theorem primary_unique:
  assumes "run_state (manager_run w ops MultiDeviceManager_init) l = (ds, l1)"
    and "run_state (SetPrimaryDevice w k ds) l1 = ((ok, ds'), l')"
  shows "map i_deviceId (filter i_isPrimary ds') = (if k \<in> set (device_ids ds) then [k] else [])"
proof -
  have "distinct (device_ids ds)"
    using devices.look_changes [of MultiDeviceManager_init "map op_change ops"] manager_run_changes [OF assms(1)]
    by (simp add: MultiDeviceManager_init_def device_ids_def list_all_iff keeps_ids_op)
  moreover have "ds' = map (\<lambda>dev. dev\<lparr>i_isPrimary := (i_deviceId dev = k)\<rparr>) ds"
    using manager_step_change [of w "MSetPrimary k"] assms(2) by simp
  ultimately show ?thesis by (induction ds arbitrary: ds') (auto simp: device_ids_def filter_empty_conv)
qed

theorem primary_unique_witness:
  "\<exists>ds l1 ok ds' l'. run_state (manager_run (vault_env True) [MRegister (sample_device 1 True), MRegister (sample_device 2 True)]
       MultiDeviceManager_init) [] = (ds, l1)
     \<and> run_state (SetPrimaryDevice (vault_env True) (replicate UUID_SIZE 3) ds) l1 = ((ok, ds'), l')
     \<and> map i_deviceId (filter i_isPrimary ds') = []"
  (is "\<exists>ds l1 ok ds' l'. ?r = _ \<and> _")
proof -
  obtain ds l1 where r: "?r = (ds, l1)" by fastforce
  obtain ok ds' l' where p: "run_state (SetPrimaryDevice (vault_env True) (replicate UUID_SIZE 3) ds) l1 = ((ok, ds'), l')"
    by (metis surj_pair)
  have "ds = [sample_device 1 True, sample_device 2 True]"
    using manager_run_changes [OF r] by (simp add: MultiDeviceManager_init_def sample_device_def UUID_SIZE_def)
  with primary_unique [OF r p] r p show ?thesis by (auto simp: sample_device_def device_ids_def UUID_SIZE_def)
qed

end
