(* ===== verification/Named_Pipe.thy ===== *)
theory Named_Pipe
  imports Win_Api
begin

text \<open>
  \<open>windows/common/NamedPipeIpc.cpp\<close>: the packets the credential provider and the agent exchange
  over the local pipe, the client call and the server's worker. The pipe itself is the environment.
  This theory runs each side on its own; \<open>Pipe_Shutdown\<close> interleaves the worker with a \<open>Stop\<close> of
  another thread.
\<close>

section \<open>Packets\<close>

definition IPC_MAX_BUFFER_SIZE :: nat where "IPC_MAX_BUFFER_SIZE = 4096"

text \<open>
  \<open>enum class IpcMessageType : uint16_t\<close>: the underlying type is fixed and the code casts any 16-bit
  number to it, so every number is a value and four have names.
\<close>

type_synonym IpcMessageType = u16

definition REQ_STATUS :: IpcMessageType where "REQ_STATUS = 0x0001"
definition RESP_STATUS :: IpcMessageType where "RESP_STATUS = 0x0002"
definition REQ_UNLOCK :: IpcMessageType where "REQ_UNLOCK = 0x0003"
definition RESP_UNLOCK :: IpcMessageType where "RESP_UNLOCK = 0x0004"

record IpcPacket =
  ipc_type :: IpcMessageType
  ipc_statusCode :: u16
  ipc_payload :: "byte list"

text \<open>The bytes of \<open>txBuf\<close>.\<close>

definition ipc_encode :: "IpcPacket \<Rightarrow> byte list" where
  "ipc_encode p = put_be16 (ipc_type p) @ put_be16 (ipc_statusCode p) @ ipc_payload p"

text \<open>
  Reading \<open>rxBuf\<close> into a packet: the payload is assigned only when there are bytes for it, and
  keeps what it held otherwise.
\<close>

definition ipc_decode :: "byte list \<Rightarrow> nat \<Rightarrow> IpcPacket \<Rightarrow> IpcPacket" where
  "ipc_decode rxBuf bytesRead p =
     (let p = p\<lparr>ipc_type := get_be16 (rxBuf ! 0) (rxBuf ! 1), ipc_statusCode := get_be16 (rxBuf ! 2) (rxBuf ! 3)\<rparr>
      in if bytesRead > 4 then p\<lparr>ipc_payload := take (bytesRead - 4) (drop 4 rxBuf)\<rparr> else p)"

section \<open>Client\<close>

text \<open>
  The answer and \<open>outResponse\<close>. \<open>ReadFile\<close> stores at most as many bytes as it was asked for.
\<close>

definition SendIpcRequest :: "env \<Rightarrow> IpcPacket \<Rightarrow> IpcPacket \<Rightarrow> nat \<Rightarrow> (os_log, bool \<times> IpcPacket) state" where
  "SendIpcRequest w request outResponse timeoutMs = do {
     a \<leftarrow> pipe w (WaitNamedPipe timeoutMs);
     if \<not> a_ok a then State_Monad.return (False, outResponse)
     else do {
       p \<leftarrow> pipe w OpenPipe;
       let hPipe = a_handle p;
       if hPipe = INVALID_HANDLE_VALUE then State_Monad.return (False, outResponse)
       else do {
         _ \<leftarrow> pipe w (PipeSetMessageMode hPipe);
         let txBuf = ipc_encode request;
         b \<leftarrow> pipe w (PipeWrite hPipe (dword_blob txBuf));
         if \<not> a_ok b
         then do { _ \<leftarrow> pipe w (CloseHandle hPipe); State_Monad.return (False, outResponse) }
         else do {
           r \<leftarrow> pipe w (PipeRead hPipe IPC_MAX_BUFFER_SIZE);
           let bytesRead = length (take IPC_MAX_BUFFER_SIZE (a_bytes r));
           let rxBuf = fill IPC_MAX_BUFFER_SIZE (a_bytes r);
           if \<not> a_ok r \<or> bytesRead < 4
           then do { _ \<leftarrow> pipe w (CloseHandle hPipe); State_Monad.return (False, outResponse) }
           else do {
             let outResponse = ipc_decode rxBuf bytesRead outResponse;
             _ \<leftarrow> pipe w (CloseHandle hPipe);
             State_Monad.return (True, outResponse)
           }}}}}"

section \<open>Server\<close>

text \<open>
  A request handler is a computation of its own: it may call the system and what it answers may
  depend on everything that happened before.
\<close>

type_synonym handler = "IpcPacket \<Rightarrow> (os_log, IpcPacket) state"

record NamedPipeServer =
  n_hPipe :: handle
  n_handler :: "handler option"
  n_isRunning :: bool
  n_workerThread :: bool

definition NamedPipeServer_init :: NamedPipeServer where
  "NamedPipeServer_init = \<lparr>n_hPipe = INVALID_HANDLE_VALUE, n_handler = None, n_isRunning = False, n_workerThread = False\<rparr>"

text \<open>
  \<open>Stop\<close> clears the flag and closes \<open>m_hPipe\<close> while the worker may be using it, and then waits for the
  worker to end: \<open>worker\<close> is what the worker thread still does from that moment on, its own closes and
  assignments of \<open>m_hPipe\<close> included. (How its steps fall between those of \<open>Stop\<close> before the \<open>join\<close>, and
  whether it ends at all, is the subject of \<open>Pipe_Shutdown\<close>.)
\<close>

definition NamedPipeServer_Stop ::
    "env \<Rightarrow> (NamedPipeServer \<Rightarrow> (os_log, NamedPipeServer) state) \<Rightarrow> NamedPipeServer \<Rightarrow> (os_log, NamedPipeServer) state" where
  "NamedPipeServer_Stop w worker s = do {
     let s = s\<lparr>n_isRunning := False\<rparr>;
     s \<leftarrow> (if n_hPipe s \<noteq> INVALID_HANDLE_VALUE
           then do { _ \<leftarrow> pipe w (CloseHandle (n_hPipe s)); State_Monad.return (s\<lparr>n_hPipe := INVALID_HANDLE_VALUE\<rparr>) }
           else State_Monad.return s);
     if n_workerThread s
     then do { s \<leftarrow> worker s; State_Monad.return (s\<lparr>n_workerThread := False\<rparr>) }
     else State_Monad.return s
   }"

definition NamedPipeServer_Start ::
    "env \<Rightarrow> (NamedPipeServer \<Rightarrow> (os_log, NamedPipeServer) state) \<Rightarrow> handler option \<Rightarrow> NamedPipeServer
      \<Rightarrow> (os_log, bool \<times> NamedPipeServer) state" where
  "NamedPipeServer_Start w worker handler s = do {
     s \<leftarrow> NamedPipeServer_Stop w worker s;
     State_Monad.return (True, s\<lparr>n_handler := handler, n_isRunning := True, n_workerThread := True\<rparr>)
   }"

definition NamedPipeServer_destroy ::
    "env \<Rightarrow> (NamedPipeServer \<Rightarrow> (os_log, NamedPipeServer) state) \<Rightarrow> NamedPipeServer \<Rightarrow> (os_log, NamedPipeServer) state" where
  "NamedPipeServer_destroy w worker s = NamedPipeServer_Stop w worker s"

text \<open>Reading the request, calling the handler and writing the response on a connected pipe.\<close>

definition serve_request :: "env \<Rightarrow> handle \<Rightarrow> handler option \<Rightarrow> (os_log, unit) state" where
  "serve_request w hPipe m_handler = do {
     r \<leftarrow> pipe w (PipeRead hPipe IPC_MAX_BUFFER_SIZE);
     let bytesRead = length (take IPC_MAX_BUFFER_SIZE (a_bytes r));
     let rxBuf = fill IPC_MAX_BUFFER_SIZE (a_bytes r);
     if a_ok r \<and> bytesRead \<ge> 4
     then do {
       let req = ipc_decode rxBuf bytesRead \<lparr>ipc_type = 0, ipc_statusCode = 0, ipc_payload = []\<rparr>;
       resp \<leftarrow> (case m_handler of
                  Some h \<Rightarrow> h req
                | None \<Rightarrow> State_Monad.return \<lparr>ipc_type = ipc_type req, ipc_statusCode = 0xFFFF, ipc_payload = []\<rparr>);
       let txBuf = ipc_encode resp;
       _ \<leftarrow> pipe w (PipeWrite hPipe (dword_blob txBuf));
       _ \<leftarrow> pipe w (PipeFlush hPipe);
       State_Monad.return ()
     }
     else State_Monad.return ()
   }"

definition ERROR_PIPE_CONNECTED :: int where "ERROR_PIPE_CONNECTED = 535"

text \<open>
  \<open>m_isRunning\<close> is an atomic flag that another thread clears: \<open>running\<close> says what the loads read.
\<close>

definition load_flag :: "(os_log \<Rightarrow> bool) \<Rightarrow> (os_log, bool) state" where
  "load_flag running = State (\<lambda>l. (running l, l))"

text \<open>One turn of the loop of \<open>ServerWorker\<close>.\<close>

definition ServerWorker_turn :: "env \<Rightarrow> (os_log \<Rightarrow> bool) \<Rightarrow> NamedPipeServer \<Rightarrow> (os_log, NamedPipeServer) state" where
  "ServerWorker_turn w running s = do {
     p \<leftarrow> pipe w CreateNamedPipe;
     let s = s\<lparr>n_hPipe := a_handle p\<rparr>;
     if n_hPipe s = INVALID_HANDLE_VALUE then State_Monad.return s
     else do {
       c \<leftarrow> pipe w (ConnectNamedPipe (n_hPipe s));
       let connected = (a_ok c \<or> a_num c = ERROR_PIPE_CONNECTED);
       isRunning \<leftarrow> load_flag running;
       _ \<leftarrow> (if connected \<and> isRunning then serve_request w (n_hPipe s) (n_handler s) else State_Monad.return ());
       _ \<leftarrow> pipe w (PipeDisconnect (n_hPipe s));
       _ \<leftarrow> pipe w (CloseHandle (n_hPipe s));
       State_Monad.return (s\<lparr>n_hPipe := INVALID_HANDLE_VALUE\<rparr>)
     }}"

text \<open>The loop, with a bound on its turns; \<open>None\<close> is a loop that has not ended by then.\<close>

fun ServerWorker ::
    "env \<Rightarrow> (os_log \<Rightarrow> bool) \<Rightarrow> nat \<Rightarrow> NamedPipeServer \<Rightarrow> (os_log, NamedPipeServer option) state" where
  "ServerWorker w running 0 s = State_Monad.return None"
| "ServerWorker w running (Suc n) s = do {
     isRunning \<leftarrow> load_flag running;
     if isRunning
     then do { s \<leftarrow> ServerWorker_turn w running s; ServerWorker w running n s }
     else State_Monad.return (Some s)
   }"

section \<open>The exchange\<close>

lemma ipc_decode_encode:
  assumes "bs = ipc_encode p" "length (ipc_payload p) + 4 \<le> IPC_MAX_BUFFER_SIZE"
  shows "ipc_decode (fill IPC_MAX_BUFFER_SIZE bs) (length (take IPC_MAX_BUFFER_SIZE bs)) q
    = (if ipc_payload p = [] then p\<lparr>ipc_payload := ipc_payload q\<rparr> else p)"
proof -
  let ?pad = "replicate (IPC_MAX_BUFFER_SIZE - 4 - length (ipc_payload p)) 0"
  obtain t0 t1 where t: "put_be16 (ipc_type p) = [t0, t1]" by (metis length_2_conv length_put_be16)
  obtain s0 s1 where s: "put_be16 (ipc_statusCode p) = [s0, s1]" by (metis length_2_conv length_put_be16)
  have "get_be16 t0 t1 = ipc_type p" "get_be16 s0 s1 = ipc_statusCode p"
    using get_put16 [of "ipc_type p"] get_put16 [of "ipc_statusCode p"] by (simp_all add: t s dec_be16_def)
  moreover have "fill IPC_MAX_BUFFER_SIZE bs = t0 # t1 # s0 # s1 # ipc_payload p @ ?pad"
    using assms by (simp add: fill_def ipc_encode_def t s take_Cons')
  moreover have "length (take IPC_MAX_BUFFER_SIZE bs) = 4 + length (ipc_payload p)"
    using assms by (simp add: ipc_encode_def)
  ultimately show ?thesis by (auto simp: ipc_decode_def)
qed

text \<open>The messages a log shows as written to and read from a pipe.\<close>

fun pipe_written :: "os_log \<Rightarrow> byte list list" where
  "pipe_written [] = []"
| "pipe_written ((Pipe (PipeWrite h bs), a) # l) = (if a_ok a then bs # pipe_written l else pipe_written l)"
| "pipe_written (e # l) = pipe_written l"

fun pipe_read :: "os_log \<Rightarrow> byte list list" where
  "pipe_read [] = []"
| "pipe_read ((Pipe (PipeRead h n), a) # l) = (if a_ok a then take n (a_bytes a) # pipe_read l else pipe_read l)"
| "pipe_read (e # l) = pipe_read l"

lemma pipe_written_append: "pipe_written (l @ l') = pipe_written l @ pipe_written l'"
  by (induction l rule: pipe_written.induct) simp_all

lemma pipe_read_append: "pipe_read (l @ l') = pipe_read l @ pipe_read l'"
  by (induction l rule: pipe_read.induct) simp_all

text \<open>A handler that leaves pipes alone and whose response fits a \<open>DWORD\<close> size.\<close>

definition plain_handler :: "handler \<Rightarrow> bool" where
  "plain_handler h \<longleftrightarrow> (\<forall>r l. length (ipc_payload (fst (run_state (h r) l))) + 4 < 2 ^ 32
     \<and> (\<exists>new. snd (run_state (h r) l) = l @ new \<and> pipe_written new = [] \<and> pipe_read new = []))"

lemma fill_take: "fill n (take n bs) = fill n bs"
  by (simp add: fill_def)

lemma SendIpcRequest_true:
  assumes "run_state (SendIpcRequest w req out t) l = ((True, resp), l')"
  obtains new bs where "l' = l @ new" "pipe_written new = [dword_blob (ipc_encode req)]" "pipe_read new = [bs]"
    "4 \<le> length bs" "length bs \<le> IPC_MAX_BUFFER_SIZE" "resp = ipc_decode (fill IPC_MAX_BUFFER_SIZE bs) (length bs) out"
  using assms unfolding SendIpcRequest_def Let_def
  by (auto simp: run_if fill_take split: if_splits
      intro!: that [of "drop (length l) l'" "hd (pipe_read (drop (length l) l'))"])

lemma serve_request_log:
  assumes "plain_handler h" "run_state (serve_request w p (Some h)) l = ((), l')"
    and "a = w l (Pipe (PipeRead p IPC_MAX_BUFFER_SIZE))"
    and "bytes = take IPC_MAX_BUFFER_SIZE (a_bytes a)"
    and "r = fst (run_state (h (ipc_decode (fill IPC_MAX_BUFFER_SIZE (a_bytes a)) (length bytes)
               \<lparr>ipc_type = 0, ipc_statusCode = 0, ipc_payload = []\<rparr>)) (l @ [(Pipe (PipeRead p IPC_MAX_BUFFER_SIZE), a)]))"
  obtains new where "l' = l @ new" "pipe_read new = (if a_ok a then [bytes] else [])"
    "pipe_written new = [] \<or> pipe_written new = [ipc_encode r] \<and> a_ok a \<and> 4 \<le> length bytes"
proof (cases "a_ok a \<and> 4 \<le> length bytes")
  case False
  with assms(2) have "l' = l @ [(Pipe (PipeRead p IPC_MAX_BUFFER_SIZE), a)]"
    by (auto simp: serve_request_def run_if Let_def assms(3,4))
  then show thesis by (intro that [of "[(Pipe (PipeRead p IPC_MAX_BUFFER_SIZE), a)]"]) (simp_all add: assms(4))
next
  case True
  let ?req = "ipc_decode (fill IPC_MAX_BUFFER_SIZE (a_bytes a)) (length bytes) \<lparr>ipc_type = 0, ipc_statusCode = 0, ipc_payload = []\<rparr>"
  let ?l1 = "l @ [(Pipe (PipeRead p IPC_MAX_BUFFER_SIZE), a)]"
  obtain new where new: "run_state (h ?req) ?l1 = (r, ?l1 @ new)" "pipe_written new = []" "pipe_read new = []"
    and "length (ipc_payload r) + 4 < 2 ^ 32"
    using assms(1) unfolding plain_handler_def assms(5) by (metis prod.collapse)
  then have r: "dword_blob (ipc_encode r) = ipc_encode r" by (intro dword_blob_id) (simp add: ipc_encode_def)
  obtain b where b: "b = w (?l1 @ new) (Pipe (PipeWrite p (ipc_encode r)))" by blast
  obtain f where f: "f = w ((?l1 @ new) @ [(Pipe (PipeWrite p (ipc_encode r)), b)]) (Pipe (PipeFlush p))" by blast
  let ?new = "(Pipe (PipeRead p IPC_MAX_BUFFER_SIZE), a) # new @ [(Pipe (PipeWrite p (ipc_encode r)), b), (Pipe (PipeFlush p), f)]"
  have "run_state (serve_request w p (Some h)) l = ((), l @ ?new)"
    using True new(1) unfolding serve_request_def Let_def option.case
    by (simp add: run_if r del: length_take flip: assms(3,4) b [simplified] f [simplified])
  with assms(2) have "l' = l @ ?new" by simp
  then show thesis
    using True by (intro that [of ?new]) (auto simp: pipe_read_append pipe_written_append new assms(4))
qed

text \<open>
  C34. The two ends understand each other. If the pipe delivers what each side writes to the other,
  as one message each, the handler of the server is called with exactly the packet the client
  sent (up to the 4096-byte message limit), and when \<open>SendIpcRequest\<close> answers true the client's
  packet is exactly what the handler answered; an empty payload leaves the payload of the
  caller's packet as it was.
\<close>

theorem ipc_exchange:
  assumes req: "length (ipc_payload req) + 4 \<le> IPC_MAX_BUFFER_SIZE" and handler: "plain_handler h"
    and client: "run_state (SendIpcRequest wc req out t) lc = ((True, resp), lc @ cnew)"
    and server: "run_state (serve_request ws p (Some h)) ls = ((), ls @ snew)"
    and delivers: "pipe_read snew = pipe_written cnew" "pipe_read cnew = pipe_written snew"
    and at: "l = ls @ [(Pipe (PipeRead p IPC_MAX_BUFFER_SIZE), ws ls (Pipe (PipeRead p IPC_MAX_BUFFER_SIZE)))]"
  shows "let r = fst (run_state (h req) l)
    in resp = (if ipc_payload r = [] then r\<lparr>ipc_payload := ipc_payload out\<rparr> else r)"
proof -
  have enc: "length (ipc_encode req) \<le> IPC_MAX_BUFFER_SIZE" using req by (simp add: ipc_encode_def)
  obtain bs where c: "pipe_written cnew = [dword_blob (ipc_encode req)]" "pipe_read cnew = [bs]"
      "length bs \<le> IPC_MAX_BUFFER_SIZE" "resp = ipc_decode (fill IPC_MAX_BUFFER_SIZE bs) (length bs) out"
    using SendIpcRequest_true [OF client] by (metis same_append_eq)
  have "dword_blob (ipc_encode req) = ipc_encode req"
    using enc by (intro dword_blob_id) (simp add: IPC_MAX_BUFFER_SIZE_def)
  with c(1) delivers(1) have read: "pipe_read snew = [ipc_encode req]" by simp
  obtain a where a: "a = ws ls (Pipe (PipeRead p IPC_MAX_BUFFER_SIZE))" by blast
  let ?bytes = "take IPC_MAX_BUFFER_SIZE (a_bytes a)"
  let ?q = "ipc_decode (fill IPC_MAX_BUFFER_SIZE (a_bytes a)) (length ?bytes) \<lparr>ipc_type = 0, ipc_statusCode = 0, ipc_payload = []\<rparr>"
  obtain r where r: "r = fst (run_state (h ?q) l)" by blast
  obtain new where "ls @ snew = ls @ new" and log: "pipe_read new = (if a_ok a then [?bytes] else [])"
      "pipe_written new = [] \<or> pipe_written new = [ipc_encode r] \<and> a_ok a \<and> 4 \<le> length ?bytes"
    by (rule serve_request_log [OF handler server a refl r [unfolded at, folded a]])
  then have "snew = new" by simp
  with log read c(2) delivers(2) have bytes: "?bytes = ipc_encode req" and bs: "bs = ipc_encode r"
    by (simp_all split: if_splits)
  have "?q = req"
    using ipc_decode_encode [OF bytes req, of "\<lparr>ipc_type = 0, ipc_statusCode = 0, ipc_payload = []\<rparr>"]
    by (simp add: fill_take)
  moreover have "resp = (if ipc_payload r = [] then r\<lparr>ipc_payload := ipc_payload out\<rparr> else r)"
    using ipc_decode_encode [OF bs, of out] c(3,4) by (simp add: bs ipc_encode_def)
  ultimately show ?thesis using r by (simp add: Let_def)
qed

text \<open>A pipe whose every call succeeds and whose reads return \<open>bs\<close>.\<close>

definition pipe_env :: "byte list \<Rightarrow> env" where
  "pipe_env bs l c = \<lparr>a_ok = True, a_handle = 5, a_bytes = bs, a_num = 0\<rparr>"

definition sample_request :: IpcPacket where
  "sample_request = \<lparr>ipc_type = REQ_UNLOCK, ipc_statusCode = 0, ipc_payload = []\<rparr>"

definition sample_reply :: IpcPacket where
  "sample_reply = \<lparr>ipc_type = RESP_UNLOCK, ipc_statusCode = 0, ipc_payload = [9, 8]\<rparr>"

lemma handle_5_valid: "5 \<noteq> INVALID_HANDLE_VALUE"
  by (simp add: INVALID_HANDLE_VALUE_def SIZE_MAX_def)

lemma sample_lengths: "dword_blob (ipc_encode sample_request) = ipc_encode sample_request"
    "dword_blob (ipc_encode sample_reply) = ipc_encode sample_reply"
    "length (ipc_encode sample_request) = 4" "length (ipc_encode sample_reply) = 6"
  by (simp_all add: dword_blob_def ipc_encode_def sample_request_def sample_reply_def)

lemma sample_client:
  assumes "run_state (SendIpcRequest (pipe_env (ipc_encode sample_reply)) sample_request sample_request 5000) [] = ((ok, resp), cnew)"
  shows "ok" "pipe_written cnew = [ipc_encode sample_request]" "pipe_read cnew = [ipc_encode sample_reply]"
  using assms handle_5_valid
  by (auto simp: SendIpcRequest_def run_if Let_def pipe_env_def sample_lengths IPC_MAX_BUFFER_SIZE_def)

lemma sample_server:
  assumes "run_state (serve_request (pipe_env (ipc_encode sample_request)) 5 (Some (\<lambda>_. State_Monad.return sample_reply))) [] = ((), snew)"
  shows "pipe_written snew = [ipc_encode sample_reply]" "pipe_read snew = [ipc_encode sample_request]"
  using assms by (auto simp: serve_request_def run_if Let_def pipe_env_def sample_lengths IPC_MAX_BUFFER_SIZE_def)

lemma sample_handler: "plain_handler (\<lambda>_. State_Monad.return sample_reply)"
  by (simp add: plain_handler_def sample_reply_def)

theorem ipc_exchange_witness:
  "fst (run_state (SendIpcRequest (pipe_env (ipc_encode sample_reply)) sample_request sample_request 5000) [])
     = (True, sample_reply)"
proof -
  let ?wc = "pipe_env (ipc_encode sample_reply)" and ?ws = "pipe_env (ipc_encode sample_request)"
  let ?h = "\<lambda>_ :: IpcPacket. State_Monad.return sample_reply :: (os_log, IpcPacket) state"
  obtain ok resp cnew where c: "run_state (SendIpcRequest ?wc sample_request sample_request 5000) [] = ((ok, resp), cnew)"
    by (metis surj_pair)
  note cl = sample_client [OF c]
  obtain snew where s: "run_state (serve_request ?ws 5 (Some ?h)) [] = ((), snew)" by (metis surj_pair old.unit.exhaust)
  note sl = sample_server [OF s]
  have "length (ipc_payload sample_request) + 4 \<le> IPC_MAX_BUFFER_SIZE"
    by (simp add: sample_request_def IPC_MAX_BUFFER_SIZE_def)
  then have "resp = sample_reply"
    using ipc_exchange [of sample_request ?h ?wc sample_request 5000 "[]" resp cnew ?ws 5 "[]" snew] sample_handler c s cl sl
    by (simp add: sample_reply_def)
  with c cl(1) show ?thesis by simp
qed

section \<open>Handles and termination\<close>

lemma load_flag_neutral: "resource_neutral (load_flag running)"
  by (simp add: load_flag_def resource_neutral_def)

lemma SendIpcRequest_neutral: "resource_neutral (SendIpcRequest w req out t)"
  unfolding SendIpcRequest_def Let_def
  by (rule spends_neutral) (auto intro!: spends_return spends_sys)

definition handler_neutral :: "handler option \<Rightarrow> bool" where
  "handler_neutral h \<longleftrightarrow> (case h of None \<Rightarrow> True | Some f \<Rightarrow> \<forall>r. resource_neutral (f r))"

lemma serve_request_neutral:
  assumes "handler_neutral h"
  shows "resource_neutral (serve_request w p h)"
proof -
  have call: "resource_neutral (case h of Some f \<Rightarrow> f req | None \<Rightarrow> State_Monad.return r)" for req r
    using assms by (auto simp: handler_neutral_def neutral_return split: option.splits)
  show ?thesis
    unfolding serve_request_def Let_def
    by (rule spends_neutral) (auto intro!: spends_return spends_sys spends_bind [OF call])
qed

lemma ServerWorker_turn_neutral:
  assumes "handler_neutral (n_handler s)"
  shows "resource_neutral (ServerWorker_turn w running s)"
  unfolding ServerWorker_turn_def Let_def
  by (rule spends_neutral)
    (auto intro!: spends_return spends_sys spends_bind [OF load_flag_neutral]
      spends_bind [OF serve_request_neutral [OF assms]])

lemma ServerWorker_turn_state:
  assumes "run_state (ServerWorker_turn w running s) l = (s', l')"
  shows "s' = s\<lparr>n_hPipe := INVALID_HANDLE_VALUE\<rparr>"
  using assms by (auto simp: ServerWorker_turn_def Let_def run_if split: if_splits prod.splits)

definition handler_appends :: "handler option \<Rightarrow> bool" where
  "handler_appends h \<longleftrightarrow> (case h of None \<Rightarrow> True | Some f \<Rightarrow> \<forall>r l. length l \<le> length (snd (run_state (f r) l)))"

lemma serve_request_appends:
  assumes "handler_appends h"
  shows "length l \<le> length (snd (run_state (serve_request w p h) l))"
proof -
  obtain a where a: "a = w l (Pipe (PipeRead p IPC_MAX_BUFFER_SIZE))" by blast
  let ?l1 = "l @ [(Pipe (PipeRead p IPC_MAX_BUFFER_SIZE), a)]"
  let ?q = "ipc_decode (fill IPC_MAX_BUFFER_SIZE (a_bytes a)) (length (take IPC_MAX_BUFFER_SIZE (a_bytes a)))
    \<lparr>ipc_type = 0, ipc_statusCode = 0, ipc_payload = []\<rparr>"
  let ?call = "case h of Some f \<Rightarrow> f ?q | None \<Rightarrow> State_Monad.return \<lparr>ipc_type = ipc_type ?q, ipc_statusCode = 0xFFFF, ipc_payload = []\<rparr>"
  obtain r l2 where r: "run_state ?call ?l1 = (r, l2)" by fastforce
  have "length ?l1 \<le> length (snd (run_state ?call ?l1))"
    using assms by (cases h) (simp_all add: handler_appends_def del: length_append)
  then have "length l \<le> length l2" by (simp add: r)
  with r show ?thesis
    unfolding serve_request_def Let_def by (simp add: run_if del: length_take flip: a)
qed

lemma ServerWorker_turn_appends:
  assumes "handler_appends (n_handler s)" "run_state (ServerWorker_turn w running s) l = (s', l')"
  shows "length l < length l'"
proof -
  obtain p where p: "p = w l (Pipe CreateNamedPipe)" by blast
  let ?h = "a_handle p" and ?l1 = "l @ [(Pipe CreateNamedPipe, p)]"
  obtain c where c: "c = w ?l1 (Pipe (ConnectNamedPipe ?h))" by blast
  let ?l2 = "l @ [(Pipe CreateNamedPipe, p), (Pipe (ConnectNamedPipe ?h), c)]"
  obtain l3 where l3: "run_state (serve_request w ?h (n_handler s)) ?l2 = ((), l3)" by (metis surj_pair old.unit.exhaust)
  have "length ?l2 \<le> length l3" using serve_request_appends [OF assms(1), of ?l2 w ?h] by (simp add: l3)
  with assms(2) show ?thesis
    unfolding ServerWorker_turn_def Let_def
    by (auto simp: run_if load_flag_def l3 simp flip: p c split: if_splits)
qed

text \<open>
  The loop of the worker on its own: when each of its blocking calls returns and the loads of the
  running flag read false from some call on (\<open>N\<close>), it ends after at most \<open>N\<close> more turns, since every turn makes a
  call; and it has closed every pipe it created, exactly once, if no other thread closes \<open>m_hPipe\<close>
  (\<open>Stop\<close> does: \<open>Pipe_Shutdown.shutdown_races\<close>).
\<close>

lemma ServerWorker_ends:
  assumes h: "handler_appends (n_handler s)" "handler_neutral (n_handler s)"
    and stop: "\<And>l. N \<le> length l \<Longrightarrow> \<not> running l" and fuel: "N - length l < n"
  shows "\<exists>s' l'. run_state (ServerWorker w running n s) l = (Some s', l')
    \<and> (s' = s \<or> s' = s\<lparr>n_hPipe := INVALID_HANDLE_VALUE\<rparr>)
    \<and> held l' = held l \<and> (releases_ok l \<longrightarrow> releases_ok l')"
  using fuel h
proof (induction n arbitrary: s l)
  case 0
  then show ?case by simp
next
  case (Suc n)
  show ?case
  proof (cases "running l")
    case False
    then show ?thesis by (simp add: load_flag_def)
  next
    case True
    obtain s1 l1 where t: "run_state (ServerWorker_turn w running s) l = (s1, l1)" by fastforce
    note s1 = ServerWorker_turn_state [OF t]
    have "length l < N" using True stop by (meson not_le)
    moreover have "length l < length l1" using ServerWorker_turn_appends [OF Suc.prems(2) t] .
    ultimately have "N - length l1 < n" using Suc.prems(1) by simp
    moreover have "n_handler s1 = n_handler s" by (simp add: s1)
    ultimately obtain s' l' where r: "run_state (ServerWorker w running n s1) l1 = (Some s', l')"
        "s' = s1 \<or> s' = s1\<lparr>n_hPipe := INVALID_HANDLE_VALUE\<rparr>" "held l' = held l1" "releases_ok l1 \<longrightarrow> releases_ok l'"
      using Suc.IH [of l1 s1] Suc.prems(2,3) by auto
    have "held l1 = held l" "releases_ok l \<longrightarrow> releases_ok l1"
      using neutral_run [OF ServerWorker_turn_neutral [OF Suc.prems(3)] t] by auto
    with True t r s1 show ?thesis by (auto simp: load_flag_def)
  qed
qed

text \<open>
  A first \<open>Start\<close> finds nothing to stop and makes no system call; and once \<open>Stop\<close> has returned with the
  member reset, as its worker leaves it, a second \<open>Stop\<close> (the destructor's) calls nothing, whatever the worker was.
\<close>

lemma Start_fresh:
  "run_state (NamedPipeServer_Start w worker h NamedPipeServer_init) l
     = ((True, NamedPipeServer_init\<lparr>n_handler := h, n_isRunning := True, n_workerThread := True\<rparr>), l)"
  by (simp add: NamedPipeServer_Start_def NamedPipeServer_Stop_def NamedPipeServer_init_def)

lemma destroy_after_Stop:
  assumes "run_state (NamedPipeServer_Stop w worker s) l = (s1, l1)" "n_hPipe s1 = INVALID_HANDLE_VALUE"
  shows "run_state (NamedPipeServer_destroy w worker' s1) l1 = (s1\<lparr>n_isRunning := False\<rparr>, l1)"
  using assms
  by (auto simp: NamedPipeServer_destroy_def NamedPipeServer_Stop_def Let_def run_if split: if_splits prod.splits)

end
