(* ===== verification/Pipe_Shutdown.thy ===== *)
theory Pipe_Shutdown
  imports Named_Pipe Shutdown
begin

text \<open>
  \<open>NamedPipeServer::Stop\<close> against the worker thread it stops (\<open>windows/common/NamedPipeIpc.cpp\<close>).
  The two threads share \<open>m_isRunning\<close> and the plain member \<open>m_hPipe\<close>, which both read, close and
  assign without a lock. Each statement that reads or writes one of them is one step; a call that
  blocks is two, the call and its return. The steps of the two threads interleave in every order.
  The return of a blocking call is not a step of either thread but of their environment, the client
  at the other end and the system: nothing here relies on it, and in particular not on \<open>CloseHandle\<close>
  waking a thread that is blocked in a synchronous call on the same handle.
\<close>

section \<open>The threads\<close>

text \<open>Where \<open>ServerWorker\<close> is, by the statement it will execute next.\<close>

datatype worker_pc =
    WTest               \<comment> \<open>\<open>while (m_isRunning)\<close>\<close>
  | WCreate             \<comment> \<open>\<open>m_hPipe = CreateNamedPipeW(...)\<close>\<close>
  | WCheck              \<comment> \<open>\<open>if (m_hPipe == INVALID_HANDLE_VALUE) continue\<close>\<close>
  | WConnect            \<comment> \<open>the call \<open>ConnectNamedPipe(m_hPipe, NULL)\<close>\<close>
  | WConnecting handle  \<comment> \<open>blocked in that call\<close>
  | WServe bool         \<comment> \<open>\<open>if (connected && m_isRunning)\<close>\<close>
  | WRead               \<comment> \<open>the call \<open>ReadFile(m_hPipe, ...)\<close>\<close>
  | WReading handle     \<comment> \<open>blocked in that call\<close>
  | WHandler            \<comment> \<open>in \<open>m_handler(req)\<close>\<close>
  | WWrite              \<comment> \<open>the call \<open>WriteFile(m_hPipe, ...)\<close>\<close>
  | WWriting handle     \<comment> \<open>blocked in that call\<close>
  | WFlush              \<comment> \<open>the call \<open>FlushFileBuffers(m_hPipe)\<close>\<close>
  | WFlushing handle    \<comment> \<open>blocked in that call\<close>
  | WDisconnect         \<comment> \<open>\<open>DisconnectNamedPipe(m_hPipe)\<close>\<close>
  | WClose              \<comment> \<open>\<open>CloseHandle(m_hPipe)\<close>\<close>
  | WReset              \<comment> \<open>\<open>m_hPipe = INVALID_HANDLE_VALUE\<close>\<close>
  | WDone               \<comment> \<open>the thread has ended\<close>

text \<open>The worker is in a call that returns when the client, the system or the handler lets it.\<close>

fun blocked :: "worker_pc \<Rightarrow> bool" where
  "blocked (WConnecting h) = True"
| "blocked (WReading h) = True"
| "blocked WHandler = True"
| "blocked (WWriting h) = True"
| "blocked (WFlushing h) = True"
| "blocked _ = False"

text \<open>Where the thread that calls \<open>Stop\<close> is.\<close>

datatype stop_pc =
    SIdle               \<comment> \<open>\<open>Stop\<close> has not been called\<close>
  | SCheck              \<comment> \<open>\<open>if (m_hPipe != INVALID_HANDLE_VALUE)\<close>\<close>
  | SClose              \<comment> \<open>\<open>CloseHandle(m_hPipe)\<close>\<close>
  | SReset              \<comment> \<open>\<open>m_hPipe = INVALID_HANDLE_VALUE\<close>\<close>
  | SJoin               \<comment> \<open>\<open>m_workerThread.join()\<close>\<close>
  | SDone

record pipe_threads =
  t_hPipe :: handle
  t_isRunning :: bool
  t_worker :: worker_pc
  t_stop :: stop_pc
  t_open :: "handle set"    \<comment> \<open>the pipe handles that are open\<close>
  t_stray :: bool           \<comment> \<open>some \<open>CloseHandle\<close> was given a handle that was not open\<close>

definition started :: pipe_threads where
  "started = \<lparr>t_hPipe = INVALID_HANDLE_VALUE, t_isRunning = True, t_worker = WTest, t_stop = SIdle,
     t_open = {}, t_stray = False\<rparr>"

text \<open>\<open>CloseHandle(m_hPipe)\<close>, reading the member at the time of the call.\<close>

definition close_member :: "pipe_threads \<Rightarrow> pipe_threads" where
  "close_member s = s\<lparr>t_open := t_open s - {t_hPipe s}, t_stray := (t_stray s \<or> t_hPipe s \<notin> t_open s)\<rparr>"

text \<open>
  The worker. The system hands out a handle that is not open. A call on an open handle blocks, a call
  on a handle that is not open fails at once; the results of \<open>WriteFile\<close> and \<open>FlushFileBuffers\<close> are
  not looked at.
\<close>

inductive worker_step :: "pipe_threads \<Rightarrow> pipe_threads \<Rightarrow> bool" where
  test: "t_worker s = WTest \<Longrightarrow> worker_step s (s\<lparr>t_worker := (if t_isRunning s then WCreate else WDone)\<rparr>)"
| create: "t_worker s = WCreate \<Longrightarrow> h \<notin> t_open s \<Longrightarrow>
    worker_step s (s\<lparr>t_hPipe := h, t_open := (if h = INVALID_HANDLE_VALUE then t_open s else insert h (t_open s)), t_worker := WCheck\<rparr>)"
| check: "t_worker s = WCheck \<Longrightarrow>
    worker_step s (s\<lparr>t_worker := (if t_hPipe s = INVALID_HANDLE_VALUE then WTest else WConnect)\<rparr>)"
| connect: "t_worker s = WConnect \<Longrightarrow>
    worker_step s (s\<lparr>t_worker := (if t_hPipe s \<in> t_open s then WConnecting (t_hPipe s) else WServe False)\<rparr>)"
| serve: "t_worker s = WServe connected \<Longrightarrow>
    worker_step s (s\<lparr>t_worker := (if connected \<and> t_isRunning s then WRead else WDisconnect)\<rparr>)"
| read: "t_worker s = WRead \<Longrightarrow>
    worker_step s (s\<lparr>t_worker := (if t_hPipe s \<in> t_open s then WReading (t_hPipe s) else WDisconnect)\<rparr>)"
| send: "t_worker s = WWrite \<Longrightarrow>
    worker_step s (s\<lparr>t_worker := (if t_hPipe s \<in> t_open s then WWriting (t_hPipe s) else WFlush)\<rparr>)"
| flush: "t_worker s = WFlush \<Longrightarrow>
    worker_step s (s\<lparr>t_worker := (if t_hPipe s \<in> t_open s then WFlushing (t_hPipe s) else WDisconnect)\<rparr>)"
| disconnect: "t_worker s = WDisconnect \<Longrightarrow> worker_step s (s\<lparr>t_worker := WClose\<rparr>)"
| close: "t_worker s = WClose \<Longrightarrow> worker_step s ((close_member s)\<lparr>t_worker := WReset\<rparr>)"
| reset: "t_worker s = WReset \<Longrightarrow> worker_step s (s\<lparr>t_hPipe := INVALID_HANDLE_VALUE, t_worker := WTest\<rparr>)"

inductive stop_step :: "pipe_threads \<Rightarrow> pipe_threads \<Rightarrow> bool" where
  flag: "t_stop s = SIdle \<Longrightarrow> stop_step s (s\<lparr>t_isRunning := False, t_stop := SCheck\<rparr>)"
| check: "t_stop s = SCheck \<Longrightarrow>
    stop_step s (s\<lparr>t_stop := (if t_hPipe s \<noteq> INVALID_HANDLE_VALUE then SClose else SJoin)\<rparr>)"
| close: "t_stop s = SClose \<Longrightarrow> stop_step s ((close_member s)\<lparr>t_stop := SReset\<rparr>)"
| reset: "t_stop s = SReset \<Longrightarrow> stop_step s (s\<lparr>t_hPipe := INVALID_HANDLE_VALUE, t_stop := SJoin\<rparr>)"
| join: "t_stop s = SJoin \<Longrightarrow> t_worker s = WDone \<Longrightarrow> stop_step s (s\<lparr>t_stop := SDone\<rparr>)"

text \<open>
  The environment: a blocking call returns, with success or without. \<open>ReadFile\<close> may return a request,
  or fail or give fewer than four bytes.
\<close>

inductive return_step :: "pipe_threads \<Rightarrow> pipe_threads \<Rightarrow> bool" where
  connected: "t_worker s = WConnecting h \<Longrightarrow> return_step s (s\<lparr>t_worker := WServe ok\<rparr>)"
| received: "t_worker s = WReading h \<Longrightarrow> return_step s (s\<lparr>t_worker := (if ok then WHandler else WDisconnect)\<rparr>)"
| handled: "t_worker s = WHandler \<Longrightarrow> return_step s (s\<lparr>t_worker := WWrite\<rparr>)"
| sent: "t_worker s = WWriting h \<Longrightarrow> return_step s (s\<lparr>t_worker := WFlush\<rparr>)"
| flushed: "t_worker s = WFlushing h \<Longrightarrow> return_step s (s\<lparr>t_worker := WDisconnect\<rparr>)"

definition pipe_step :: "pipe_threads \<Rightarrow> pipe_threads \<Rightarrow> bool" where
  "pipe_step s s' \<longleftrightarrow> worker_step s s' \<or> stop_step s s' \<or> return_step s s'"

inductive pipe_reach :: "pipe_threads \<Rightarrow> bool" where
  start: "pipe_reach started"
| step: "pipe_reach s \<Longrightarrow> pipe_step s s' \<Longrightarrow> pipe_reach s'"

section \<open>What holds in every interleaving\<close>

definition pipe_inv :: "pipe_threads \<Rightarrow> bool" where
  "pipe_inv s \<longleftrightarrow> t_open s \<subseteq> {t_hPipe s} \<and> INVALID_HANDLE_VALUE \<notin> t_open s
     \<and> (t_worker s \<in> {WTest, WCreate, WReset, WDone} \<longrightarrow> t_open s = {})
     \<and> (t_worker s \<in> {WTest, WCreate, WDone} \<longrightarrow> t_hPipe s = INVALID_HANDLE_VALUE)
     \<and> (t_stop s = SReset \<longrightarrow> t_open s = {})
     \<and> (t_stop s \<in> {SClose, SReset} \<longrightarrow> t_worker s \<noteq> WCreate)
     \<and> (t_stop s = SIdle \<longleftrightarrow> t_isRunning s)
     \<and> (t_stop s = SDone \<longrightarrow> t_worker s = WDone)"

lemma pipe_inv_worker: "worker_step s s' \<Longrightarrow> pipe_inv s \<Longrightarrow> pipe_inv s'"
  by (induction rule: worker_step.induct) (auto simp: pipe_inv_def close_member_def)

lemma pipe_inv_stop: "stop_step s s' \<Longrightarrow> pipe_inv s \<Longrightarrow> pipe_inv s'"
  by (induction rule: stop_step.induct) (auto simp: pipe_inv_def close_member_def)

lemma pipe_inv_return: "return_step s s' \<Longrightarrow> pipe_inv s \<Longrightarrow> pipe_inv s'"
  by (induction rule: return_step.induct) (auto simp: pipe_inv_def)

lemma pipe_inv_step: "pipe_step s s' \<Longrightarrow> pipe_inv s \<Longrightarrow> pipe_inv s'"
  unfolding pipe_step_def by (blast intro: pipe_inv_worker pipe_inv_stop pipe_inv_return)

lemma pipe_reach_inv: "pipe_reach s \<Longrightarrow> pipe_inv s"
proof (induction rule: pipe_reach.induct)
  case start
  then show ?case by (simp add: pipe_inv_def started_def)
qed (rule pipe_inv_step)

text \<open>What is left to do once the flag is clear.\<close>

fun worker_rank :: "worker_pc \<Rightarrow> nat" where
  "worker_rank WCreate = 16" | "worker_rank WCheck = 15" | "worker_rank WConnect = 14" | "worker_rank (WConnecting h) = 13"
| "worker_rank (WServe b) = 12" | "worker_rank WRead = 11" | "worker_rank (WReading h) = 10" | "worker_rank WHandler = 9"
| "worker_rank WWrite = 8" | "worker_rank (WWriting h) = 7" | "worker_rank WFlush = 6" | "worker_rank (WFlushing h) = 5"
| "worker_rank WDisconnect = 4" | "worker_rank WClose = 3" | "worker_rank WReset = 2" | "worker_rank WTest = 1"
| "worker_rank WDone = 0"

fun stop_rank :: "stop_pc \<Rightarrow> nat" where
  "stop_rank SIdle = 5" | "stop_rank SCheck = 4" | "stop_rank SClose = 3" | "stop_rank SReset = 2"
| "stop_rank SJoin = 1" | "stop_rank SDone = 0"

definition pipe_rank :: "pipe_threads \<Rightarrow> nat" where
  "pipe_rank s = worker_rank (t_worker s) + stop_rank (t_stop s)"

lemma worker_step_rank: "worker_step s s' \<Longrightarrow> \<not> t_isRunning s \<Longrightarrow> pipe_rank s' < pipe_rank s \<and> \<not> t_isRunning s'"
  by (induction rule: worker_step.induct) (auto simp: pipe_rank_def close_member_def)

lemma stop_step_rank: "stop_step s s' \<Longrightarrow> pipe_rank s' < pipe_rank s \<and> \<not> t_isRunning s' \<or> t_isRunning s"
  by (induction rule: stop_step.induct) (auto simp: pipe_rank_def close_member_def)

lemma return_step_rank: "return_step s s' \<Longrightarrow> pipe_rank s' < pipe_rank s \<and> t_isRunning s' = t_isRunning s"
  by (induction rule: return_step.induct) (auto simp: pipe_rank_def)

lemma pipe_step_rank: "pipe_step s s' \<Longrightarrow> \<not> t_isRunning s \<Longrightarrow> pipe_rank s' < pipe_rank s \<and> \<not> t_isRunning s'"
  unfolding pipe_step_def by (auto dest: worker_step_rank stop_step_rank return_step_rank)

lemma pipe_rank_bound: "pipe_inv s \<Longrightarrow> \<not> t_isRunning s \<Longrightarrow> pipe_rank s \<le> 20"
  by (cases "t_worker s"; cases "t_stop s") (simp_all add: pipe_rank_def pipe_inv_def)

text \<open>A worker that has not ended and is in no blocking call has a step of its own.\<close>

lemma worker_progress: "t_worker s \<noteq> WDone \<Longrightarrow> \<not> blocked (t_worker s) \<Longrightarrow> pipe_inv s \<Longrightarrow> \<exists>s'. worker_step s s'"
proof (cases "t_worker s")
  case WCreate
  assume "pipe_inv s"
  then show ?thesis using WCreate by (auto simp: pipe_inv_def intro: worker_step.create)
qed (auto intro: worker_step.intros)

lemma threads_progress:
  assumes "pipe_inv s" "\<nexists>s'. worker_step s s' \<or> stop_step s s'"
  shows "t_stop s = SDone \<or> t_stop s = SJoin \<and> blocked (t_worker s)"
proof (cases "t_stop s")
  case SJoin
  with assms worker_progress [of s] show ?thesis by (cases "t_worker s = WDone") (blast intro: stop_step.join)+
qed (use assms(2) in \<open>auto intro: stop_step.intros\<close>)

lemma blocked_returns: "blocked (t_worker s) \<Longrightarrow> \<exists>s'. return_step s s'"
  by (cases "t_worker s") (auto intro: return_step.intros)

lemma pipe_progress: "t_stop s \<noteq> SDone \<Longrightarrow> pipe_inv s \<Longrightarrow> \<exists>s'. pipe_step s s'"
  using threads_progress [of s] blocked_returns [of s] unfolding pipe_step_def by blast

interpretation stopping: shutdown pipe_step pipe_step pipe_inv "\<lambda>s. \<not> t_isRunning s" "\<lambda>s. t_stop s = SDone" pipe_rank
  by unfold_locales (use pipe_step_rank pipe_progress in \<open>auto intro: pipe_inv_step\<close>)

text \<open>
  C35. How \<open>Stop\<close> ends, in every interleaving with the worker. From any state of the two threads in
  which the running flag has been cleared there are at most 20 more steps, returns of blocking calls
  included: the worker does not start another turn. When neither thread can take a step, either
  \<open>Stop\<close> has returned, or it waits in \<open>join\<close> for a worker that is blocked in one of its four pipe calls or in the handler;
  so a client that stays silent can hold \<open>Stop\<close> up, and nothing else can. If these calls return, \<open>Stop\<close> returns. When it has
  returned, the worker has ended and no pipe handle is left open.
\<close>

theorem stop_completes:
  assumes "pipe_reach s" "\<not> t_isRunning s" "(pipe_step ^^ n) s s'"
  shows "n \<le> 20
    \<and> ((\<nexists>s''. worker_step s' s'' \<or> stop_step s' s'') \<longrightarrow> t_stop s' = SDone \<or> t_stop s' = SJoin \<and> blocked (t_worker s'))
    \<and> (\<exists>s''. pipe_step\<^sup>*\<^sup>* s' s'' \<and> t_stop s'' = SDone)
    \<and> (t_stop s' = SDone \<longrightarrow> t_worker s' = WDone \<and> t_open s' = {})"
proof -
  have inv: "pipe_inv s" using assms(1) by (rule pipe_reach_inv)
  note run = stopping.completes [OF inv assms(2,3)]
  then have "t_stop s' = SDone \<longrightarrow> t_worker s' = WDone \<and> t_open s' = {}" by (auto simp: pipe_inv_def)
  with run pipe_rank_bound [OF inv assms(2)] threads_progress [of s'] show ?thesis by auto
qed

section \<open>What goes wrong in some\<close>

lemma reach_worker: "pipe_reach s \<Longrightarrow> worker_step s s' \<Longrightarrow> pipe_reach s'"
  by (rule pipe_reach.step) (auto simp: pipe_step_def)

lemma reach_stop: "pipe_reach s \<Longrightarrow> stop_step s s' \<Longrightarrow> pipe_reach s'"
  by (rule pipe_reach.step) (auto simp: pipe_step_def)

lemma reach_return: "pipe_reach s \<Longrightarrow> return_step s s' \<Longrightarrow> pipe_reach s'"
  by (rule pipe_reach.step) (auto simp: pipe_step_def)

abbreviation threads_at :: "handle \<Rightarrow> bool \<Rightarrow> worker_pc \<Rightarrow> stop_pc \<Rightarrow> handle set \<Rightarrow> bool \<Rightarrow> pipe_threads" where
  "threads_at h run wk sp opened stray \<equiv>
     \<lparr>t_hPipe = h, t_isRunning = run, t_worker = wk, t_stop = sp, t_open = opened, t_stray = stray\<rparr>"

lemma handle_7_valid: "7 \<noteq> INVALID_HANDLE_VALUE"
  by (simp add: INVALID_HANDLE_VALUE_def SIZE_MAX_def)

lemma reach_create: "pipe_reach (threads_at INVALID_HANDLE_VALUE True WCreate SIdle {} False)"
  using reach_worker [OF pipe_reach.start worker_step.test] by (simp add: started_def)

lemma reach_waiting: "pipe_reach (threads_at 7 True (WConnecting 7) SIdle {7} False)"
proof -
  have "pipe_reach (threads_at 7 True WCheck SIdle {7} False)"
    using reach_worker [OF reach_create worker_step.create [of _ 7]] handle_7_valid by simp
  then have "pipe_reach (threads_at 7 True WConnect SIdle {7} False)"
    using reach_worker [OF _ worker_step.check] handle_7_valid by fastforce
  from reach_worker [OF this worker_step.connect] show ?thesis by simp
qed

lemma reach_reading: "pipe_reach (threads_at 7 True (WReading 7) SIdle {7} False)"
proof -
  have "pipe_reach (threads_at 7 True (WServe True) SIdle {7} False)"
    using reach_return [OF reach_waiting return_step.connected [of _ 7 True]] by simp
  then have "pipe_reach (threads_at 7 True WRead SIdle {7} False)"
    using reach_worker [OF _ worker_step.serve [of _ True]] by fastforce
  from reach_worker [OF this worker_step.read] show ?thesis by simp
qed

text \<open>\<open>Stop\<close> up to the close of the member, while the worker stays where it is.\<close>

lemma reach_stop_closes:
  assumes "pipe_reach (threads_at 7 True wk SIdle {7} False)"
  shows "pipe_reach (threads_at 7 False wk SReset {} False)"
proof -
  have "pipe_reach (threads_at 7 False wk SCheck {7} False)"
    using reach_stop [OF assms stop_step.flag] by simp
  then have "pipe_reach (threads_at 7 False wk SClose {7} False)"
    using reach_stop [OF _ stop_step.check] handle_7_valid by fastforce
  from reach_stop [OF this stop_step.close] show ?thesis by (simp add: close_member_def)
qed

text \<open>
  What goes wrong. The two closes of \<open>m_hPipe\<close> race: there is an interleaving in which \<open>Stop\<close> closes the
  handle that the worker has served and the worker then closes it again (by then another thread may
  own the number). \<open>Stop\<close> may look at \<open>m_hPipe\<close> just before the worker creates its next pipe and then wait in \<open>join\<close> for a
  worker that waits for a client, with the pipe open. And a client that connects and sends nothing
  keeps the worker in \<open>ReadFile\<close>, while \<open>Stop\<close>, having closed the handle, waits in \<open>join\<close>: in both
  no step of either thread is left.
\<close>

theorem shutdown_races:
  "(\<exists>s. pipe_reach s \<and> t_stop s = SReset \<and> t_worker s = WReset \<and> t_stray s)
   \<and> (\<exists>s. pipe_reach s \<and> t_stop s = SJoin \<and> t_worker s = WConnecting (t_hPipe s) \<and> t_open s = {t_hPipe s}
        \<and> (\<nexists>s'. worker_step s s' \<or> stop_step s s'))
   \<and> (\<exists>s h. pipe_reach s \<and> t_stop s = SJoin \<and> t_worker s = WReading h \<and> (\<nexists>s'. worker_step s s' \<or> stop_step s s'))"
proof (intro conjI)
  have "pipe_reach (threads_at 7 True WDisconnect SIdle {7} False)"
    using reach_return [OF reach_reading return_step.received [of _ 7 False]] by simp
  then have "pipe_reach (threads_at 7 True WClose SIdle {7} False)"
    using reach_worker [OF _ worker_step.disconnect] by fastforce
  from reach_stop_closes [OF this] have "pipe_reach (threads_at 7 False WReset SReset {} True)"
    using reach_worker [OF _ worker_step.close] by (fastforce simp: close_member_def)
  then show "\<exists>s. pipe_reach s \<and> t_stop s = SReset \<and> t_worker s = WReset \<and> t_stray s" by force
next
  have "pipe_reach (threads_at INVALID_HANDLE_VALUE False WCreate SCheck {} False)"
    using reach_stop [OF reach_create stop_step.flag] by simp
  then have j: "pipe_reach (threads_at INVALID_HANDLE_VALUE False WCreate SJoin {} False)"
    using reach_stop [OF _ stop_step.check] by fastforce
  have "pipe_reach (threads_at 7 False WCheck SJoin {7} False)"
    using reach_worker [OF j worker_step.create [of _ 7]] handle_7_valid by simp
  then have "pipe_reach (threads_at 7 False WConnect SJoin {7} False)"
    using reach_worker [OF _ worker_step.check] handle_7_valid by fastforce
  from reach_worker [OF this worker_step.connect]
  have "pipe_reach (threads_at 7 False (WConnecting 7) SJoin {7} False)" by simp
  moreover have "\<nexists>s'. worker_step (threads_at 7 False (WConnecting 7) SJoin {7} False) s'
      \<or> stop_step (threads_at 7 False (WConnecting 7) SJoin {7} False) s'"
    by (auto elim!: worker_step.cases stop_step.cases)
  ultimately show "\<exists>s. pipe_reach s \<and> t_stop s = SJoin \<and> t_worker s = WConnecting (t_hPipe s) \<and> t_open s = {t_hPipe s}
        \<and> (\<nexists>s'. worker_step s s' \<or> stop_step s s')" by force
next
  have "pipe_reach (threads_at INVALID_HANDLE_VALUE False (WReading 7) SJoin {} False)"
    using reach_stop [OF reach_stop_closes [OF reach_reading] stop_step.reset] by simp
  moreover have "\<nexists>s'. worker_step (threads_at INVALID_HANDLE_VALUE False (WReading 7) SJoin {} False) s'
      \<or> stop_step (threads_at INVALID_HANDLE_VALUE False (WReading 7) SJoin {} False) s'"
    by (auto elim!: worker_step.cases stop_step.cases)
  ultimately show "\<exists>s h. pipe_reach s \<and> t_stop s = SJoin \<and> t_worker s = WReading h \<and> (\<nexists>s'. worker_step s s' \<or> stop_step s s')"
    by force
qed

theorem stop_completes_witness:
  "\<exists>s. pipe_reach s \<and> \<not> t_isRunning s \<and> (\<exists>s''. pipe_step\<^sup>*\<^sup>* s s'' \<and> t_stop s'' = SDone)"
proof -
  have "pipe_reach (threads_at INVALID_HANDLE_VALUE False WCreate SCheck {} False)"
    using reach_stop [OF reach_create stop_step.flag] by simp
  with stop_completes [OF this, of 0] show ?thesis by force
qed

end
