(* ===== verification/Com_Lifetime.thy ===== *)
theory Com_Lifetime
  imports Win_Api
begin

text \<open>
  The reference counting that the three COM classes of the credential provider share
  (\<open>PhoneKeyCredential\<close>, \<open>PhoneKeyCredentialProvider\<close> and \<open>PhoneKeyClassFactory\<close> each have the same
  \<open>AddRef\<close>, \<open>Release\<close> and creation sequence), stated once as the locale \<open>com_class\<close>. An object lives
  at an address; \<open>Release\<close> deletes it when the count reaches zero, and \<open>None\<close> is a deleted object.
\<close>

section \<open>Results\<close>

datatype HRESULT = S_OK | S_FALSE | E_POINTER | E_NOTIMPL | E_INVALIDARG | E_OUTOFMEMORY | E_NOINTERFACE
  | E_FAIL | CLASS_E_NOAGGREGATION | CLASS_E_CLASSNOTAVAILABLE

text \<open>The count is a \<open>LONG\<close> changed by interlocked operations, which wrap.\<close>

type_synonym LONG = "32 word"

section \<open>What a client does with an object\<close>

datatype com_use = UAddRef | URelease

text \<open>The references a client holds; \<open>None\<close> when it uses an object it has no reference to.\<close>

fun refs_after :: "nat \<Rightarrow> com_use list \<Rightarrow> nat option" where
  "refs_after n [] = Some n"
| "refs_after n (UAddRef # us) = (if n = 0 then None else refs_after (Suc n) us)"
| "refs_after n (URelease # us) = (if n = 0 then None else refs_after (n - 1) us)"

fun com_uses :: "('o \<Rightarrow> LONG \<times> 'o) \<Rightarrow> (env \<Rightarrow> handle \<Rightarrow> 'o \<Rightarrow> (os_log, LONG \<times> 'o option) state)
    \<Rightarrow> env \<Rightarrow> handle \<Rightarrow> com_use list \<Rightarrow> 'o option \<Rightarrow> (os_log, 'o option) state" where
  "com_uses addref release w this [] x = State_Monad.return x"
| "com_uses addref release w this (u # us) None = State_Monad.return None"
| "com_uses addref release w this (UAddRef # us) (Some x) = com_uses addref release w this us (Some (snd (addref x)))"
| "com_uses addref release w this (URelease # us) (Some x) = do {
     (r, x) \<leftarrow> release w this x;
     com_uses addref release w this us x
   }"

text \<open>How often a log deletes the object at an address.\<close>

fun deletions :: "handle \<Rightarrow> os_log \<Rightarrow> nat" where
  "deletions h [] = 0"
| "deletions h ((Com (ObjectDelete g), a) # l) = (if g = h then Suc (deletions h l) else deletions h l)"
| "deletions h (e # l) = deletions h l"

lemma deletions_append: "deletions h (l @ l') = deletions h l + deletions h l'"
  by (induction h l rule: deletions.induct) simp_all

lemma refs_after_0: "refs_after 0 us = Some m \<longleftrightarrow> us = [] \<and> m = 0"
proof (cases us)
  case (Cons u us')
  then show ?thesis by (cases u) simp_all
qed auto

lemma of_nat_LONG_inj: "a < 2 ^ 32 \<Longrightarrow> b < 2 ^ 32 \<Longrightarrow> (of_nat a :: LONG) = of_nat b \<longleftrightarrow> a = b"
  by (simp add: word_of_nat_eq_iff take_bit_nat_def)

text \<open>What a creating call leaves behind: one object with one reference, or nothing.\<close>

definition handed_out :: "HRESULT \<Rightarrow> handle option \<Rightarrow> (handle \<times> 'o) option \<Rightarrow> ('o \<Rightarrow> LONG) \<Rightarrow> os_log \<Rightarrow> os_log \<Rightarrow> bool" where
  "handed_out hr ppv obj cnt l l' \<longleftrightarrow> (releases_ok l \<longrightarrow> releases_ok l') \<and>
     (case obj of
        Some (this, x) \<Rightarrow> hr = S_OK \<and> this \<noteq> NULL \<and> ppv = Some this \<and> cnt x = 1 \<and> held l' = held l + {#RObj this#}
      | None \<Rightarrow> hr \<noteq> S_OK \<and> held l' = held l)"

section \<open>The contract\<close>

text \<open>
  \<open>create\<close> is the sequence \<open>new\<close>, \<open>QueryInterface\<close>, \<open>Release\<close> by which the code hands out an object:
  its results are the code, the pointer it stored and the object, if it is alive.
\<close>

locale com_class =
  fixes fresh :: "'o" and count :: "'o \<Rightarrow> LONG" and addref :: "'o \<Rightarrow> LONG \<times> 'o"
    and release :: "env \<Rightarrow> handle \<Rightarrow> 'o \<Rightarrow> (os_log, LONG \<times> 'o option) state"
    and query :: "env \<Rightarrow> handle \<Rightarrow> string \<Rightarrow> 'o \<Rightarrow> (os_log, HRESULT \<times> handle \<times> 'o) state"
    and iids :: "string list"
  assumes count_fresh: "count fresh = 1"
    and count_addref: "count (snd (addref x)) = count x + 1"
    and release_last: "count x = 1 \<Longrightarrow> run_state (release w this x) l
        = ((0, None), l @ [(Com (ObjectDelete this), w l (Com (ObjectDelete this)))])"
    and release_more: "count x \<noteq> 1 \<Longrightarrow> \<exists>x'. run_state (release w this x) l = ((count x - 1, Some x'), l)
        \<and> count x' = count x - 1"
    and query_ok: "a_ok (w l (Com (QISearch this iids riid))) \<Longrightarrow> \<exists>x'. run_state (query w this riid x) l
        = ((S_OK, this, x'), l @ [(Com (QISearch this iids riid), w l (Com (QISearch this iids riid)))]) \<and> count x' = count x + 1"
    and query_fail: "\<not> a_ok (w l (Com (QISearch this iids riid))) \<Longrightarrow> run_state (query w this riid x) l
        = ((E_NOINTERFACE, NULL, x), l @ [(Com (QISearch this iids riid), w l (Com (QISearch this iids riid)))])"
begin

lemma lifetime:
  assumes "count x = of_nat n" "0 < n" "n + length us < 2 ^ 32" "refs_after n us = Some m"
  shows "\<exists>x' new. run_state (com_uses addref release w this us (Some x)) l = (x', l @ new)
    \<and> (x' = None \<longleftrightarrow> m = 0) \<and> deletions this new = (if m = 0 then 1 else 0)
    \<and> (\<forall>y. x' = Some y \<longrightarrow> count y = of_nat m)"
  using assms
proof (induction us arbitrary: x n l)
  case Nil
  then show ?case by auto
next
  case (Cons u us)
  show ?case
  proof (cases u)
    case UAddRef
    have "count (snd (addref x)) = of_nat (Suc n)" using Cons.prems(1) by (simp add: count_addref)
    from Cons.IH [OF this] Cons.prems UAddRef show ?thesis by simp
  next
    case URelease
    have n: "n < 2 ^ 32" using Cons.prems(3) by simp
    show ?thesis
    proof (cases "n = 1")
      case True
      with Cons.prems URelease have us: "us = []" "m = 0" by (simp_all add: refs_after_0)
      have "count x = 1" using Cons.prems(1) True by simp
      from release_last [OF this, of w this l] us URelease show ?thesis by simp
    next
      case False
      then have "count x \<noteq> 1" using Cons.prems(1) n of_nat_LONG_inj [of n 1] by simp
      then obtain x' where r: "run_state (release w this x) l = ((count x - 1, Some x'), l)" "count x' = count x - 1"
        using release_more by blast
      have "count x' = of_nat (n - 1)" using r(2) Cons.prems(1,2) by (simp add: of_nat_diff)
      moreover have "0 < n - 1" "n - 1 + length us < 2 ^ 32" "refs_after (n - 1) us = Some m"
        using Cons.prems False URelease by auto
      ultimately show ?thesis using Cons.IH [of x' "n - 1" l] r(1) URelease by simp
    qed
  qed
qed

lemma fresh_lifetime:
  assumes "refs_after 1 us = Some m" "Suc (length us) < 2 ^ 32"
  shows "\<exists>x new. run_state (com_uses addref release w this us (Some fresh)) l = (x, l @ new)
    \<and> (x = None \<longleftrightarrow> m = 0) \<and> deletions this new = (if m = 0 then 1 else 0)"
proof -
  have "count fresh = of_nat 1" "0 < (1 :: nat)" "1 + length us < 2 ^ 32" using assms(2) by (simp_all add: count_fresh)
  from lifetime [OF this assms(1), of w this l] show ?thesis by blast
qed

lemma create:
  assumes "run_state (query w this riid fresh) l = ((hr, ppv, x), l1)" "run_state (release w this x) l1 = ((r, obj), l2)"
  shows "hr = S_OK \<and> ppv = this \<and> (\<exists>y. obj = Some y \<and> count y = 1)
        \<and> l2 = l @ [(Com (QISearch this iids riid), w l (Com (QISearch this iids riid)))]
    \<or> hr = E_NOINTERFACE \<and> ppv = NULL \<and> obj = None \<and> (\<exists>a b. l2 = l @ [(Com (QISearch this iids riid), a), (Com (ObjectDelete this), b)])"
proof (cases "a_ok (w l (Com (QISearch this iids riid)))")
  case True
  obtain x' where q: "run_state (query w this riid fresh) l
      = ((S_OK, this, x'), l @ [(Com (QISearch this iids riid), w l (Com (QISearch this iids riid)))])" "count x' = 2"
    using query_ok [of w l this riid fresh] True by (auto simp: count_fresh)
  then have "count x' \<noteq> 1" by simp
  from release_more [OF this, of w this l1] q assms show ?thesis by auto
next
  case False
  from query_fail [of w l this riid fresh] False release_last [OF count_fresh, of w this l1] assms
  show ?thesis by auto
qed

lemma create_view:
  "case run_state (do {
     a \<leftarrow> com w (OperatorNew nm);
     let this = a_handle a;
     if this = NULL then State_Monad.return (E_OUTOFMEMORY, Some q, None)
     else do {
       (hr, pv, x) \<leftarrow> query w this riid fresh;
       (r, x) \<leftarrow> release w this x;
       State_Monad.return (hr, Some pv, map_option (Pair this) x)
     }}) l of ((hr, pv, obj), l') \<Rightarrow> handed_out hr pv obj count l l'"
proof -
  obtain a where a: "a = w l (Com (OperatorNew nm))" by blast
  let ?l0 = "l @ [(Com (OperatorNew nm), a)]"
  show ?thesis
  proof (cases "a_handle a = NULL")
    case True
    then show ?thesis by (simp add: handed_out_def run_if Let_def flip: a)
  next
    case False
    obtain hr ppv x l1 where q: "run_state (query w (a_handle a) riid fresh) ?l0 = ((hr, ppv, x), l1)" by (metis surj_pair)
    obtain r obj l2 where r: "run_state (release w (a_handle a) x) l1 = ((r, obj), l2)" by (metis surj_pair)
    have "handed_out hr (Some ppv) (map_option (Pair (a_handle a)) obj) count l l2"
      using create [OF q r] False by (auto simp: handed_out_def)
    with False q r show ?thesis by (simp add: run_if Let_def flip: a)
  qed
qed

end

end
