(* ===== verification/Credential_Provider.thy ===== *)
theory Credential_Provider
  imports Com_Lifetime Named_Pipe
begin

text \<open>
  The credential provider that Winlogon loads: \<open>windows/credential-provider/PhoneKeyCredential.cpp\<close>
  (the tile), \<open>PhoneKeyCredentialProvider.cpp\<close> (the provider) and \<open>dllmain.cpp\<close> (the class factory
  and the module functions).

  An out-parameter is an \<open>option\<close>: \<open>None\<close> is a null pointer, \<open>Some v\<close> a place that holds \<open>v\<close>. A
  pointer to allocated text or bytes is the address together with the content. \<open>QISearch\<close> is a
  call of the system; as documented it stores the object's address and calls its \<open>AddRef\<close> when it
  succeeds, and stores null otherwise.
\<close>

section \<open>Types of the interface\<close>

datatype serialization_response = CPGSR_NO_CREDENTIAL_NOT_FINISHED | CPGSR_NO_CREDENTIAL_FINISHED
  | CPGSR_RETURN_CREDENTIAL_FINISHED | CPGSR_RETURN_NO_CREDENTIAL_FINISHED

datatype status_icon = CPSI_NONE | CPSI_ERROR | CPSI_WARNING | CPSI_SUCCESS

datatype usage_scenario = CPUS_INVALID | CPUS_LOGON | CPUS_UNLOCK_WORKSTATION | CPUS_CHANGE_PASSWORD
  | CPUS_CREDUI | CPUS_PLAP

datatype field_state = CPFS_HIDDEN | CPFS_DISPLAY_IN_SELECTED_TILE | CPFS_DISPLAY_IN_DESELECTED_TILE | CPFS_DISPLAY_IN_BOTH

datatype interactive_state = CPFIS_NONE | CPFIS_READONLY | CPFIS_DISABLED | CPFIS_FOCUSED

type_synonym GUID = "u32 \<times> u16 \<times> u16 \<times> byte list"

definition CLSID_PhoneKeyCredentialProvider :: GUID where
  "CLSID_PhoneKeyCredentialProvider =
     (0x8b67d3a1, 0x7e9b, 0x4d1c, [0x9e, 0x3a, 0x2b, 0x5c, 0x1d, 0x0e, 0x4f, 0x8a])"

text \<open>A \<open>LPWSTR\<close>: its address and the text there.\<close>

type_synonym wstr = "handle \<times> string"

record CredentialSerialization =
  cs_ulAuthenticationPackage :: u32
  cs_clsidCredentialProvider :: GUID
  cs_cbSerialization :: u32
  cs_rgbSerialization :: "handle \<times> byte list"

text \<open>\<open>if (p) *p = v;\<close>\<close>

definition put_out :: "'a option \<Rightarrow> 'a \<Rightarrow> 'a option" where
  "put_out p v = map_option (\<lambda>_. v) p"

text \<open>\<open>SHStrDupW(s, p)\<close>: its success and the pointer it stores.\<close>

definition dup_string :: "env \<Rightarrow> string \<Rightarrow> (os_log, bool \<times> wstr) state" where
  "dup_string w s = do {
     a \<leftarrow> com w (SHStrDup s);
     State_Monad.return (a_ok a, (a_handle a, if a_ok a then s else []))
   }"

text \<open>\<open>if (p) SHStrDupW(s, p);\<close>\<close>

definition put_text :: "env \<Rightarrow> wstr option \<Rightarrow> string \<Rightarrow> (os_log, wstr option) state" where
  "put_text w p s =
     (case p of
        None \<Rightarrow> State_Monad.return None
      | Some _ \<Rightarrow> do { (ok, t) \<leftarrow> dup_string w s; State_Monad.return (Some t) })"

section \<open>The tile\<close>

record PhoneKeyCredential =
  c_cRef :: LONG
  c_pcpce :: handle
  c_username :: string
  c_domain :: string

definition PhoneKeyCredential_init :: PhoneKeyCredential where
  "PhoneKeyCredential_init = \<lparr>c_cRef = 1, c_pcpce = NULL, c_username = [], c_domain = []\<rparr>"

definition Credential_AddRef :: "PhoneKeyCredential \<Rightarrow> LONG \<times> PhoneKeyCredential" where
  "Credential_AddRef c = (let c = c\<lparr>c_cRef := c_cRef c + 1\<rparr> in (c_cRef c, c))"

definition Credential_Release ::
    "env \<Rightarrow> handle \<Rightarrow> PhoneKeyCredential \<Rightarrow> (os_log, LONG \<times> PhoneKeyCredential option) state" where
  "Credential_Release w this c =
     (let cRef = c_cRef c - 1; c = c\<lparr>c_cRef := cRef\<rparr>
      in if cRef = 0 then do { _ \<leftarrow> com w (ObjectDelete this); State_Monad.return (cRef, None) }
         else State_Monad.return (cRef, Some c))"

definition Credential_qit :: "string list" where
  "Credential_qit = [''ICredentialProviderCredential2'', ''ICredentialProviderCredential'']"

definition Credential_QueryInterface ::
    "env \<Rightarrow> handle \<Rightarrow> string \<Rightarrow> PhoneKeyCredential \<Rightarrow> (os_log, HRESULT \<times> handle \<times> PhoneKeyCredential) state" where
  "Credential_QueryInterface w this riid c = do {
     a \<leftarrow> com w (QISearch this Credential_qit riid);
     if a_ok a then State_Monad.return (S_OK, this, snd (Credential_AddRef c))
     else State_Monad.return (E_NOINTERFACE, NULL, c)
   }"

definition Credential_Advise ::
    "env \<Rightarrow> handle \<Rightarrow> PhoneKeyCredential \<Rightarrow> (os_log, HRESULT \<times> PhoneKeyCredential) state" where
  "Credential_Advise w pcpce c = do {
     let c = c\<lparr>c_pcpce := pcpce\<rparr>;
     _ \<leftarrow> (if c_pcpce c \<noteq> NULL then do { _ \<leftarrow> com w (EventsAddRef (c_pcpce c)); State_Monad.return () }
           else State_Monad.return ());
     State_Monad.return (S_OK, c)
   }"

definition Credential_UnAdvise :: "env \<Rightarrow> PhoneKeyCredential \<Rightarrow> (os_log, HRESULT \<times> PhoneKeyCredential) state" where
  "Credential_UnAdvise w c =
     (if c_pcpce c \<noteq> NULL
      then do { _ \<leftarrow> com w (EventsRelease (c_pcpce c)); State_Monad.return (S_OK, c\<lparr>c_pcpce := NULL\<rparr>) }
      else State_Monad.return (S_OK, c))"

definition SetSelected :: "bool option \<Rightarrow> HRESULT \<times> bool option" where
  "SetSelected pbAutoLogon = (S_OK, put_out pbAutoLogon False)"

definition SetDeselected :: HRESULT where
  "SetDeselected = S_OK"

definition GetFieldState ::
    "nat \<Rightarrow> field_state option \<Rightarrow> interactive_state option \<Rightarrow> HRESULT \<times> field_state option \<times> interactive_state option" where
  "GetFieldState dwFieldCallout pcpfs pcpfis = (S_OK, put_out pcpfs CPFS_DISPLAY_IN_BOTH, put_out pcpfis CPFIS_NONE)"

definition GetStringValue :: "env \<Rightarrow> nat \<Rightarrow> wstr option \<Rightarrow> (os_log, HRESULT \<times> wstr option) state" where
  "GetStringValue w dwFieldCallout ppsz =
     (case ppsz of
        None \<Rightarrow> State_Monad.return (E_POINTER, None)
      | Some _ \<Rightarrow> do {
          (ok, t) \<leftarrow> dup_string w ''PhoneKey Biometric Unlock'';
          State_Monad.return (if ok then S_OK else E_OUTOFMEMORY, Some t)
        })"

definition GetBitmapValue :: "nat \<Rightarrow> handle option \<Rightarrow> HRESULT \<times> handle option" where
  "GetBitmapValue dwFieldCallout phbmp = (E_NOTIMPL, put_out phbmp NULL)"

definition GetCheckboxValue :: "nat \<Rightarrow> bool option \<Rightarrow> wstr option \<Rightarrow> HRESULT \<times> bool option \<times> wstr option" where
  "GetCheckboxValue dwFieldCallout pbChecked ppszLabel =
     (E_NOTIMPL, put_out pbChecked False, put_out ppszLabel (NULL, []))"

definition GetSubmitButtonValue :: "nat \<Rightarrow> nat option \<Rightarrow> HRESULT \<times> nat option" where
  "GetSubmitButtonValue dwFieldCallout pdw = (E_NOTIMPL, put_out pdw 0)"

definition GetComboBoxValueCount :: "nat \<Rightarrow> nat option \<Rightarrow> nat option \<Rightarrow> HRESULT \<times> nat option \<times> nat option" where
  "GetComboBoxValueCount dwFieldCallout pcItems pdwDefault = (E_NOTIMPL, put_out pcItems 0, put_out pdwDefault 0)"

definition GetComboBoxValueAt :: "nat \<Rightarrow> nat \<Rightarrow> wstr option \<Rightarrow> HRESULT \<times> wstr option" where
  "GetComboBoxValueAt dwFieldCallout dwItem ppszItem = (E_NOTIMPL, put_out ppszItem (NULL, []))"

definition SetStringValue :: "nat \<Rightarrow> string \<Rightarrow> HRESULT" where
  "SetStringValue dwFieldCallout psz = S_OK"

definition SetCheckboxValue :: "nat \<Rightarrow> bool \<Rightarrow> HRESULT" where
  "SetCheckboxValue dwFieldCallout bChecked = S_OK"

definition SetComboBoxSelectedValue :: "nat \<Rightarrow> nat \<Rightarrow> HRESULT" where
  "SetComboBoxSelectedValue dwFieldCallout dwItem = S_OK"

definition CommandLinkClicked :: "nat \<Rightarrow> HRESULT" where
  "CommandLinkClicked dwFieldCallout = S_OK"

definition GetUserSid :: "wstr option \<Rightarrow> HRESULT \<times> wstr option" where
  "GetUserSid ppszSid = (case ppszSid of None \<Rightarrow> (E_POINTER, None) | Some _ \<Rightarrow> (E_NOTIMPL, Some (NULL, [])))"

text \<open>
  \<open>resp\<close> is the local \<open>IpcPacket resp\<close>, whose numbers are indeterminate and whose payload is empty.
\<close>

definition GetSerialization ::
    "env \<Rightarrow> IpcPacket \<Rightarrow> serialization_response option \<Rightarrow> CredentialSerialization option \<Rightarrow> wstr option \<Rightarrow> status_icon option
      \<Rightarrow> (os_log, HRESULT \<times> serialization_response option \<times> CredentialSerialization option
            \<times> wstr option \<times> status_icon option) state" where
  "GetSerialization w resp pcpgsr pcpcs ppszOptionalStatusText pcpsiStatusIcon =
     (case (pcpgsr, pcpcs) of
        (Some _, Some cs) \<Rightarrow> do {
          let req = \<lparr>ipc_type = REQ_UNLOCK, ipc_statusCode = 0, ipc_payload = []\<rparr>;
          (ipcOk, resp) \<leftarrow> SendIpcRequest w req (resp\<lparr>ipc_payload := []\<rparr>) 5000;
          if \<not> ipcOk \<or> ipc_statusCode resp \<noteq> 0x0000 \<or> ipc_payload resp = []
          then do {
            text \<leftarrow> put_text w ppszOptionalStatusText ''PhoneKey Biometric Authentication Failed or Timed Out'';
            State_Monad.return (S_OK, Some CPGSR_NO_CREDENTIAL_FINISHED, pcpcs, text, put_out pcpsiStatusIcon CPSI_ERROR)
          }
          else do {
            b \<leftarrow> com w (CoTaskMemAlloc (length (ipc_payload resp)));
            let pBuffer = a_handle b;
            if pBuffer = NULL
            then State_Monad.return (E_OUTOFMEMORY, pcpgsr, pcpcs, ppszOptionalStatusText, pcpsiStatusIcon)
            else do {
              let cs = cs\<lparr>cs_clsidCredentialProvider := CLSID_PhoneKeyCredentialProvider,
                    cs_cbSerialization := of_nat (length (ipc_payload resp)),
                    cs_rgbSerialization := (pBuffer, ipc_payload resp)\<rparr>;
              text \<leftarrow> put_text w ppszOptionalStatusText ''PhoneKey Biometric Unlock Authorized'';
              State_Monad.return (S_OK, Some CPGSR_RETURN_CREDENTIAL_FINISHED, Some cs, text, put_out pcpsiStatusIcon CPSI_SUCCESS)
            }}}
      | _ \<Rightarrow> State_Monad.return (E_POINTER, pcpgsr, pcpcs, ppszOptionalStatusText, pcpsiStatusIcon))"

definition ReportResult :: "int \<Rightarrow> int \<Rightarrow> wstr option \<Rightarrow> status_icon option \<Rightarrow> HRESULT \<times> wstr option \<times> status_icon option" where
  "ReportResult ntsStatus ntsSubstatus ppszOptionalStatusText pcpsiStatusIcon =
     (S_OK, put_out ppszOptionalStatusText (NULL, []), put_out pcpsiStatusIcon CPSI_SUCCESS)"

section \<open>The provider\<close>

record PhoneKeyCredentialProvider =
  p_cRef :: LONG
  p_cpus :: usage_scenario
  p_pcpe :: handle
  p_upRef :: nat

definition PhoneKeyCredentialProvider_init :: PhoneKeyCredentialProvider where
  "PhoneKeyCredentialProvider_init = \<lparr>p_cRef = 1, p_cpus = CPUS_LOGON, p_pcpe = NULL, p_upRef = 0\<rparr>"

definition Provider_AddRef :: "PhoneKeyCredentialProvider \<Rightarrow> LONG \<times> PhoneKeyCredentialProvider" where
  "Provider_AddRef p = (let p = p\<lparr>p_cRef := p_cRef p + 1\<rparr> in (p_cRef p, p))"

definition Provider_Release ::
    "env \<Rightarrow> handle \<Rightarrow> PhoneKeyCredentialProvider \<Rightarrow> (os_log, LONG \<times> PhoneKeyCredentialProvider option) state" where
  "Provider_Release w this p =
     (let cRef = p_cRef p - 1; p = p\<lparr>p_cRef := cRef\<rparr>
      in if cRef = 0 then do { _ \<leftarrow> com w (ObjectDelete this); State_Monad.return (cRef, None) }
         else State_Monad.return (cRef, Some p))"

definition Provider_qit :: "string list" where
  "Provider_qit = [''ICredentialProvider'']"

definition Provider_QueryInterface ::
    "env \<Rightarrow> handle \<Rightarrow> string \<Rightarrow> PhoneKeyCredentialProvider \<Rightarrow> (os_log, HRESULT \<times> handle \<times> PhoneKeyCredentialProvider) state" where
  "Provider_QueryInterface w this riid p = do {
     a \<leftarrow> com w (QISearch this Provider_qit riid);
     if a_ok a then State_Monad.return (S_OK, this, snd (Provider_AddRef p))
     else State_Monad.return (E_NOINTERFACE, NULL, p)
   }"

definition SetUsageScenario ::
    "usage_scenario \<Rightarrow> nat \<Rightarrow> PhoneKeyCredentialProvider \<Rightarrow> HRESULT \<times> PhoneKeyCredentialProvider" where
  "SetUsageScenario cpus dwFlags p =
     (case cpus of
        CPUS_LOGON \<Rightarrow> S_OK
      | CPUS_UNLOCK_WORKSTATION \<Rightarrow> S_OK
      | _ \<Rightarrow> E_NOTIMPL, p\<lparr>p_cpus := cpus\<rparr>)"

definition SetSerialization :: "CredentialSerialization option \<Rightarrow> HRESULT" where
  "SetSerialization pcpcs = S_OK"

definition Provider_Advise ::
    "env \<Rightarrow> handle \<Rightarrow> nat \<Rightarrow> PhoneKeyCredentialProvider \<Rightarrow> (os_log, HRESULT \<times> PhoneKeyCredentialProvider) state" where
  "Provider_Advise w pcpe upRef p = do {
     let p = p\<lparr>p_pcpe := pcpe, p_upRef := upRef\<rparr>;
     _ \<leftarrow> (if p_pcpe p \<noteq> NULL then do { _ \<leftarrow> com w (EventsAddRef (p_pcpe p)); State_Monad.return () }
           else State_Monad.return ());
     State_Monad.return (S_OK, p)
   }"

definition Provider_UnAdvise ::
    "env \<Rightarrow> PhoneKeyCredentialProvider \<Rightarrow> (os_log, HRESULT \<times> PhoneKeyCredentialProvider) state" where
  "Provider_UnAdvise w p =
     (if p_pcpe p \<noteq> NULL
      then do { _ \<leftarrow> com w (EventsRelease (p_pcpe p)); State_Monad.return (S_OK, p\<lparr>p_pcpe := NULL\<rparr>) }
      else State_Monad.return (S_OK, p))"

definition GetFieldDescriptorCount :: "nat option \<Rightarrow> HRESULT \<times> nat option" where
  "GetFieldDescriptorCount pdwCount = (case pdwCount of None \<Rightarrow> (E_POINTER, None) | Some _ \<Rightarrow> (S_OK, Some 1))"

record FieldDescriptor =
  fd_dwFieldID :: nat
  fd_cpft :: string
  fd_pszLabel :: wstr
  fd_guidFieldType :: string

text \<open>\<open>cbDesc\<close> is \<open>sizeof(CREDENTIAL_PROVIDER_FIELD_DESCRIPTOR)\<close>; the out-pointer gets the address and the descriptor there.\<close>

definition GetFieldDescriptorAt ::
    "env \<Rightarrow> nat \<Rightarrow> nat \<Rightarrow> (handle \<times> FieldDescriptor) option \<Rightarrow> (os_log, HRESULT \<times> (handle \<times> FieldDescriptor) option) state" where
  "GetFieldDescriptorAt w cbDesc dwIndex ppcpfd =
     (if dwIndex \<noteq> 0 \<or> ppcpfd = None then State_Monad.return (E_INVALIDARG, ppcpfd)
      else do {
        a \<leftarrow> com w (CoTaskMemAlloc cbDesc);
        let pcpfd = a_handle a;
        if pcpfd = NULL then State_Monad.return (E_OUTOFMEMORY, ppcpfd)
        else do {
          (ok, label) \<leftarrow> dup_string w ''PhoneKey Biometric Unlock'';
          State_Monad.return (S_OK, Some (pcpfd, \<lparr>fd_dwFieldID = 0, fd_cpft = ''CPFT_LARGE_TEXT'',
            fd_pszLabel = label, fd_guidFieldType = ''GUID_NULL''\<rparr>))
        }})"

definition GetCredentialCount :: "nat option \<Rightarrow> nat option \<Rightarrow> bool option \<Rightarrow> HRESULT \<times> nat option \<times> nat option \<times> bool option" where
  "GetCredentialCount pdwCount pdwDefault pbAutoLogonWithDefault =
     (if pdwCount = None \<or> pdwDefault = None \<or> pbAutoLogonWithDefault = None
      then (E_POINTER, pdwCount, pdwDefault, pbAutoLogonWithDefault)
      else (S_OK, Some 1, Some 0, Some False))"

text \<open>The code, the pointer stored through \<open>ppcpc\<close>, and the new tile with its address, if it is alive.\<close>

definition GetCredentialAt ::
    "env \<Rightarrow> nat \<Rightarrow> handle option \<Rightarrow> (os_log, HRESULT \<times> handle option \<times> (handle \<times> PhoneKeyCredential) option) state" where
  "GetCredentialAt w dwIndex ppcpc =
     (if dwIndex \<noteq> 0 \<or> ppcpc = None then State_Monad.return (E_INVALIDARG, ppcpc, None)
      else do {
        a \<leftarrow> com w (OperatorNew ''PhoneKeyCredential'');
        let pCred = a_handle a;
        if pCred = NULL then State_Monad.return (E_OUTOFMEMORY, ppcpc, None)
        else do {
          (hr, pv, c) \<leftarrow> Credential_QueryInterface w pCred ''ICredentialProviderCredential'' PhoneKeyCredential_init;
          (r, c) \<leftarrow> Credential_Release w pCred c;
          State_Monad.return (hr, put_out ppcpc pv, map_option (Pair pCred) c)
        }})"

section \<open>The module\<close>

record module =
  g_hInst :: handle
  g_cRefModule :: LONG

definition module_init :: module where
  "module_init = \<lparr>g_hInst = NULL, g_cRefModule = 0\<rparr>"

definition DLL_PROCESS_ATTACH :: nat where "DLL_PROCESS_ATTACH = 1"

text \<open>\<open>DisableThreadLibraryCalls\<close> only tells the loader not to call \<open>DllMain\<close> for threads.\<close>

definition DllMain :: "handle \<Rightarrow> nat \<Rightarrow> module \<Rightarrow> bool \<times> module" where
  "DllMain hModule ul_reason_for_call m =
     (True, if ul_reason_for_call = DLL_PROCESS_ATTACH then m\<lparr>g_hInst := hModule\<rparr> else m)"

definition DllCanUnloadNow :: "module \<Rightarrow> HRESULT" where
  "DllCanUnloadNow m = (if g_cRefModule m = 0 then S_OK else S_FALSE)"

record PhoneKeyClassFactory =
  f_cRef :: LONG

definition PhoneKeyClassFactory_init :: PhoneKeyClassFactory where
  "PhoneKeyClassFactory_init = \<lparr>f_cRef = 1\<rparr>"

definition Factory_AddRef :: "PhoneKeyClassFactory \<Rightarrow> LONG \<times> PhoneKeyClassFactory" where
  "Factory_AddRef f = (let f = f\<lparr>f_cRef := f_cRef f + 1\<rparr> in (f_cRef f, f))"

definition Factory_Release ::
    "env \<Rightarrow> handle \<Rightarrow> PhoneKeyClassFactory \<Rightarrow> (os_log, LONG \<times> PhoneKeyClassFactory option) state" where
  "Factory_Release w this f =
     (let cRef = f_cRef f - 1; f = f\<lparr>f_cRef := cRef\<rparr>
      in if cRef = 0 then do { _ \<leftarrow> com w (ObjectDelete this); State_Monad.return (cRef, None) }
         else State_Monad.return (cRef, Some f))"

definition Factory_qit :: "string list" where
  "Factory_qit = [''IClassFactory'']"

definition Factory_QueryInterface ::
    "env \<Rightarrow> handle \<Rightarrow> string \<Rightarrow> PhoneKeyClassFactory \<Rightarrow> (os_log, HRESULT \<times> handle \<times> PhoneKeyClassFactory) state" where
  "Factory_QueryInterface w this riid f = do {
     a \<leftarrow> com w (QISearch this Factory_qit riid);
     if a_ok a then State_Monad.return (S_OK, this, snd (Factory_AddRef f))
     else State_Monad.return (E_NOINTERFACE, NULL, f)
   }"

definition CreateInstance ::
    "env \<Rightarrow> handle \<Rightarrow> string \<Rightarrow> handle option
      \<Rightarrow> (os_log, HRESULT \<times> handle option \<times> (handle \<times> PhoneKeyCredentialProvider) option) state" where
  "CreateInstance w pUnkOuter riid ppv =
     (if pUnkOuter \<noteq> NULL then State_Monad.return (CLASS_E_NOAGGREGATION, ppv, None)
      else do {
        a \<leftarrow> com w (OperatorNew ''PhoneKeyCredentialProvider'');
        let pProvider = a_handle a;
        if pProvider = NULL then State_Monad.return (E_OUTOFMEMORY, ppv, None)
        else do {
          (hr, pv, p) \<leftarrow> Provider_QueryInterface w pProvider riid PhoneKeyCredentialProvider_init;
          (r, p) \<leftarrow> Provider_Release w pProvider p;
          State_Monad.return (hr, put_out ppv pv, map_option (Pair pProvider) p)
        }})"

definition LockServer :: "bool \<Rightarrow> module \<Rightarrow> HRESULT \<times> module" where
  "LockServer fLock m =
     (S_OK, m\<lparr>g_cRefModule := (if fLock then g_cRefModule m + 1 else g_cRefModule m - 1)\<rparr>)"

definition DllGetClassObject ::
    "env \<Rightarrow> GUID \<Rightarrow> string \<Rightarrow> handle option
      \<Rightarrow> (os_log, HRESULT \<times> handle option \<times> (handle \<times> PhoneKeyClassFactory) option) state" where
  "DllGetClassObject w rclsid riid ppv =
     (if rclsid = CLSID_PhoneKeyCredentialProvider
      then do {
        a \<leftarrow> com w (OperatorNew ''PhoneKeyClassFactory'');
        let pFactory = a_handle a;
        if pFactory = NULL then State_Monad.return (E_OUTOFMEMORY, ppv, None)
        else do {
          (hr, pv, f) \<leftarrow> Factory_QueryInterface w pFactory riid PhoneKeyClassFactory_init;
          (r, f) \<leftarrow> Factory_Release w pFactory f;
          State_Monad.return (hr, put_out ppv pv, map_option (Pair pFactory) f)
        }}
      else State_Monad.return (CLASS_E_CLASSNOTAVAILABLE, ppv, None))"

text \<open>The registry path of the provider; the character \<open>0x5C\<close> is the backslash.\<close>

definition provider_subkey :: string where
  "provider_subkey = concat (map (\<lambda>s. s @ [CHR 0x5C])
     [''SOFTWARE'', ''Microsoft'', ''Windows'', ''CurrentVersion'', ''Authentication'', ''Credential Providers''])
     @ ''{8B67D3A1-7E9B-4D1C-9E3A-2B5C1D0E4F8A}''"

definition DllRegisterServer :: "env \<Rightarrow> (os_log, HRESULT) state" where
  "DllRegisterServer w = do {
     a \<leftarrow> com w (RegCreateKey provider_subkey);
     if a_ok a
     then do {
       _ \<leftarrow> com w (RegSetValue (a_handle a) ''PhoneKeyCredentialProvider'');
       _ \<leftarrow> com w (RegCloseKey (a_handle a));
       State_Monad.return S_OK
     }
     else State_Monad.return E_FAIL
   }"

definition DllUnregisterServer :: "env \<Rightarrow> (os_log, HRESULT) state" where
  "DllUnregisterServer w = do {
     _ \<leftarrow> com w (RegDeleteKey provider_subkey);
     State_Monad.return S_OK
   }"

section \<open>Lifetime of the objects\<close>

interpretation tile: com_class PhoneKeyCredential_init c_cRef Credential_AddRef Credential_Release
    Credential_QueryInterface Credential_qit
  by unfold_locales
    (auto simp: PhoneKeyCredential_init_def Credential_AddRef_def Credential_Release_def Credential_QueryInterface_def
      Let_def run_if)

interpretation provider: com_class PhoneKeyCredentialProvider_init p_cRef Provider_AddRef Provider_Release
    Provider_QueryInterface Provider_qit
  by unfold_locales
    (auto simp: PhoneKeyCredentialProvider_init_def Provider_AddRef_def Provider_Release_def Provider_QueryInterface_def
      Let_def run_if)

interpretation factory: com_class PhoneKeyClassFactory_init f_cRef Factory_AddRef Factory_Release
    Factory_QueryInterface Factory_qit
  by unfold_locales
    (auto simp: PhoneKeyClassFactory_init_def Factory_AddRef_def Factory_Release_def Factory_QueryInterface_def
      Let_def run_if)

text \<open>
  C36. An object lives exactly as long as it is referenced. For each of the three classes: a client
  that starts with one reference and never uses an object it has no reference to (and holds fewer
  than \<open>2 ^ 32\<close>) finds the object alive as long as it holds a reference, and when it gives back the
  last one the object has been deleted, once.
\<close>

theorem com_lifetime:
  assumes "refs_after 1 us = Some m" "Suc (length us) < 2 ^ 32"
  shows "(\<exists>x new. run_state (com_uses Credential_AddRef Credential_Release w this us (Some PhoneKeyCredential_init)) l = (x, l @ new)
      \<and> (x = None \<longleftrightarrow> m = 0) \<and> deletions this new = (if m = 0 then 1 else 0))
    \<and> (\<exists>x new. run_state (com_uses Provider_AddRef Provider_Release w this us (Some PhoneKeyCredentialProvider_init)) l = (x, l @ new)
      \<and> (x = None \<longleftrightarrow> m = 0) \<and> deletions this new = (if m = 0 then 1 else 0))
    \<and> (\<exists>x new. run_state (com_uses Factory_AddRef Factory_Release w this us (Some PhoneKeyClassFactory_init)) l = (x, l @ new)
      \<and> (x = None \<longleftrightarrow> m = 0) \<and> deletions this new = (if m = 0 then 1 else 0))"
  using assms by (intro conjI tile.fresh_lifetime provider.fresh_lifetime factory.fresh_lifetime)

definition com_env :: "bool \<Rightarrow> env" where
  "com_env ok l c = \<lparr>a_ok = ok, a_handle = 5, a_bytes = [], a_num = 0\<rparr>"

theorem com_lifetime_witness:
  "\<exists>new. run_state (com_uses Credential_AddRef Credential_Release (com_env True) 5 [UAddRef, URelease, URelease]
      (Some PhoneKeyCredential_init)) [] = (None, new) \<and> deletions 5 new = 1"
  using com_lifetime [of "[UAddRef, URelease, URelease]" 0 "com_env True" 5 "[]"] by auto

text \<open>
  The three calls that create objects, \<open>GetCredentialAt\<close>, \<open>CreateInstance\<close> and
  \<open>DllGetClassObject\<close>, answer \<open>S_OK\<close> exactly when they hand out a new object, which then has one
  reference, the caller's, and whose address is in the out-parameter; in every other case
  (bad index, aggregation, unknown class, no memory, interface not supported) nothing is left
  allocated, and nothing is deleted twice.
\<close>

theorem creation_exact:
  "(case run_state (GetCredentialAt w i (Some q)) l of ((hr, pv, obj), l') \<Rightarrow> handed_out hr pv obj c_cRef l l')
   \<and> (case run_state (CreateInstance w outer riid (Some q)) l of ((hr, pv, obj), l') \<Rightarrow> handed_out hr pv obj p_cRef l l')
   \<and> (case run_state (DllGetClassObject w clsid riid (Some q)) l of ((hr, pv, obj), l') \<Rightarrow> handed_out hr pv obj f_cRef l l')"
proof (intro conjI)
  have null: "handed_out E_INVALIDARG pv None cnt l l" "handed_out CLASS_E_NOAGGREGATION pv None cnt l l"
    "handed_out CLASS_E_CLASSNOTAVAILABLE pv None cnt l l"
    for pv l and cnt :: "'x \<Rightarrow> LONG" by (simp_all add: handed_out_def)
  show "case run_state (GetCredentialAt w i (Some q)) l of ((hr, pv, obj), l') \<Rightarrow> handed_out hr pv obj c_cRef l l'"
    using tile.create_view [where w = w and l = l and nm = "''PhoneKeyCredential''" and riid = "''ICredentialProviderCredential''" and q = q]
    unfolding GetCredentialAt_def put_out_def option.map by (simp add: run_if null)
  show "case run_state (CreateInstance w outer riid (Some q)) l of ((hr, pv, obj), l') \<Rightarrow> handed_out hr pv obj p_cRef l l'"
    using provider.create_view [where w = w and l = l and nm = "''PhoneKeyCredentialProvider''" and riid = riid and q = q]
    unfolding CreateInstance_def put_out_def option.map by (simp add: run_if null)
  show "case run_state (DllGetClassObject w clsid riid (Some q)) l of ((hr, pv, obj), l') \<Rightarrow> handed_out hr pv obj f_cRef l l'"
    using factory.create_view [where w = w and l = l and nm = "''PhoneKeyClassFactory''" and riid = riid and q = q]
    unfolding DllGetClassObject_def put_out_def option.map by (simp add: run_if null)
qed

section \<open>The decision of the tile\<close>

lemma put_text_run:
  "\<exists>t' new M. run_state (put_text w p s) l = (t', l @ new) \<and> held (l @ new) = held l + image_mset RMem M
     \<and> (releases_ok l \<longrightarrow> releases_ok (l @ new))"
proof (cases p)
  case None
  then show ?thesis by (auto simp: put_text_def intro!: exI [of _ "{#}"])
next
  case (Some t)
  obtain a where a: "a = w l (Com (SHStrDup s))" by blast
  show ?thesis
    unfolding Some
    by (rule exI [of _ "Some (a_handle a, if a_ok a then s else [])"], rule exI [of _ "[(Com (SHStrDup s), a)]"],
        rule exI [of _ "if a_ok a then {#a_handle a#} else {#}"])
      (simp add: put_text_def dup_string_def a)
qed

lemma SendIpcRequest_payload:
  assumes "run_state (SendIpcRequest w req (out\<lparr>ipc_payload := []\<rparr>) t) l = ((True, resp), l')"
  shows "length (ipc_payload resp) \<le> 4092"
proof -
  obtain bs where "length bs \<le> IPC_MAX_BUFFER_SIZE"
      "resp = ipc_decode (fill IPC_MAX_BUFFER_SIZE bs) (length bs) (out\<lparr>ipc_payload := []\<rparr>)"
    using SendIpcRequest_true [OF assms] by metis
  then show ?thesis by (auto simp: ipc_decode_def Let_def IPC_MAX_BUFFER_SIZE_def)
qed

abbreviation unlock_request :: IpcPacket where
  "unlock_request \<equiv> \<lparr>ipc_type = REQ_UNLOCK, ipc_statusCode = 0, ipc_payload = []\<rparr>"

text \<open>The agent's answer authorises the logon.\<close>

definition authorises :: "bool \<Rightarrow> IpcPacket \<Rightarrow> bool" where
  "authorises ipcOk resp \<longleftrightarrow> ipcOk \<and> ipc_statusCode resp = 0 \<and> ipc_payload resp \<noteq> []"

lemma GetSerialization_run:
  assumes ipc: "run_state (SendIpcRequest w unlock_request (u\<lparr>ipc_payload := []\<rparr>) 5000) l = ((ipcOk, resp), l1)"
    and run: "run_state (GetSerialization w u (Some g) (Some cs) text icon) l = ((hr, g', cs', text', icon'), l')"
    and b: "b = w l1 (Com (CoTaskMemAlloc (length (ipc_payload resp))))"
  shows "\<exists>M. held l' = held l + image_mset RMem M \<and> (releases_ok l \<longrightarrow> releases_ok l')"
    and "(hr, g', cs', icon') =
      (if \<not> authorises ipcOk resp then (S_OK, Some CPGSR_NO_CREDENTIAL_FINISHED, Some cs, put_out icon CPSI_ERROR)
       else if a_handle b = NULL then (E_OUTOFMEMORY, Some g, Some cs, icon)
       else (S_OK, Some CPGSR_RETURN_CREDENTIAL_FINISHED, Some (cs\<lparr>cs_clsidCredentialProvider := CLSID_PhoneKeyCredentialProvider,
          cs_cbSerialization := of_nat (length (ipc_payload resp)),
          cs_rgbSerialization := (a_handle b, ipc_payload resp)\<rparr>), put_out icon CPSI_SUCCESS))"
proof -
  note n = neutral_run [OF SendIpcRequest_neutral ipc]
  obtain t1 new1 M1 where t1: "run_state (put_text w text ''PhoneKey Biometric Authentication Failed or Timed Out'') l1 = (t1, l1 @ new1)"
      "held (l1 @ new1) = held l1 + image_mset RMem M1" "releases_ok l1 \<longrightarrow> releases_ok (l1 @ new1)"
    using put_text_run by metis
  let ?l2 = "l1 @ [(Com (CoTaskMemAlloc (length (ipc_payload resp))), b)]"
  obtain t2 new2 M2 where t2: "run_state (put_text w text ''PhoneKey Biometric Unlock Authorized'') ?l2 = (t2, ?l2 @ new2)"
      "held (?l2 @ new2) = held ?l2 + image_mset RMem M2" "releases_ok ?l2 \<longrightarrow> releases_ok (?l2 @ new2)"
    using put_text_run by metis
  have view: "run_state (GetSerialization w u (Some g) (Some cs) text icon) l =
      (if \<not> authorises ipcOk resp
       then ((S_OK, Some CPGSR_NO_CREDENTIAL_FINISHED, Some cs, t1, put_out icon CPSI_ERROR), l1 @ new1)
       else if a_handle b = NULL then ((E_OUTOFMEMORY, Some g, Some cs, text, icon), ?l2)
       else ((S_OK, Some CPGSR_RETURN_CREDENTIAL_FINISHED, Some (cs\<lparr>cs_clsidCredentialProvider := CLSID_PhoneKeyCredentialProvider,
          cs_cbSerialization := of_nat (length (ipc_payload resp)),
          cs_rgbSerialization := (a_handle b, ipc_payload resp)\<rparr>), t2, put_out icon CPSI_SUCCESS), ?l2 @ new2))"
    using t1(1) t2(1) unfolding GetSerialization_def Let_def option.case prod.case
    by (simp add: ipc run_if authorises_def flip: b)
  show "(hr, g', cs', icon') =
      (if \<not> authorises ipcOk resp then (S_OK, Some CPGSR_NO_CREDENTIAL_FINISHED, Some cs, put_out icon CPSI_ERROR)
       else if a_handle b = NULL then (E_OUTOFMEMORY, Some g, Some cs, icon)
       else (S_OK, Some CPGSR_RETURN_CREDENTIAL_FINISHED, Some (cs\<lparr>cs_clsidCredentialProvider := CLSID_PhoneKeyCredentialProvider,
          cs_cbSerialization := of_nat (length (ipc_payload resp)),
          cs_rgbSerialization := (a_handle b, ipc_payload resp)\<rparr>), put_out icon CPSI_SUCCESS))"
    using run unfolding view by (auto split: if_splits)
  have l': "l' = (if \<not> authorises ipcOk resp then l1 @ new1 else if a_handle b = NULL then ?l2 else ?l2 @ new2)"
    using run unfolding view by (auto split: if_splits)
  have "held ?l2 = held l1 + image_mset RMem (if a_handle b = NULL then {#} else {#a_handle b#})" by simp
  with t1(2) t2(2) n(1) l' have "held l' = held l + image_mset RMem (if \<not> authorises ipcOk resp then M1
      else if a_handle b = NULL then {#} else {#a_handle b#} + M2)"
    by (auto simp del: held_append)
  moreover have "releases_ok l \<longrightarrow> releases_ok l'" using n(2) t1(3) t2(3) l' by auto
  ultimately show "\<exists>M. held l' = held l + image_mset RMem M \<and> (releases_ok l \<longrightarrow> releases_ok l')" by blast
qed

text \<open>
  The tile fails closed. \<open>GetSerialization\<close> hands a credential to Winlogon only if in this very
  call the agent answered over the pipe with status 0 and a nonempty payload; the credential is
  then exactly that payload, in memory of its own and with its exact length (at most 4092 bytes,
  so the cast to \<open>ULONG\<close> loses nothing). In every other case, an unreachable or silent agent
  included, the credential structure is left untouched and the answer is "no credential", or an
  error when memory is short. No pipe handle stays open, whatever fails; what the call leaves
  allocated is memory that now belongs to the caller.
\<close>

theorem GetSerialization_fail_closed:
  assumes "run_state (GetSerialization w u (Some g) (Some cs) text icon) l = ((hr, g', cs', text', icon'), l')"
  shows "(\<exists>M. held l' = held l + image_mset RMem M \<and> (releases_ok l \<longrightarrow> releases_ok l'))
    \<and> ((\<exists>resp l1 p. run_state (SendIpcRequest w unlock_request (u\<lparr>ipc_payload := []\<rparr>) 5000) l = ((True, resp), l1)
          \<and> ipc_statusCode resp = 0 \<and> ipc_payload resp \<noteq> [] \<and> p \<noteq> NULL
          \<and> hr = S_OK \<and> g' = Some CPGSR_RETURN_CREDENTIAL_FINISHED \<and> icon' = put_out icon CPSI_SUCCESS
          \<and> cs_rgbSerialization (the cs') = (p, ipc_payload resp)
          \<and> unat (cs_cbSerialization (the cs')) = length (ipc_payload resp)
          \<and> cs_clsidCredentialProvider (the cs') = CLSID_PhoneKeyCredentialProvider)
       \<or> cs' = Some cs \<and> hr = S_OK \<and> g' = Some CPGSR_NO_CREDENTIAL_FINISHED \<and> icon' = put_out icon CPSI_ERROR
       \<or> cs' = Some cs \<and> hr = E_OUTOFMEMORY \<and> g' = Some g \<and> icon' = icon)"
proof -
  obtain ipcOk resp l1 where ipc: "run_state (SendIpcRequest w unlock_request (u\<lparr>ipc_payload := []\<rparr>) 5000) l = ((ipcOk, resp), l1)"
    by (metis surj_pair)
  obtain b where b: "b = w l1 (Com (CoTaskMemAlloc (length (ipc_payload resp))))" by blast
  note run = GetSerialization_run [OF ipc assms b]
  show ?thesis
  proof (cases "authorises ipcOk resp \<and> a_handle b \<noteq> NULL")
    case True
    then have ok: "ipcOk" "ipc_statusCode resp = 0" "ipc_payload resp \<noteq> []" by (auto simp: authorises_def)
    with ipc have "length (ipc_payload resp) \<le> 4092" using SendIpcRequest_payload [of w unlock_request u 5000 l resp l1] by simp
    then have "unat (of_nat (length (ipc_payload resp)) :: u32) = length (ipc_payload resp)"
      by (simp add: unat_of_nat)
    with True ok ipc run(2) have "run_state (SendIpcRequest w unlock_request (u\<lparr>ipc_payload := []\<rparr>) 5000) l = ((True, resp), l1)
          \<and> ipc_statusCode resp = 0 \<and> ipc_payload resp \<noteq> [] \<and> a_handle b \<noteq> NULL
          \<and> hr = S_OK \<and> g' = Some CPGSR_RETURN_CREDENTIAL_FINISHED \<and> icon' = put_out icon CPSI_SUCCESS
          \<and> cs_rgbSerialization (the cs') = (a_handle b, ipc_payload resp)
          \<and> unat (cs_cbSerialization (the cs')) = length (ipc_payload resp)
          \<and> cs_clsidCredentialProvider (the cs') = CLSID_PhoneKeyCredentialProvider"
      by simp
    with run(1) show ?thesis by blast
  next
    case False
    with run(2) have "cs' = Some cs \<and> hr = S_OK \<and> g' = Some CPGSR_NO_CREDENTIAL_FINISHED \<and> icon' = put_out icon CPSI_ERROR
       \<or> cs' = Some cs \<and> hr = E_OUTOFMEMORY \<and> g' = Some g \<and> icon' = icon"
      by (auto split: if_splits)
    with run(1) show ?thesis by blast
  qed
qed

text \<open>An empty structure, as a caller might pass it.\<close>

definition blank_serialization :: CredentialSerialization where
  "blank_serialization = \<lparr>cs_ulAuthenticationPackage = 0, cs_clsidCredentialProvider = (0, 0, 0, []),
     cs_cbSerialization = 0, cs_rgbSerialization = (NULL, [])\<rparr>"

lemma send_sample: "fst (run_state (SendIpcRequest (pipe_env (ipc_encode sample_reply)) unlock_request (sample_request\<lparr>ipc_payload := []\<rparr>) 5000) [])
     = (True, sample_reply)"
proof -
  have "ipc_decode (fill IPC_MAX_BUFFER_SIZE (ipc_encode sample_reply)) (length (take IPC_MAX_BUFFER_SIZE (ipc_encode sample_reply)))
      (sample_request\<lparr>ipc_payload := []\<rparr>) = sample_reply"
    using ipc_decode_encode [OF refl, of sample_reply "sample_request\<lparr>ipc_payload := []\<rparr>"]
    by (simp add: sample_reply_def IPC_MAX_BUFFER_SIZE_def)
  moreover have "4 \<le> length (take IPC_MAX_BUFFER_SIZE (ipc_encode sample_reply))"
    by (simp add: sample_lengths IPC_MAX_BUFFER_SIZE_def)
  ultimately show ?thesis
    using handle_5_valid unfolding SendIpcRequest_def Let_def by (simp add: run_if pipe_env_def del: length_take)
qed

theorem GetSerialization_fail_closed_witness:
  "\<exists>g' cs' text' icon' l'. run_state (GetSerialization (pipe_env (ipc_encode sample_reply)) sample_request
       (Some CPGSR_NO_CREDENTIAL_NOT_FINISHED) (Some blank_serialization) None None) [] = ((S_OK, g', cs', text', icon'), l')
     \<and> cs_rgbSerialization (the cs') = (5, [9, 8])"
proof -
  let ?w = "pipe_env (ipc_encode sample_reply)"
  obtain l1 where ipc: "run_state (SendIpcRequest ?w unlock_request (sample_request\<lparr>ipc_payload := []\<rparr>) 5000) [] = ((True, sample_reply), l1)"
    using send_sample by (metis prod.collapse)
  obtain hr g' cs' text' icon' l' where run: "run_state (GetSerialization ?w sample_request
      (Some CPGSR_NO_CREDENTIAL_NOT_FINISHED) (Some blank_serialization) None None) [] = ((hr, g', cs', text', icon'), l')"
    by (metis surj_pair)
  obtain p where rgb: "hr = S_OK" "cs_rgbSerialization (the cs') = (p, ipc_payload sample_reply)"
    using GetSerialization_fail_closed [OF run] GetSerialization_run(2) [OF ipc run refl] ipc
    by (auto simp: authorises_def sample_reply_def pipe_env_def)
  have "p = 5"
    using GetSerialization_run(2) [OF ipc run refl] rgb by (simp add: authorises_def sample_reply_def pipe_env_def)
  with run rgb show ?thesis by (auto simp: sample_reply_def)
qed

section \<open>The module and the event sinks\<close>

text \<open>
  The module count only follows \<open>LockServer\<close>: objects do not keep the library loaded. After a
  successful \<open>CreateInstance\<close> the provider is alive and \<open>DllCanUnloadNow\<close> still answers \<open>S_OK\<close>.
\<close>

theorem unload_ignores_objects:
  assumes "run_state (CreateInstance w NULL riid (Some q)) l = ((hr, pv, Some (this, p)), l')"
  shows "RObj this \<in># held l' \<and> p_cRef p = 1 \<and> DllCanUnloadNow module_init = S_OK"
proof -
  have "handed_out hr pv (Some (this, p)) p_cRef l l'"
    using provider.create_view [where w = w and l = l and nm = "''PhoneKeyCredentialProvider''" and riid = riid and q = q] assms
    unfolding CreateInstance_def put_out_def option.map by simp
  then show ?thesis by (simp add: handed_out_def DllCanUnloadNow_def module_init_def)
qed

text \<open>
  The event sink of the tile and of the provider: a matched \<open>Advise\<close> and \<open>UnAdvise\<close> leave no
  reference behind; a second \<open>Advise\<close> without \<open>UnAdvise\<close> loses the reference of the first.
\<close>

lemma advise_unadvise:
  assumes "run_state (Credential_Advise w h c) l = ((hr, c1), l1)" "run_state (Credential_UnAdvise w c1) l1 = ((hr', c2), l2)"
  shows "held l2 = held l \<and> (releases_ok l \<longrightarrow> releases_ok l2) \<and> c_pcpce c2 = NULL"
  using assms by (auto simp: Credential_Advise_def Credential_UnAdvise_def Let_def run_if split: if_splits)

lemma provider_advise_unadvise:
  assumes "run_state (Provider_Advise w h r p) l = ((hr, p1), l1)" "run_state (Provider_UnAdvise w p1) l1 = ((hr', p2), l2)"
  shows "held l2 = held l \<and> (releases_ok l \<longrightarrow> releases_ok l2) \<and> p_pcpe p2 = NULL"
  using assms by (auto simp: Provider_Advise_def Provider_UnAdvise_def Let_def run_if split: if_splits)

theorem advise_twice_leaks:
  assumes "g \<noteq> NULL" "run_state (Credential_Advise w g c) l = ((hr, c1), l1)"
    "run_state (Credential_Advise w h c1) l1 = ((hr', c2), l2)" "run_state (Credential_UnAdvise w c2) l2 = ((hr'', c3), l3)"
  shows "held l3 = held l + {#REvents g#}"
  using assms by (auto simp: Credential_Advise_def Credential_UnAdvise_def Let_def run_if split: if_splits)

lemma DllRegisterServer_neutral: "resource_neutral (DllRegisterServer w)"
  unfolding DllRegisterServer_def by (rule spends_neutral) (auto intro!: spends_return spends_sys)

text \<open>
  The answers of the provider's enumeration agree: it announces one field and one tile, with a
  default that is in range and no automatic logon, and exactly the announced indices can be
  fetched (when memory is there); it is offered for logon and unlock only.
\<close>

theorem enumeration_consistent:
  "(\<exists>n. GetFieldDescriptorCount (Some a) = (S_OK, Some n)
      \<and> (\<forall>w cb i q l. fst (fst (run_state (GetFieldDescriptorAt w cb i (Some q)) l)) \<noteq> E_INVALIDARG \<longleftrightarrow> i < n))
   \<and> (\<exists>n d. GetCredentialCount (Some a) (Some b) (Some auto) = (S_OK, Some n, Some d, Some False) \<and> d < n
      \<and> (\<forall>w i q l. fst (fst (run_state (GetCredentialAt w i (Some q)) l)) \<noteq> E_INVALIDARG \<longleftrightarrow> i < n))
   \<and> (fst (SetUsageScenario cpus flags p) = S_OK \<longleftrightarrow> cpus \<in> {CPUS_LOGON, CPUS_UNLOCK_WORKSTATION})
   \<and> snd (SetSelected (Some auto)) = Some False"
proof (intro conjI)
  have "fst (fst (run_state (GetFieldDescriptorAt w cb i (Some q)) l)) \<noteq> E_INVALIDARG \<longleftrightarrow> i < 1" for w cb i q l
    by (auto simp: GetFieldDescriptorAt_def dup_string_def Let_def run_if)
  then show "\<exists>n. GetFieldDescriptorCount (Some a) = (S_OK, Some n)
      \<and> (\<forall>w cb i q l. fst (fst (run_state (GetFieldDescriptorAt w cb i (Some q)) l)) \<noteq> E_INVALIDARG \<longleftrightarrow> i < n)"
    by (auto simp: GetFieldDescriptorCount_def)
  have "fst (fst (run_state (GetCredentialAt w i (Some q)) l)) \<noteq> E_INVALIDARG \<longleftrightarrow> i < 1" for w i q l
    by (auto simp: GetCredentialAt_def Credential_QueryInterface_def Credential_Release_def Let_def run_if)
  then show "\<exists>n d. GetCredentialCount (Some a) (Some b) (Some auto) = (S_OK, Some n, Some d, Some False) \<and> d < n
      \<and> (\<forall>w i q l. fst (fst (run_state (GetCredentialAt w i (Some q)) l)) \<noteq> E_INVALIDARG \<longleftrightarrow> i < n)"
    by (auto simp: GetCredentialCount_def)
qed (auto simp: SetUsageScenario_def SetSelected_def put_out_def split: usage_scenario.splits)

end
