(* ===== verification/Logon.thy ===== *)
theory Logon
  imports Credential_Provider
begin

text \<open>
  The credential provider and the pipe server together: a call of
  \<open>PhoneKeyCredential::GetSerialization\<close> in Winlogon's process (\<open>PhoneKeyCredential.cpp\<close>) and the turn of
  \<open>NamedPipeServer::ServerWorker\<close> that serves it in the agent's (\<open>NamedPipeIpc.cpp\<close>), each with the
  system calls of its own process, connected by what the pipe carries.
\<close>

lemma put_text_pipes:
  "\<exists>t' new. run_state (put_text w p s) l = (t', l @ new) \<and> pipe_written new = [] \<and> pipe_read new = []"
  by (cases p) (auto simp: put_text_def dup_string_def)

text \<open>After the exchange with the agent \<open>GetSerialization\<close> leaves the pipe alone.\<close>

lemma GetSerialization_pipes:
  assumes ipc: "run_state (SendIpcRequest w unlock_request (u\<lparr>ipc_payload := []\<rparr>) 5000) l = ((ipcOk, resp), l1)"
    and run: "run_state (GetSerialization w u (Some g) (Some cs) text icon) l = (r, l')"
  shows "\<exists>new. l' = l1 @ new \<and> pipe_written new = [] \<and> pipe_read new = []"
proof -
  let ?c = "Com (CoTaskMemAlloc (length (ipc_payload resp)))"
  obtain b where b: "b = w l1 ?c" by blast
  obtain t1 new1 where t1: "run_state (put_text w text ''PhoneKey Biometric Authentication Failed or Timed Out'') l1 = (t1, l1 @ new1)"
      "pipe_written new1 = []" "pipe_read new1 = []" using put_text_pipes by metis
  obtain t2 new2 where t2: "run_state (put_text w text ''PhoneKey Biometric Unlock Authorized'') (l1 @ [(?c, b)]) = (t2, (l1 @ [(?c, b)]) @ new2)"
      "pipe_written new2 = []" "pipe_read new2 = []" using put_text_pipes by metis
  have "l' = l1 @ new1 \<or> l' = l1 @ [(?c, b)] \<or> l' = l1 @ (?c, b) # new2"
    using run t1(1) t2(1) unfolding GetSerialization_def Let_def option.case prod.case
    by (auto simp: ipc run_if simp flip: b split: if_splits)
  with t1 t2 show ?thesis by auto
qed

text \<open>
  C11. The logon relays the agent's word, and only that. When the pipe delivers to each end what the
  other wrote, the handler of the server is asked exactly \<open>REQ_UNLOCK\<close> with an empty payload, and
  Winlogon gets a credential only if the handler answered status 0 with a nonempty payload: the
  credential is then that payload, byte for byte and with its length, as it came over the pipe: the
  provider decrypts nothing, although \<open>docs/credential_provider_spec.md\<close> has the agent answer with a
  DPAPI-encrypted payload that is decrypted here. Otherwise the credential structure is as Winlogon
  passed it. Conversely such an answer, once it has reached the client, is handed on unless memory is
  short.
\<close>

theorem logon_relays_agent:
  assumes handler: "plain_handler h"
    and client: "run_state (GetSerialization wc u (Some g) (Some cs) text icon) lc = ((hr, g', cs', text', icon'), lc @ cnew)"
    and server: "run_state (serve_request ws p (Some h)) ls = ((), ls @ snew)"
    and delivers: "pipe_read snew = pipe_written cnew" "pipe_read cnew = pipe_written snew"
    and r: "r = fst (run_state (h \<lparr>ipc_type = REQ_UNLOCK, ipc_statusCode = 0, ipc_payload = []\<rparr>)
      (ls @ [(Pipe (PipeRead p IPC_MAX_BUFFER_SIZE), ws ls (Pipe (PipeRead p IPC_MAX_BUFFER_SIZE)))]))"
  shows "(if hr = S_OK \<and> g' = Some CPGSR_RETURN_CREDENTIAL_FINISHED
      then ipc_statusCode r = 0 \<and> ipc_payload r \<noteq> [] \<and> snd (cs_rgbSerialization (the cs')) = ipc_payload r
        \<and> unat (cs_cbSerialization (the cs')) = length (ipc_payload r)
      else cs' = Some cs)
    \<and> (fst (fst (run_state (SendIpcRequest wc \<lparr>ipc_type = REQ_UNLOCK, ipc_statusCode = 0, ipc_payload = []\<rparr>
          (u\<lparr>ipc_payload := []\<rparr>) 5000) lc)) \<and> ipc_statusCode r = 0 \<and> ipc_payload r \<noteq> [] \<and> hr = S_OK
        \<longrightarrow> g' = Some CPGSR_RETURN_CREDENTIAL_FINISHED)"
proof -
  obtain ipcOk resp l1 where ipc: "run_state (SendIpcRequest wc unlock_request (u\<lparr>ipc_payload := []\<rparr>) 5000) lc = ((ipcOk, resp), l1)"
    by (metis surj_pair)
  obtain b where b: "b = wc l1 (Com (CoTaskMemAlloc (length (ipc_payload resp))))" by blast
  note view = GetSerialization_run(2) [OF ipc client b]
  have agent: "resp = (if ipc_payload r = [] then r\<lparr>ipc_payload := []\<rparr> else r)" if ipcOk
  proof -
    note ipc = ipc [unfolded eqTrueI [OF that]]
    obtain c1 where c1: "l1 = lc @ c1" using SendIpcRequest_true [OF ipc] by metis
    obtain c2 where "lc @ cnew = l1 @ c2" "pipe_written c2 = []" "pipe_read c2 = []"
      using GetSerialization_pipes [OF ipc client] by blast
    with c1 have "pipe_written cnew = pipe_written c1" "pipe_read cnew = pipe_read c1"
      by (auto simp: pipe_written_append pipe_read_append)
    with ipc_exchange [OF _ handler ipc [unfolded c1] server _ _ refl] delivers r show ?thesis
      by (simp add: IPC_MAX_BUFFER_SIZE_def Let_def split: if_splits)
  qed
  show ?thesis
  proof (cases "authorises ipcOk resp \<and> a_handle b \<noteq> NULL")
    case True
    then have ok: ipcOk "ipc_payload resp \<noteq> []" "ipc_statusCode resp = 0" by (auto simp: authorises_def)
    with agent have "resp = r" by (auto split: if_splits)
    moreover have "length (ipc_payload resp) \<le> 4092"
      using SendIpcRequest_payload [of wc unlock_request u 5000 lc resp l1] ipc ok by simp
    ultimately show ?thesis using True view ok by (auto simp: unat_of_nat)
  next
    case False
    with view have "cs' = Some cs" "hr = S_OK \<longrightarrow> g' = Some CPGSR_NO_CREDENTIAL_FINISHED \<and> \<not> authorises ipcOk resp"
      by (auto split: if_splits)
    with agent ipc show ?thesis by (auto simp: authorises_def split: if_splits)
  qed
qed

theorem logon_relays_agent_witness:
  "\<exists>g' cs' text' icon' l'. run_state (GetSerialization (pipe_env (ipc_encode sample_reply)) sample_request
       (Some CPGSR_NO_CREDENTIAL_NOT_FINISHED) (Some blank_serialization) None None) [] = ((S_OK, g', cs', text', icon'), l')
     \<and> snd (cs_rgbSerialization (the cs')) = ipc_payload sample_reply"
proof -
  let ?wc = "pipe_env (ipc_encode sample_reply)" and ?ws = "pipe_env (ipc_encode sample_request)"
  let ?h = "\<lambda>_ :: IpcPacket. State_Monad.return sample_reply :: (os_log, IpcPacket) state"
  have req: "unlock_request = sample_request" "sample_request\<lparr>ipc_payload := []\<rparr> = sample_request" by (simp_all add: sample_request_def)
  obtain l1 where ipc: "run_state (SendIpcRequest ?wc unlock_request (sample_request\<lparr>ipc_payload := []\<rparr>) 5000) [] = ((True, sample_reply), l1)"
    using send_sample by (metis prod.collapse)
  obtain hr g' cs' text' icon' cnew where run: "run_state (GetSerialization ?wc sample_request
      (Some CPGSR_NO_CREDENTIAL_NOT_FINISHED) (Some blank_serialization) None None) [] = ((hr, g', cs', text', icon'), [] @ cnew)"
    by (metis surj_pair append_Nil)
  have fin: "hr = S_OK" "g' = Some CPGSR_RETURN_CREDENTIAL_FINISHED"
    using GetSerialization_run(2) [OF ipc run refl] by (simp_all add: authorises_def sample_reply_def pipe_env_def)
  obtain snew where s: "run_state (serve_request ?ws 5 (Some ?h)) [] = ((), [] @ snew)" by (metis surj_pair old.unit.exhaust append_Nil)
  from sample_client [OF ipc [unfolded req]] GetSerialization_pipes [OF ipc run]
  have "pipe_written cnew = [ipc_encode sample_request]" "pipe_read cnew = [ipc_encode sample_reply]"
    by (auto simp: pipe_written_append pipe_read_append)
  with logon_relays_agent [OF sample_handler run s _ _ refl] sample_server [OF s [unfolded append_Nil]] fin run show ?thesis by auto
qed

end
