(* ===== verification/Ctap2_Bridge.thy ===== *)
theory Ctap2_Bridge
  imports Protocol Win_Api
begin

text \<open>
  \<open>windows/common/Ctap2Bridge.cpp\<close>: the WebAuthn side, which turns a \<open>GetAssertion\<close> request into a
  PhoneKey payload and builds the authenticator data. That CNG computes some function \<open>H\<close> as
  SHA-256 is a hypothesis of the theorem that speaks of the hash.
\<close>

record Ctap2GetAssertionRequest =
  q_relyingPartyId :: string
  q_clientDataHash :: "byte list"
  q_allowCredentialId :: "byte list"

record Ctap2GetAssertionResponse =
  r_status :: byte
  r_authenticatorData :: "byte list"
  r_signatureDer :: "byte list"
  r_userHandle :: "byte list"

definition bytes_of_string :: "string \<Rightarrow> byte list" where
  "bytes_of_string s = map of_char s"

text \<open>
  The status codes of \<open>BCryptHashData\<close> and \<open>BCryptFinishHash\<close> are ignored; the first 32 bytes are
  what the latter left in the zeroed buffer.
\<close>

definition BuildAuthenticatorData :: "env \<Rightarrow> string \<Rightarrow> u32 \<Rightarrow> bool \<Rightarrow> (os_log, byte list) state" where
  "BuildAuthenticatorData w relyingPartyId signCount userVerified = do {
     let authData = replicate 37 0;
     a \<leftarrow> cng w (BCryptOpenAlgorithmProvider ''BCRYPT_SHA256_ALGORITHM'' []);
     authData \<leftarrow> (if a_ok a
       then do {
         let hAlg = a_handle a;
         b \<leftarrow> cng w (BCryptCreateHash hAlg []);
         authData \<leftarrow> (if a_ok b
           then do {
             let hHash = a_handle b;
             _ \<leftarrow> cng w (BCryptHashData hHash (dword_blob (bytes_of_string relyingPartyId)));
             f \<leftarrow> cng w (BCryptFinishHash hHash 32);
             _ \<leftarrow> cng w (BCryptDestroyHash hHash);
             State_Monad.return (wr authData 0 (overwrite (take 32 authData) (a_bytes f)))
           }
           else State_Monad.return authData);
         _ \<leftarrow> cng w (BCryptCloseAlgorithmProvider hAlg);
         State_Monad.return authData
       }
       else State_Monad.return authData);
     let flags = (0x01 :: byte);
     let flags = (if userVerified then flags OR 0x04 else flags);
     let authData = wr authData 32 [flags];
     let authData = wr authData 33 (put_be32 signCount);
     State_Monad.return authData
   }"

definition TranslateToPhoneKeyPayload ::
    "Ctap2GetAssertionRequest \<Rightarrow> byte list \<Rightarrow> byte list \<Rightarrow> byte list \<Rightarrow> u64 \<Rightarrow> AuthPayload" where
  "TranslateToPhoneKeyPayload req deviceId sessionId pcId expirationMs =
     AuthPayload_init\<lparr>p_protocolVersion := CURRENT_PROTOCOL_VERSION, p_algorithmId := ALGORITHM_ECDSA_P256_SHA256,
       p_deviceId := deviceId, p_sessionId := sessionId, p_pcId := pcId, p_challenge := q_clientDataHash req,
       p_expirationTimestampMs := expirationMs\<rparr>"

definition FormatAssertionResponse :: "byte list \<Rightarrow> byte list \<Rightarrow> Ctap2GetAssertionResponse" where
  "FormatAssertionResponse authData signatureDer =
     \<lparr>r_status = 0x00, r_authenticatorData = authData, r_signatureDer = signatureDer,
      r_userHandle = [0x01, 0x02, 0x03, 0x04]\<rparr>"

section \<open>Authenticator data\<close>

lemma wr_auth: "length h = 32 \<Longrightarrow> wr (wr (h @ replicate 5 0) 32 [x]) 33 (put_be32 v) = h @ [x] @ put_be32 v"
  using wr_next [of h 32 5 "[x]"] wr_next [of "h @ [x]" 33 4 "put_be32 v"] by simp

text \<open>The first 32 bytes, as the CNG calls left them.\<close>

lemma BuildAuthenticatorData_layout:
  "\<exists>h l'. run_state (BuildAuthenticatorData w rp n uv) l
      = (h @ [if uv then 0x05 else 0x01] @ put_be32 n, l') \<and> length h = 32
     \<and> (\<not> a_ok (w l (Cng (BCryptOpenAlgorithmProvider ''BCRYPT_SHA256_ALGORITHM'' []))) \<longrightarrow> h = replicate 32 0)"
proof -
  have start: "wr (replicate 37 0) 0 (overwrite (take 32 (replicate 37 0)) bs) = overwrite (replicate 32 0) bs @ replicate 5 0"
    for bs by (simp add: wr_def)
  have zero: "replicate 37 (0 :: byte) = replicate 32 0 @ replicate 5 0" by (simp flip: replicate_add)
  have flag: "(0x01 :: byte) OR 0x04 = 0x05" by simp
  show ?thesis
    unfolding BuildAuthenticatorData_def Let_def start by (auto simp: zero run_if wr_auth flag)
qed

lemma BuildAuthenticatorData_neutral: "resource_neutral (BuildAuthenticatorData w rp n uv)"
  unfolding BuildAuthenticatorData_def Let_def
  by (rule spends_neutral) (auto simp: bind_if intro!: spends_return spends_sys)

text \<open>CNG computes \<open>H\<close> as SHA-256: its calls succeed and a hash of one input is \<open>H\<close> of it.\<close>

definition sha_env :: "env \<Rightarrow> (byte list \<Rightarrow> byte list) \<Rightarrow> bool" where
  "sha_env w H \<longleftrightarrow> (\<forall>d. length (H d) = 32)
     \<and> (\<forall>l a b. a_ok (w l (Cng (BCryptOpenAlgorithmProvider a b)))) \<and> (\<forall>l h k. a_ok (w l (Cng (BCryptCreateHash h k))))
     \<and> (\<forall>l alg x h d y. a_bytes (w (l @ [(Cng (BCryptCreateHash alg []), x), (Cng (BCryptHashData h d), y)])
          (Cng (BCryptFinishHash h 32))) = H d)"

text \<open>
  The authenticator data always has the 37 bytes that CTAP2 prescribes: 32 for the hash of the
  relying party, one flag byte (user present, and user verified when asked for), and the
  big-endian counter, which reads back exactly. The hash is SHA-256 of the identifier when CNG
  computes it; when the provider cannot be opened it is silently 32 zero bytes. Every CNG object
  is given back.
\<close>

theorem authenticator_data_layout:
  "\<exists>h flags. fst (run_state (BuildAuthenticatorData w rp n uv) l) = h @ [flags] @ put_be32 n \<and> length h = 32
     \<and> length (fst (run_state (BuildAuthenticatorData w rp n uv) l)) = 37
     \<and> dec_be32 (drop 33 (fst (run_state (BuildAuthenticatorData w rp n uv) l))) = n
     \<and> bit flags 0 \<and> (bit flags 2 \<longleftrightarrow> uv)
     \<and> (sha_env w H \<and> length rp < 2 ^ 32 \<longrightarrow> h = H (bytes_of_string rp))
     \<and> (\<not> a_ok (w l (Cng (BCryptOpenAlgorithmProvider ''BCRYPT_SHA256_ALGORITHM'' []))) \<longrightarrow> h = replicate 32 0)
     \<and> resource_neutral (BuildAuthenticatorData w rp n uv)"
proof -
  let ?flags = "if uv then 0x05 else 0x01 :: byte"
  obtain h l' where r: "run_state (BuildAuthenticatorData w rp n uv) l = (h @ [?flags] @ put_be32 n, l')" "length h = 32"
      "\<not> a_ok (w l (Cng (BCryptOpenAlgorithmProvider ''BCRYPT_SHA256_ALGORITHM'' []))) \<longrightarrow> h = replicate 32 0"
    using BuildAuthenticatorData_layout by blast
  have flags: "bit ?flags 0" "bit ?flags 2 \<longleftrightarrow> uv" by simp_all
  have hash: "h = H (bytes_of_string rp)" if env: "sha_env w H" and len: "length rp < 2 ^ 32"
  proof -
    have blob: "dword_blob (bytes_of_string rp) = bytes_of_string rp"
      using len by (intro dword_blob_id) (simp add: bytes_of_string_def)
    obtain a where a: "a = w l (Cng (BCryptOpenAlgorithmProvider ''BCRYPT_SHA256_ALGORITHM'' []))" by blast
    let ?c1 = "(Cng (BCryptOpenAlgorithmProvider ''BCRYPT_SHA256_ALGORITHM'' []), a)"
    obtain b where b: "b = w (l @ [?c1]) (Cng (BCryptCreateHash (a_handle a) []))" by blast
    let ?c2 = "(Cng (BCryptCreateHash (a_handle a) []), b)" and ?d = "Cng (BCryptHashData (a_handle b) (bytes_of_string rp))"
    obtain y where y: "y = w (l @ [?c1, ?c2]) ?d" by blast
    obtain f where f: "f = w (l @ [?c1, ?c2, (?d, y)]) (Cng (BCryptFinishHash (a_handle b) 32))" by blast
    have "a_bytes (w ((l @ [?c1]) @ [?c2, (?d, y)]) (Cng (BCryptFinishHash (a_handle b) 32))) = H (bytes_of_string rp)"
      using env unfolding sha_env_def by blast
    then have fin: "a_bytes f = H (bytes_of_string rp)" by (simp add: f)
    have "length (H (bytes_of_string rp)) = 32" "a_ok a" "a_ok b" using env unfolding sha_env_def a b by blast+
    with fin have "take 32 (fst (run_state (BuildAuthenticatorData w rp n uv) l)) = H (bytes_of_string rp)"
      unfolding BuildAuthenticatorData_def Let_def
      by (simp add: run_if blob overwrite_full wr_def flip: a b y f)
    with r show ?thesis by simp
  qed
  show ?thesis
    using r flags hash BuildAuthenticatorData_neutral [of w rp n uv]
    by (intro exI [of _ h] exI [of _ ?flags]) (auto simp: get_put32)
qed

text \<open>An environment whose hash of \<open>d\<close> is the first 32 bytes of \<open>d\<close>, zero-padded.\<close>

definition sha_sample_env :: env where
  "sha_sample_env l c = \<lparr>a_ok = True, a_handle = 7, a_bytes =
     (case rev l of (Cng (BCryptHashData h d), _) # _ \<Rightarrow> fill 32 d | _ \<Rightarrow> []), a_num = 0\<rparr>"

lemma sha_env_sample: "sha_env sha_sample_env (fill 32)"
  by (simp add: sha_env_def sha_sample_env_def)

theorem authenticator_data_layout_witness:
  "\<exists>h flags. fst (run_state (BuildAuthenticatorData sha_sample_env ''example.com'' 258 True) []) = h @ [flags] @ put_be32 258
     \<and> h = fill 32 (bytes_of_string ''example.com'')"
  using authenticator_data_layout [of sha_sample_env "''example.com''" 258 True "[]" "fill 32"] sha_env_sample
  by fastforce

section \<open>The translated request\<close>

text \<open>
  C40. The translated request field by field, in the bytes that the phone signs and the agent parses.
  Whatever the request, with identifiers of the type's 16 bytes and a client data hash of 32, the
  serialization is the domain prefix, version \<open>0x0100\<close>, algorithm \<open>0x0001\<close>, the device, session and
  PC identifiers in this order, the client data hash as the challenge, and the expiry as eight
  big-endian bytes, 108 bytes in all; and the parser accepts it and returns each of the arguments in its own field.
\<close>

theorem translated_payload_current:
  assumes "length deviceId = UUID_SIZE" "length sessionId = UUID_SIZE" "length pcId = UUID_SIZE"
    and "length (q_clientDataHash req) = CHALLENGE_SIZE"
    and "p = TranslateToPhoneKeyPayload req deviceId sessionId pcId expirationMs"
  shows "Serialize p = DOMAIN_PREFIX @ [0x01, 0x00] @ [0x00, 0x01] @ deviceId @ sessionId @ pcId
      @ q_clientDataHash req @ put_be64 expirationMs
    \<and> length (Serialize p) = 108
    \<and> (\<exists>q. Deserialize (Some (Serialize p)) out = Some (True, q, SUCCESS)
      \<and> p_deviceId q = deviceId \<and> p_sessionId q = sessionId \<and> p_pcId q = pcId
      \<and> p_challenge q = q_clientDataHash req \<and> p_expirationTimestampMs q = expirationMs)"
proof -
  have cur: "AuthPayload_current p"
    using assms by (simp add: AuthPayload_current_def AuthPayload_wf_def TranslateToPhoneKeyPayload_def AuthPayload_init_def size_defs)
  then have wf: "AuthPayload_wf p" by (simp add: AuthPayload_current_def)
  have "Serialize p = DOMAIN_PREFIX @ [0x01, 0x00] @ [0x00, 0x01] @ deviceId @ sessionId @ pcId
      @ q_clientDataHash req @ put_be64 expirationMs"
    unfolding Serialize_layout [OF wf]
    by (simp add: assms(5) TranslateToPhoneKeyPayload_def AuthPayload_init_def put_be16_constants)
  moreover have "length (Serialize p) = 108" using length_Serialize [OF wf] by (simp add: size_defs)
  moreover have "p_deviceId p = deviceId" "p_sessionId p = sessionId" "p_pcId p = pcId"
    "p_challenge p = q_clientDataHash req" "p_expirationTimestampMs p = expirationMs"
    by (simp_all add: assms(5) TranslateToPhoneKeyPayload_def)
  ultimately show ?thesis using Deserialize_encoded [OF cur, of out] by blast
qed

theorem translated_payload_current_witness:
  "Serialize (TranslateToPhoneKeyPayload \<lparr>q_relyingPartyId = ''example.com'', q_clientDataHash = replicate 32 7,
     q_allowCredentialId = []\<rparr> (replicate 16 1) (replicate 16 2) (replicate 16 3) 5000)
   = DOMAIN_PREFIX @ [1, 0] @ [0, 1] @ replicate 16 1 @ replicate 16 2 @ replicate 16 3 @ replicate 32 7 @ put_be64 5000"
  using translated_payload_current [OF _ _ _ _ refl, THEN conjunct1, of "replicate 16 1" "replicate 16 2" "replicate 16 3"
      "\<lparr>q_relyingPartyId = ''example.com'', q_clientDataHash = replicate 32 7, q_allowCredentialId = []\<rparr>" 5000]
  by (simp add: size_defs)

end
