(* ===== verification/Java_Runtime.thy ===== *)
theory Java_Runtime
  imports Crc32
begin

text \<open>
  What the phone's sources (\<open>android/app/src/main/java/com/phonekey\<close>, Kotlin) use of the Java library:
  arrays, \<open>java.nio.ByteBuffer\<close> in big-endian order, \<open>java.util.zip.CRC32\<close> and the byte form of
  \<open>java.math.BigInteger\<close>. A Kotlin \<open>Byte\<close>, \<open>Short\<close>, \<open>Int\<close> and \<open>Long\<close> is a word of 8, 16, 32 and 64 bits,
  read with \<open>sint\<close> where the code compares it; \<open>None\<close> is an exception. An array has at most
  \<open>Integer.MAX_VALUE\<close> elements, and its \<open>size\<close> is the word \<open>jsize\<close>.
\<close>

section \<open>Arrays\<close>

definition MAX_ARRAY :: nat where "MAX_ARRAY = 2 ^ 31 - 1"

definition jsize :: "byte list \<Rightarrow> u32" where
  "jsize xs = of_nat (length xs)"

text \<open>\<open>ByteArray(n)\<close>: \<open>NegativeArraySizeException\<close> below zero.\<close>

definition new_array :: "u32 \<Rightarrow> byte list option" where
  "new_array n = (if sint n < 0 then None else Some (replicate (unat n) 0))"

text \<open>\<open>System.arraycopy(src, srcPos, dst, dstPos, n)\<close>, which checks both ranges first.\<close>

definition arraycopy :: "byte list \<Rightarrow> int \<Rightarrow> byte list \<Rightarrow> int \<Rightarrow> int \<Rightarrow> byte list option" where
  "arraycopy src srcPos dst dstPos n =
     (if srcPos < 0 \<or> dstPos < 0 \<or> n < 0 \<or> srcPos + n > int (length src) \<or> dstPos + n > int (length dst) then None
      else Some (take (nat dstPos) dst @ take (nat n) (drop (nat srcPos) src) @ drop (nat (dstPos + n)) dst))"

lemma sint_small: "n \<le> MAX_ARRAY \<Longrightarrow> sint (of_nat n :: u32) = int n"
  by (simp add: MAX_ARRAY_def signed_of_nat signed_take_bit_int_eq_self)

lemma unat_small_array: "n \<le> MAX_ARRAY \<Longrightarrow> unat (of_nat n :: u32) = n"
  by (simp add: MAX_ARRAY_def unat_of_nat take_bit_nat_eq_self)

lemma sint_jsize: "length xs \<le> MAX_ARRAY \<Longrightarrow> sint (jsize xs) = int (length xs)"
  by (simp add: jsize_def sint_small)

lemma new_array_of_nat: "n \<le> MAX_ARRAY \<Longrightarrow> new_array (of_nat n) = Some (replicate n 0)"
  by (simp add: new_array_def sint_small unat_small_array)

text \<open>The sign of a word in terms of its unsigned value.\<close>

lemma sint_cases:
  "sint (v :: u32) = (if unat v < 2 ^ 31 then int (unat v) else int (unat v) - 2 ^ 32)"
proof -
  have v: "sint v = (uint v + 2147483648) mod 4294967296 - 2147483648"
    using int_word_sint [of "uint v", where 'a = 32] by simp
  have bounds: "0 \<le> uint v" "uint v < 4294967296" using uint_lt2p [of v] by simp_all
  have split: "(u + 2147483648) mod 4294967296 - 2147483648 = (if u < 2147483648 then u else u - 4294967296)"
    if "0 \<le> u" "u < 4294967296" for u :: int
  proof (cases "u < 2147483648")
    case True
    with that show ?thesis by (simp add: mod_pos_pos_trivial)
  next
    case False
    have "(u + 2147483648) mod 4294967296 = (u - 2147483648) mod 4294967296"
      using mod_add_self2 [of "u - 2147483648" "4294967296 :: int"] by (simp add: algebra_simps)
    also have "\<dots> = u - 2147483648" using that False by (intro mod_pos_pos_trivial) simp_all
    finally show ?thesis using False by simp
  qed
  have "unat v < 2147483648 \<longleftrightarrow> uint v < 2147483648" using uint_nat [of v] by linarith
  with v split [OF bounds] show ?thesis by simp
qed

section \<open>ByteBuffer\<close>

text \<open>
  A buffer over an array, with the position of the next relative \<open>put\<close> or \<open>get\<close>; the limit is the end of
  the array. \<open>BufferOverflowException\<close> and \<open>BufferUnderflowException\<close> beyond it.
\<close>

record ByteBuffer =
  bb_array :: "byte list"
  bb_position :: nat

definition allocate :: "u32 \<Rightarrow> ByteBuffer option" where
  "allocate capacity = map_option (\<lambda>a. \<lparr>bb_array = a, bb_position = 0\<rparr>) (new_array capacity)"

definition wrap :: "byte list \<Rightarrow> ByteBuffer" where
  "wrap a = \<lparr>bb_array = a, bb_position = 0\<rparr>"

definition bb_put :: "byte list \<Rightarrow> ByteBuffer \<Rightarrow> ByteBuffer option" where
  "bb_put bs b = (if bb_position b + length bs > length (bb_array b) then None
     else Some \<lparr>bb_array = wr (bb_array b) (bb_position b) bs, bb_position = bb_position b + length bs\<rparr>)"

definition putShort :: "u16 \<Rightarrow> ByteBuffer \<Rightarrow> ByteBuffer option" where "putShort v = bb_put (put_be16 v)"
definition putInt :: "u32 \<Rightarrow> ByteBuffer \<Rightarrow> ByteBuffer option" where "putInt v = bb_put (put_be32 v)"
definition putLong :: "u64 \<Rightarrow> ByteBuffer \<Rightarrow> ByteBuffer option" where "putLong v = bb_put (put_be64 v)"

definition bb_get :: "nat \<Rightarrow> ByteBuffer \<Rightarrow> (byte list \<times> ByteBuffer) option" where
  "bb_get n b = (if bb_position b + n > length (bb_array b) then None
     else Some (take n (drop (bb_position b) (bb_array b)), b\<lparr>bb_position := bb_position b + n\<rparr>))"

definition getByte :: "ByteBuffer \<Rightarrow> (byte \<times> ByteBuffer) option" where
  "getByte b = map_option (apfst hd) (bb_get 1 b)"

definition getShort :: "ByteBuffer \<Rightarrow> (u16 \<times> ByteBuffer) option" where
  "getShort b = map_option (apfst dec_be16) (bb_get 2 b)"

definition getInt :: "ByteBuffer \<Rightarrow> (u32 \<times> ByteBuffer) option" where
  "getInt b = map_option (apfst dec_be32) (bb_get 4 b)"

definition getLong :: "ByteBuffer \<Rightarrow> (u64 \<times> ByteBuffer) option" where
  "getLong b = map_option (apfst get_be64) (bb_get 8 b)"

text \<open>A buffer that is being filled from the front, and one that is being read.\<close>

definition filling :: "nat \<Rightarrow> byte list \<Rightarrow> ByteBuffer" where
  "filling n a = \<lparr>bb_array = a @ replicate (n - length a) 0, bb_position = length a\<rparr>"

definition reading :: "byte list \<Rightarrow> nat \<Rightarrow> ByteBuffer" where
  "reading a i = \<lparr>bb_array = a, bb_position = i\<rparr>"

named_theorems buffer_simps "relative puts and gets inside the buffer"

lemma allocate_filling [buffer_simps]: "n \<le> MAX_ARRAY \<Longrightarrow> allocate (of_nat n) = Some (filling n [])"
  by (simp add: allocate_def new_array_of_nat filling_def)

lemma wrap_reading [buffer_simps]: "wrap a = reading a 0"
  by (simp add: wrap_def reading_def)

lemma put_filling [buffer_simps]: "length a + length bs \<le> n \<Longrightarrow> bb_put bs (filling n a) = Some (filling n (a @ bs))"
  by (simp add: bb_put_def filling_def wr_next del: append_assoc)

lemma array_filling [buffer_simps]: "length a = n \<Longrightarrow> bb_array (filling n a) = a"
  by (simp add: filling_def)

lemma get_reading [buffer_simps]: "i + n \<le> length a \<Longrightarrow> bb_get n (reading a i) = Some (take n (drop i a), reading a (i + n))"
  by (simp add: bb_get_def reading_def)

lemma getByte_reading [buffer_simps]: "i < length a \<Longrightarrow> getByte (reading a i) = Some (a ! i, reading a (i + 1))"
  by (simp add: getByte_def buffer_simps hd_drop_conv_nth)

lemma getShort_reading [buffer_simps]:
  "i + 2 \<le> length a \<Longrightarrow> getShort (reading a i) = Some (dec_be16 (take 2 (drop i a)), reading a (i + 2))"
  by (simp add: getShort_def buffer_simps)

lemma getInt_reading [buffer_simps]:
  "i + 4 \<le> length a \<Longrightarrow> getInt (reading a i) = Some (dec_be32 (take 4 (drop i a)), reading a (i + 4))"
  by (simp add: getInt_def buffer_simps)

lemma getLong_reading [buffer_simps]:
  "i + 8 \<le> length a \<Longrightarrow> getLong (reading a i) = Some (get_be64 (take 8 (drop i a)), reading a (i + 8))"
  by (simp add: getLong_def buffer_simps)

section \<open>CRC32\<close>

text \<open>
  \<open>crc.update(data, 0, length)\<close> on a new object and then \<open>crc.value\<close>: the checksum of the first \<open>length\<close>
  bytes as a non-negative \<open>Long\<close>; an exception when the array has fewer. The library documents the
  CRC-32 of the ZIP file format, which is the one of IEEE 802.3.
\<close>

definition java_crc32 :: "byte list \<Rightarrow> u32 \<Rightarrow> u64 option" where
  "java_crc32 data n = (if sint n < 0 \<or> sint n > int (length data) then None
     else Some (ucast (ieee_crc32 (take (unat n) data))))"

lemma java_crc32_in:
  assumes "n \<le> length data" "n \<le> MAX_ARRAY"
  shows "map_option ucast (java_crc32 data (of_nat n)) = Some (CalculateCrc32 (Some (take n data)))"
proof -
  have "(ucast (ucast c :: u64) :: u32) = c" for c by (rule bit_word_eqI) (simp add: bit_simps)
  with assms show ?thesis by (simp add: java_crc32_def sint_small unat_small_array CalculateCrc32_ieee)
qed

end
