(* ===== verification/Phone_Frames.thy ===== *)
theory Phone_Frames
  imports Java_Runtime Frame_Protocol
begin

text \<open>
  The phone's half of the wire format: \<open>transport/ITransport.kt\<close> and \<open>transport/FrameProtocol.kt\<close> of the
  Android application. The two programs were written separately; here the phone's codec is compared
  with the one of \<open>windows/common/FrameProtocol.cpp\<close>. The Kotlin \<open>TransportFrame\<close> has the same fields at the
  same widths as the C++ one, so both use the record \<open>TransportFrame\<close>, and the enum the same codes.
\<close>

section \<open>Frames\<close>

definition message_types :: "TransportMessageType list" where
  "message_types = [PAIR_REQ, PAIR_RESP, UNLOCK_REQ, UNLOCK_RESP, ERROR_MSG]"

definition fromCode :: "byte \<Rightarrow> TransportMessageType" where
  "fromCode code = (case find (\<lambda>t. message_type_value t = code) message_types of Some t \<Rightarrow> t | None \<Rightarrow> ERROR_MSG)"

definition calculateCrc32 :: "byte list \<Rightarrow> u32 \<Rightarrow> u64 option" where
  "calculateCrc32 data n = java_crc32 data n"

definition serializeFrame :: "TransportFrame \<Rightarrow> byte list option" where
  "serializeFrame frame = do {
     let payloadLen = jsize (f_payload frame);
     let totalLen = 14 + payloadLen + 4;
     buffer \<leftarrow> allocate totalLen;
     buffer \<leftarrow> putInt FRAME_MAGIC buffer;
     buffer \<leftarrow> putInt payloadLen buffer;
     buffer \<leftarrow> bb_put [message_type_value (f_messageType frame)] buffer;
     buffer \<leftarrow> bb_put [f_flags frame] buffer;
     buffer \<leftarrow> putInt (f_sequenceNumber frame) buffer;
     buffer \<leftarrow> (if sint payloadLen > 0 then bb_put (f_payload frame) buffer else Some buffer);
     crcVal \<leftarrow> map_option ucast (calculateCrc32 (bb_array buffer) (14 + payloadLen));
     buffer \<leftarrow> putInt crcVal buffer;
     Some (bb_array buffer)
   }"

text \<open>The outer \<open>None\<close> is an exception, the inner one the \<open>null\<close> the function returns for a frame it refuses.\<close>

definition deserializeFrame :: "byte list \<Rightarrow> TransportFrame option option" where
  "deserializeFrame data =
     (if sint (jsize data) < 18 then Some None
      else do {
        let buffer = wrap data;
        (magic, buffer) \<leftarrow> getInt buffer;
        if magic \<noteq> FRAME_MAGIC then Some None
        else do {
          (payloadLen, buffer) \<leftarrow> getInt buffer;
          if sint payloadLen < 0 \<or> sint payloadLen > int MAX_PAYLOAD_SIZE then Some None
          else if sint (jsize data) < sint (14 + payloadLen + 4) then Some None
          else do {
            (messageTypeCode, buffer) \<leftarrow> getByte buffer;
            (flags, buffer) \<leftarrow> getByte buffer;
            (seqNum, buffer) \<leftarrow> getInt buffer;
            payload \<leftarrow> new_array payloadLen;
            (payload, buffer) \<leftarrow> (if sint payloadLen > 0 then bb_get (length payload) buffer else Some (payload, buffer));
            (expectedChecksum, buffer) \<leftarrow> getInt buffer;
            actualChecksum \<leftarrow> map_option ucast (calculateCrc32 data (14 + payloadLen));
            if actualChecksum \<noteq> expectedChecksum then Some None
            else Some (Some \<lparr>f_magic = magic, f_payloadLength = payloadLen, f_messageType = fromCode messageTypeCode,
              f_flags = flags, f_sequenceNumber = seqNum, f_payload = payload, f_checksum = actualChecksum\<rparr>)
          }}})"

section \<open>The phone writes what the PC writes\<close>

lemma fromCode_value: "fromCode b = (case message_type_of b of Some t \<Rightarrow> t | None \<Rightarrow> ERROR_MSG)"
  by (auto simp: fromCode_def message_types_def message_type_of_def)

text \<open>
  Below the size limit of an array the phone serializes every frame; it has no limit of 64 KB.
\<close>

lemma serializeFrame_layout:
  assumes "18 + length (f_payload f) \<le> MAX_ARRAY"
  shows "serializeFrame f = Some (frame_body f @ put_be32 (CalculateCrc32 (Some (frame_body f))))"
proof -
  obtain pl where pl: "f_payload f = pl" by blast
  let ?n = "length pl" and ?h = "put_be32 FRAME_MAGIC @ put_be32 (jsize pl)
     @ message_type_value (f_messageType f) # f_flags f # put_be32 (f_sequenceNumber f)"
  have small: "18 + ?n \<le> MAX_ARRAY" "14 + ?n \<le> MAX_ARRAY" "?n \<le> MAX_ARRAY" using assms pl by auto
  have alloc: "allocate (18 + jsize pl) = Some (filling (18 + ?n) [])"
    using allocate_filling [OF small(1)] by (simp add: jsize_def)
  have payload: "(if 0 < sint (jsize pl) then bb_put pl (filling (18 + ?n) ?h) else Some (filling (18 + ?n) ?h))
      = Some (filling (18 + ?n) (frame_body f))"
    using small(3) by (simp add: sint_small buffer_simps frame_body_def pl jsize_def)
  have crc: "map_option ucast (calculateCrc32 (bb_array (filling (18 + ?n) (frame_body f))) (14 + jsize pl))
      = Some (CalculateCrc32 (Some (frame_body f)))"
    using java_crc32_in [of "14 + ?n" "bb_array (filling (18 + ?n) (frame_body f))"] small pl
    by (simp add: calculateCrc32_def jsize_def filling_def)
  show ?thesis
    unfolding serializeFrame_def pl
    by (simp add: Let_def alloc payload crc buffer_simps putInt_def pl split del: if_split)
qed

section \<open>The phone reads what the PC reads\<close>

lemma total_length:
  fixes plen :: u32
  assumes "0 \<le> sint plen" "sint plen \<le> int MAX_PAYLOAD_SIZE"
  shows "sint plen = int (unat plen)" "sint (14 + plen + 4) = int (18 + unat plen)" "14 + plen = of_nat (14 + unat plen)"
    "unat plen \<le> MAX_PAYLOAD_SIZE" "18 + unat plen \<le> MAX_ARRAY"
proof -
  show s: "sint plen = int (unat plen)" using assms(1) sint_cases [of plen] uint_lt2p [of plen] by (auto split: if_splits)
  with assms(2) show m: "unat plen \<le> MAX_PAYLOAD_SIZE" by linarith
  then show a: "18 + unat plen \<le> MAX_ARRAY" by (simp add: MAX_PAYLOAD_SIZE_def MAX_ARRAY_def)
  have "14 + plen + 4 = of_nat (18 + unat plen)" by simp
  then show "sint (14 + plen + 4) = int (18 + unat plen)" using sint_small [OF a] by simp
  show "14 + plen = of_nat (14 + unat plen)" by simp
qed

lemma deserializeFrame_view:
  assumes "length data \<le> MAX_ARRAY" "18 \<le> length data"
  shows "deserializeFrame data = Some
    (if fr_magic data = FRAME_MAGIC \<and> fr_plen data \<le> MAX_PAYLOAD_SIZE \<and> 18 + fr_plen data \<le> length data
        \<and> CalculateCrc32 (Some (take (14 + fr_plen data) data)) = fr_crc data
     then Some \<lparr>f_magic = FRAME_MAGIC, f_payloadLength = of_nat (fr_plen data),
         f_messageType = fromCode (data ! 8), f_flags = data ! 9, f_sequenceNumber = dec_be32 (take 4 (drop 10 data)),
         f_payload = take (fr_plen data) (drop 14 data), f_checksum = fr_crc data\<rparr>
     else None)"
proof -
  obtain plen where plen: "dec_be32 (take 4 (drop 4 data)) = plen" by blast
  then have n: "fr_plen data = unat plen" by (simp add: fr_plen_def)
  have sz: "sint (jsize data) = int (length data)" using assms(1) by (rule sint_jsize)
  have refused: "deserializeFrame data = Some None" if "fr_magic data \<noteq> FRAME_MAGIC \<or> sint plen < 0
      \<or> sint plen > int MAX_PAYLOAD_SIZE \<or> int (length data) < sint (14 + plen + 4)"
    using assms sz that by (auto simp: deserializeFrame_def Let_def buffer_simps plen fr_magic_def)
  show ?thesis
  proof (cases "sint plen < 0 \<or> sint plen > int MAX_PAYLOAD_SIZE")
    case True
    have "\<not> unat plen \<le> MAX_PAYLOAD_SIZE"
    proof
      assume a: "unat plen \<le> MAX_PAYLOAD_SIZE"
      then have "sint plen = int (unat plen)" unfolding sint_cases by (simp add: MAX_PAYLOAD_SIZE_def)
      with a True show False by linarith
    qed
    moreover have "deserializeFrame data = Some None" using True by (intro refused) blast
    ultimately show ?thesis by (simp add: n)
  next
    case False
    then have "0 \<le> sint plen" "sint plen \<le> int MAX_PAYLOAD_SIZE" by auto
    note t = total_length [OF this]
    show ?thesis
    proof (cases "18 + unat plen \<le> length data")
      case True
      have arr: "new_array plen = Some (replicate (unat plen) 0)" by (simp add: new_array_def t)
      have crc: "map_option ucast (calculateCrc32 data (14 + plen)) = Some (CalculateCrc32 (Some (take (14 + unat plen) data)))"
        using java_crc32_in [of "14 + unat plen" data] True assms(1) by (simp add: calculateCrc32_def)
      have payload: "(if 0 < sint plen then bb_get (length (replicate (unat plen) (0 :: byte))) (reading data 14) else Some (replicate (unat plen) 0, reading data 14))
          = Some (take (unat plen) (drop 14 data), reading data (14 + unat plen))"
      proof (cases "unat plen = 0")
        case False
        moreover from False have "0 < sint plen" unfolding t(1) by linarith
        ultimately show ?thesis using True by (simp add: buffer_simps)
      qed (simp add: t(1))
      have inside: "\<not> sint (jsize data) < 18" "\<not> (sint plen < 0 \<or> int MAX_PAYLOAD_SIZE < sint plen)"
        "\<not> sint (jsize data) < sint (14 + plen + 4)" unfolding sz t(2) using True False assms(2) by linarith+
      have "deserializeFrame data = (if CalculateCrc32 (Some (take (14 + unat plen) data)) \<noteq> fr_crc data then Some None
          else Some (Some \<lparr>f_magic = FRAME_MAGIC, f_payloadLength = plen, f_messageType = fromCode (data ! 8),
            f_flags = data ! 9, f_sequenceNumber = dec_be32 (take 4 (drop 10 data)),
            f_payload = take (unat plen) (drop 14 data), f_checksum = CalculateCrc32 (Some (take (14 + unat plen) data))\<rparr>))"
        if "fr_magic data = FRAME_MAGIC"
        using True that inside unfolding deserializeFrame_def Let_def fr_crc_def n fr_magic_def
        by (simp add: buffer_simps plen arr payload crc del: of_nat_add split del: if_split)
      with True t(4) refused show ?thesis by (cases "fr_magic data = FRAME_MAGIC") (auto simp: n)
    next
      case False
      then have "int (length data) < sint (14 + plen + 4)" unfolding t(2) by linarith
      then have "deserializeFrame data = Some None" by (intro refused) blast
      with False show ?thesis by (simp add: n)
    qed
  qed
qed

lemma serializeFrame_is_SerializeFrame:
  "length (f_payload f) \<le> MAX_PAYLOAD_SIZE \<Longrightarrow> serializeFrame f = Some (SerializeFrame f)"
  using serializeFrame_layout [of f] SerializeFrame_layout [of f] by (simp add: MAX_PAYLOAD_SIZE_def MAX_ARRAY_def)

text \<open>
  The frame the phone makes of bytes whose message type is none of the five: every field as it
  stands in the buffer, and \<open>ERROR_MSG\<close> for the type.
\<close>

definition untyped_frame :: "byte list \<Rightarrow> TransportFrame" where
  "untyped_frame data = \<lparr>f_magic = FRAME_MAGIC, f_payloadLength = of_nat (fr_plen data), f_messageType = ERROR_MSG,
     f_flags = data ! 9, f_sequenceNumber = dec_be32 (take 4 (drop 10 data)),
     f_payload = take (fr_plen data) (drop 14 data), f_checksum = fr_crc data\<rparr>"

lemma deserializeFrame_agrees:
  assumes "length data \<le> MAX_ARRAY"
  shows "\<exists>ok g e. DeserializeFrame (Some data) out = Some (ok, g, e)
    \<and> deserializeFrame data = Some (if ok then Some g
        else if e = ''Unknown message type identifier'' then Some (untyped_frame data) else None)"
proof (cases "18 \<le> length data")
  case True
  show ?thesis unfolding deserializeFrame_view [OF assms True] DeserializeFrame_view [OF True]
    by (auto simp: fromCode_value untyped_frame_def split: option.splits)
next
  case False
  then have "deserializeFrame data = Some None" using sint_jsize [OF assms] by (simp add: deserializeFrame_def)
  with False show ?thesis by (auto simp: DeserializeFrame_short)
qed

text \<open>A frame of the PC at the front of what the phone has received.\<close>

lemma deserializeFrame_SerializeFrame:
  assumes "length (f_payload f) \<le> MAX_PAYLOAD_SIZE"
  shows "deserializeFrame (SerializeFrame f) = Some (Some (frame_norm f))"
proof -
  have "length (SerializeFrame f) \<le> MAX_ARRAY"
    using assms by (simp add: length_SerializeFrame MAX_PAYLOAD_SIZE_def MAX_ARRAY_def)
  from deserializeFrame_agrees [OF this, of TransportFrame_init] DeserializeFrame_SerializeFrame [OF assms, of "[]" TransportFrame_init]
  show ?thesis by auto
qed

text \<open>
  C21. The two codecs agree. The phone writes the bytes the PC writes. On every buffer the phone's
  parser returns and what it returns is determined by the PC's answer: the PC's frame where the PC
  accepts; nothing where the PC refuses for its size, magic, length or checksum; and where the PC refuses only
  because the message type is none of the five (the last of its checks), the frame with the fields
  of the buffer and the type \<open>ERROR_MSG\<close>.
\<close>

theorem phone_codec_agrees:
  assumes "length data \<le> MAX_ARRAY" "length (f_payload f) \<le> MAX_PAYLOAD_SIZE"
  shows "serializeFrame f = Some (SerializeFrame f)
    \<and> (\<exists>ok g e. DeserializeFrame (Some data) out = Some (ok, g, e)
      \<and> deserializeFrame data = Some (if ok then Some g
          else if e = ''Unknown message type identifier'' then Some (untyped_frame data) else None))"
  using serializeFrame_is_SerializeFrame [OF assms(2)] deserializeFrame_agrees [OF assms(1)] by blast

definition sample_frame :: TransportFrame where
  "sample_frame = TransportFrame_init\<lparr>f_messageType := UNLOCK_RESP, f_sequenceNumber := 7, f_payload := [1, 2, 3]\<rparr>"

theorem phone_codec_agrees_witness:
  "serializeFrame sample_frame = Some (SerializeFrame sample_frame)
     \<and> deserializeFrame (SerializeFrame sample_frame) = Some (Some (frame_norm sample_frame))"
proof -
  have small: "length (f_payload sample_frame) \<le> MAX_PAYLOAD_SIZE" by (simp add: sample_frame_def MAX_PAYLOAD_SIZE_def)
  then have "length (SerializeFrame sample_frame) \<le> MAX_ARRAY"
    by (simp add: length_SerializeFrame MAX_ARRAY_def MAX_PAYLOAD_SIZE_def)
  from phone_codec_agrees [OF this small, of TransportFrame_init]
    DeserializeFrame_SerializeFrame [OF small, of "[]" TransportFrame_init] show ?thesis by auto
qed

end
