(* ===== verification/Phone_Transport.thy ===== *)
theory Phone_Transport
  imports Phone_Frames Tcp_Transport
begin

text \<open>
  The phone's side of the connection: \<open>transport/TcpTransportClient.kt\<close> and \<open>transport/BleTransportHandler.kt\<close>.
  Calls \<open>listener?.f(...)\<close> are returned as listener events, in order; \<open>reaches\<close> keeps them when a listener
  is set. The socket calls are answered by arguments: what \<open>Socket(host, port)\<close>, \<open>read\<close> and \<open>write\<close> do, exceptions
  with their message included. The receiving loop can run forever; it is a partial function, and
  \<open>None\<close> means that it does not return.
\<close>

section \<open>Connecting, sending, closing\<close>

record TcpTransportClient =
  k_socket :: "handle option"
  k_inputStream :: "handle option"
  k_outputStream :: "handle option"
  k_listener :: bool
  k_isConnected :: bool
  k_sequenceCounter :: u32

definition TcpTransportClient_init :: TcpTransportClient where
  "TcpTransportClient_init = \<lparr>k_socket = None, k_inputStream = None, k_outputStream = None, k_listener = False,
     k_isConnected = False, k_sequenceCounter = 1\<rparr>"

datatype net_op = Opened handle | Wrote handle "byte list" | Closed handle

definition reaches :: "TcpTransportClient \<Rightarrow> listener_event list \<Rightarrow> listener_event list" where
  "reaches c evs = (if k_listener c then evs else [])"

definition setListener :: "TcpTransportClient \<Rightarrow> TcpTransportClient" where
  "setListener c = c\<lparr>k_listener := True\<rparr>"

text \<open>\<open>Socket.isConnected\<close> stays true for a socket that was ever connected, and this constructor connects.\<close>

definition isConnected :: "TcpTransportClient \<Rightarrow> bool" where
  "isConnected c \<longleftrightarrow> k_isConnected c \<and> k_socket c \<noteq> None"

definition close :: "TcpTransportClient \<Rightarrow> TcpTransportClient \<times> net_op list" where
  "close c = (c\<lparr>k_isConnected := False, k_socket := None, k_inputStream := None, k_outputStream := None\<rparr>,
     case k_socket c of Some s \<Rightarrow> [Closed s] | None \<Rightarrow> [])"

text \<open>
  \<open>opened\<close> is the new socket or the message of the exception; \<open>streams\<close> the message when one of the two
  streams cannot be had. In both cases the \<open>catch\<close> block closes what there is.
\<close>

definition connect ::
    "string + handle \<Rightarrow> string option \<Rightarrow> string \<Rightarrow> nat \<Rightarrow> TcpTransportClient
      \<Rightarrow> bool \<times> TcpTransportClient \<times> listener_event list \<times> net_op list" where
  "connect opened streams host port c =
     (let (c, l) = close c in
      case opened of
        Inl msg \<Rightarrow> let (c', l') = close c in (False, c', reaches c [OnError (''TCP Connect failed: '' @ msg)], l @ l')
      | Inr s \<Rightarrow>
          let c = c\<lparr>k_socket := Some s\<rparr>; l = l @ [Opened s] in
          (case streams of
             Some msg \<Rightarrow> let (c', l') = close c in (False, c', reaches c [OnError (''TCP Connect failed: '' @ msg)], l @ l')
           | None \<Rightarrow>
               let c = c\<lparr>k_inputStream := Some s, k_outputStream := Some s, k_isConnected := True\<rparr>
               in (True, c, reaches c [OnConnectionStateChanged True (host @ '':'' @ decimal port)], l)))"

text \<open>
  \<open>write\<close> and \<open>flush\<close> take the whole frame, or throw after some of its bytes. \<open>msg\<close> is the message of an
  exception of \<open>serializeFrame\<close>.
\<close>

definition phone_frame :: "TransportMessageType \<Rightarrow> byte list \<Rightarrow> u32 \<Rightarrow> TransportFrame" where
  "phone_frame messageType payload sequenceNumber =
     \<lparr>f_magic = FRAME_MAGIC, f_payloadLength = jsize payload, f_messageType = messageType, f_flags = 0,
      f_sequenceNumber = sequenceNumber, f_payload = payload, f_checksum = 0\<rparr>"

datatype write_answer = Written | WriteThrows nat string

definition sendFrame ::
    "write_answer \<Rightarrow> string \<Rightarrow> TransportMessageType \<Rightarrow> byte list \<Rightarrow> TcpTransportClient
      \<Rightarrow> bool \<times> TcpTransportClient \<times> listener_event list \<times> net_op list" where
  "sendFrame write msg messageType payload c =
     (if \<not> isConnected c then (False, c, [], [])
      else case k_outputStream c of
        None \<Rightarrow> (False, c, [], [])
      | Some out \<Rightarrow>
          let frame = phone_frame messageType payload (k_sequenceCounter c);
              c = c\<lparr>k_sequenceCounter := k_sequenceCounter c + 1\<rparr>
          in case serializeFrame frame of
               None \<Rightarrow> (False, c\<lparr>k_isConnected := False\<rparr>, reaches c [OnError (''Send frame failed: '' @ msg)], [])
             | Some serialized \<Rightarrow>
                 (case write of
                    Written \<Rightarrow> (True, c, [], [Wrote out serialized])
                  | WriteThrows n msg' \<Rightarrow> (False, c\<lparr>k_isConnected := False\<rparr>,
                      reaches c [OnError (''Send frame failed: '' @ msg')], [Wrote out (take n serialized)])))"

section \<open>Receiving\<close>

text \<open>
  The inner loop on the bytes received so far: the calls made, the bytes left, and whether an
  exception ends it. All lengths are 32-bit signed, and \<open>totalFrameLen\<close> is computed modulo \<open>2 ^ 32\<close>.
\<close>

partial_function (option) rx_loop :: "byte list \<Rightarrow> (listener_event list \<times> byte list \<times> bool) option" where
  "rx_loop rxBytes =
     (if sint (jsize rxBytes) < 18 then Some ([], rxBytes, False)
      else
        let magic = get_be32 (rxBytes ! 0) (rxBytes ! 1) (rxBytes ! 2) (rxBytes ! 3);
            payloadLen = get_be32 (rxBytes ! 4) (rxBytes ! 5) (rxBytes ! 6) (rxBytes ! 7) in
        if magic \<noteq> FRAME_MAGIC \<or> sint payloadLen > int MAX_PAYLOAD_SIZE
        then Some ([OnError ''Corrupted stream magic/length''], rxBytes, False)
        else
          let totalFrameLen = 14 + payloadLen + 4 in
          if sint (jsize rxBytes) < sint totalFrameLen then Some ([], rxBytes, False)
          else
            (case new_array totalFrameLen of
               None \<Rightarrow> Some ([], rxBytes, True)
             | Some frameData \<Rightarrow>
                 (case Option.bind (arraycopy rxBytes 0 frameData 0 (sint totalFrameLen)) deserializeFrame of
                    None \<Rightarrow> Some ([], rxBytes, True)
                  | Some frame \<Rightarrow> do {
                      (evs, rest, threw) \<leftarrow> rx_loop (drop (nat (sint totalFrameLen)) rxBytes);
                      Some ((case frame of Some f \<Rightarrow> OnFrameReceived f
                             | None \<Rightarrow> OnError ''CRC32 mismatch or frame deserialization error'') # evs, rest, threw)
                    })))"

datatype read_answer = Read int "byte list" | ReadThrows string

datatype loop_end = InRead | Ended

text \<open>
  The outer loop. Each element says what \<open>isConnected.get()\<close> gives (other threads clear it) and what \<open>read\<close>
  answers; an empty list means that the thread waits in \<open>read\<close>. \<open>msg\<close> is the message of an exception of
  the inner loop. The last event is the one of the \<open>finally\<close> block, which clears \<open>isConnected\<close>.
\<close>

fun receive :: "string \<Rightarrow> (bool \<times> read_answer) list \<Rightarrow> byte list \<Rightarrow> (listener_event list \<times> loop_end) option" where
  "receive msg [] rxBuffer = Some ([], InRead)"
| "receive msg ((connected, answer) # reads) rxBuffer =
     (if \<not> connected then Some ([OnConnectionStateChanged False ''Disconnected''], Ended)
      else case answer of
        ReadThrows m \<Rightarrow> Some ([OnError (''Receiver loop error: '' @ m), OnConnectionStateChanged False ''Disconnected''], Ended)
      | Read n buffer \<Rightarrow>
          if n \<le> 0 then Some ([OnConnectionStateChanged False ''Disconnected''], Ended)
          else do {
            (evs, rest, threw) \<leftarrow> rx_loop (rxBuffer @ take (nat n) buffer);
            if threw
            then Some (evs @ [OnError (''Receiver loop error: '' @ msg), OnConnectionStateChanged False ''Disconnected''], Ended)
            else do { (evs', e) \<leftarrow> receive msg reads rest; Some (evs @ evs', e) }
          })"

definition receiverLoop ::
    "string \<Rightarrow> (bool \<times> read_answer) list \<Rightarrow> TcpTransportClient \<Rightarrow> (listener_event list \<times> TcpTransportClient) option" where
  "receiverLoop msg reads c =
     (case k_inputStream c of
        None \<Rightarrow> Some ([], c)
      | Some inStream \<Rightarrow> map_option (\<lambda>(evs, e). (reaches c evs, if e = Ended then c\<lparr>k_isConnected := False\<rparr> else c))
          (receive msg reads []))"

section \<open>Bluetooth\<close>

record BleTransportHandler =
  e_listener :: bool
  e_isConnected :: bool

definition BleTransportHandler_init :: BleTransportHandler where
  "BleTransportHandler_init = \<lparr>e_listener = False, e_isConnected = False\<rparr>"

definition Ble_setListener :: "BleTransportHandler \<Rightarrow> BleTransportHandler" where
  "Ble_setListener b = b\<lparr>e_listener := True\<rparr>"

definition Ble_isConnected :: "BleTransportHandler \<Rightarrow> bool" where
  "Ble_isConnected b \<longleftrightarrow> e_isConnected b"

definition Ble_connect :: "string \<Rightarrow> BleTransportHandler \<Rightarrow> bool \<times> BleTransportHandler \<times> listener_event list" where
  "Ble_connect host b = (True, b\<lparr>e_isConnected := True\<rparr>,
     if e_listener b then [OnConnectionStateChanged True (''BLE:'' @ host)] else [])"

text \<open>The frame has number 1 and is thrown away; \<open>None\<close> is the exception of \<open>serializeFrame\<close>.\<close>

definition Ble_sendFrame :: "TransportMessageType \<Rightarrow> byte list \<Rightarrow> BleTransportHandler \<Rightarrow> bool option" where
  "Ble_sendFrame messageType payload b =
     (if \<not> e_isConnected b then Some False
      else map_option (\<lambda>serialized. serialized \<noteq> []) (serializeFrame (phone_frame messageType payload 1)))"

definition Ble_close :: "BleTransportHandler \<Rightarrow> BleTransportHandler \<times> listener_event list" where
  "Ble_close b = (b\<lparr>e_isConnected := False\<rparr>, if e_listener b then [OnConnectionStateChanged False ''BLE:Disconnected''] else [])"

section \<open>The receiving loop\<close>

definition rx_plen :: "byte list \<Rightarrow> u32" where "rx_plen rx = dec_be32 (take 4 (drop 4 rx))"
definition rx_total :: "byte list \<Rightarrow> int" where "rx_total rx = sint (14 + rx_plen rx + 4)"

definition rx_event :: "byte list \<Rightarrow> listener_event" where
  "rx_event data = (case deserializeFrame data of Some (Some f) \<Rightarrow> OnFrameReceived f
     | _ \<Rightarrow> OnError ''CRC32 mismatch or frame deserialization error'')"

definition rx_cons :: "listener_event \<Rightarrow> listener_event list \<times> byte list \<times> bool \<Rightarrow> listener_event list \<times> byte list \<times> bool" where
  "rx_cons ev r = (ev # fst r, snd r)"

lemma arraycopy_all: "n \<le> length src \<Longrightarrow> arraycopy src 0 (replicate n 0) 0 (int n) = Some (take n src)"
  by (simp add: arraycopy_def)

lemma unat_sint:
  assumes "0 \<le> sint (v :: u32)"
  shows "unat v = nat (sint v)"
proof -
  have "int (unat v) < 2 ^ 32" using uint_lt2p [of v] by simp
  with assms have "\<not> 2 ^ 31 \<le> unat v" using sint_cases [of v] by (auto split: if_splits)
  then show ?thesis using sint_cases [of v] by simp
qed

lemma rx_loop_view:
  assumes "length rx \<le> MAX_ARRAY"
  shows "rx_loop rx =
    (if length rx < 18 then Some ([], rx, False)
     else if fr_magic rx \<noteq> FRAME_MAGIC \<or> sint (rx_plen rx) > int MAX_PAYLOAD_SIZE
     then Some ([OnError ''Corrupted stream magic/length''], rx, False)
     else if int (length rx) < rx_total rx then Some ([], rx, False)
     else if rx_total rx < 0 then Some ([], rx, True)
     else map_option (rx_cons (rx_event (take (nat (rx_total rx)) rx))) (rx_loop (drop (nat (rx_total rx)) rx)))"
proof (cases "length rx < 18")
  case True
  with sint_jsize [OF assms] show ?thesis by (subst rx_loop.simps) simp
next
  case False
  then have words: "get_be32 (rx ! 0) (rx ! 1) (rx ! 2) (rx ! 3) = fr_magic rx"
    "get_be32 (rx ! 4) (rx ! 5) (rx ! 6) (rx ! 7) = rx_plen rx"
    by (simp_all add: fr_magic_def rx_plen_def dec_be32_def)
  obtain v where v: "14 + rx_plen rx + 4 = v" by blast
  have sz: "sint (jsize rx) = int (length rx)" using assms by (rule sint_jsize)
  have tot: "sint v = rx_total rx" unfolding rx_total_def v by (rule refl)
  have raw: "rx_loop rx = (if fr_magic rx \<noteq> FRAME_MAGIC \<or> sint (rx_plen rx) > int MAX_PAYLOAD_SIZE
     then Some ([OnError ''Corrupted stream magic/length''], rx, False)
     else if int (length rx) < rx_total rx then Some ([], rx, False)
     else case new_array v of
        None \<Rightarrow> Some ([], rx, True)
      | Some frameData \<Rightarrow>
          (case Option.bind (arraycopy rx 0 frameData 0 (rx_total rx)) deserializeFrame of
             None \<Rightarrow> Some ([], rx, True)
           | Some frame \<Rightarrow> do {
               (evs, rest, threw) \<leftarrow> rx_loop (drop (nat (rx_total rx)) rx);
               Some ((case frame of Some f \<Rightarrow> OnFrameReceived f
                      | None \<Rightarrow> OnError ''CRC32 mismatch or frame deserialization error'') # evs, rest, threw)
             }))"
    using False by (subst rx_loop.simps) (simp only: Let_def words v sz tot, simp)
  show ?thesis
  proof (cases "rx_total rx < 0")
    case True
    then have "new_array v = None" by (simp only: new_array_def tot if_True)
    with True False raw show ?thesis by simp
  next
    case nonneg: False
    then have arr: "new_array v = Some (replicate (nat (rx_total rx)) 0)"
      using unat_sint [of v] by (simp only: new_array_def tot) simp
    show ?thesis
    proof (cases "int (length rx) < rx_total rx")
      case inside: False
      have "length (take (nat (rx_total rx)) rx) \<le> MAX_ARRAY" using assms by simp
      from deserializeFrame_agrees [OF this] obtain fr where fr: "deserializeFrame (take (nat (rx_total rx)) rx) = Some fr" by blast
      then have copy: "Option.bind (arraycopy rx 0 (replicate (nat (rx_total rx)) 0) 0 (rx_total rx)) deserializeFrame = Some fr"
        using nonneg inside arraycopy_all [of "nat (rx_total rx)" rx] by simp
      have "rx_event (take (nat (rx_total rx)) rx) = (case fr of Some f \<Rightarrow> OnFrameReceived f
          | None \<Rightarrow> OnError ''CRC32 mismatch or frame deserialization error'')" by (simp add: rx_event_def fr split: option.split)
      with False nonneg inside show ?thesis
        unfolding raw arr option.case copy by (cases "rx_loop (drop (nat (rx_total rx)) rx)") (auto simp: rx_cons_def)
    qed (use False nonneg raw arr in simp)
  qed
qed

subsection \<open>Frames of the PC\<close>

text \<open>The bytes \<open>read\<close> has stored, for a connection that stays up.\<close>

fun read_bytes :: "(bool \<times> read_answer) list \<Rightarrow> byte list" where
  "read_bytes [] = []"
| "read_bytes ((connected, Read n buffer) # reads) = take (nat n) buffer @ read_bytes reads"
| "read_bytes ((connected, ReadThrows msg) # reads) = read_bytes reads"

fun flowing :: "bool \<times> read_answer \<Rightarrow> bool" where
  "flowing (connected, Read n buffer) \<longleftrightarrow> connected \<and> 0 < n"
| "flowing (connected, ReadThrows msg) \<longleftrightarrow> False"

lemma frame_header:
  assumes "length (f_payload f) \<le> MAX_PAYLOAD_SIZE" "x @ y = SerializeFrame f @ z" "8 \<le> length x"
  shows "fr_magic x = FRAME_MAGIC" "sint (rx_plen x) = int (length (f_payload f))" "rx_total x = int (18 + length (f_payload f))"
proof -
  note fields = SerializeFrame_fields [OF assms(1) refl, of z]
  have same: "take 4 x = take 4 (x @ y)" "take 4 (drop 4 x) = take 4 (drop 4 (x @ y))" using assms(3) by simp_all
  have small: "18 + length (f_payload f) \<le> MAX_ARRAY" "length (f_payload f) \<le> MAX_ARRAY"
    using assms(1) by (simp_all add: MAX_PAYLOAD_SIZE_def MAX_ARRAY_def)
  show "fr_magic x = FRAME_MAGIC" using fields(1) by (simp only: fr_magic_def same assms(2))
  have "unat (rx_plen x) = length (f_payload f)" using fields(2) by (simp only: fr_plen_def rx_plen_def same assms(2))
  then have "rx_plen x = of_nat (length (f_payload f))" by (metis of_nat_unat ucast_id)
  then have plen: "rx_plen x = of_nat (length (f_payload f))" "14 + rx_plen x + 4 = of_nat (18 + length (f_payload f))" by simp_all
  then show "sint (rx_plen x) = int (length (f_payload f))" "rx_total x = int (18 + length (f_payload f))"
    unfolding rx_total_def plen using small by (simp_all only: sint_small)
qed

definition short :: "byte list \<Rightarrow> TransportFrame list \<Rightarrow> bool" where
  "short rest fs \<longleftrightarrow> (\<forall>f fs'. fs = f # fs' \<longrightarrow> length rest < 18 + length (f_payload f))"

text \<open>
  A beginning of a stream of frames: the loop delivers the frames that are complete and keeps the
  rest, without an error.
\<close>

lemma rx_loop_prefix:
  assumes "\<forall>f \<in> set fs. length (f_payload f) \<le> MAX_PAYLOAD_SIZE" "x @ y = concat (map SerializeFrame fs)" "length x \<le> MAX_ARRAY"
  shows "\<exists>gs hs rest. fs = gs @ hs \<and> rx_loop x = Some (map (OnFrameReceived \<circ> frame_norm) gs, rest, False)
    \<and> rest @ y = concat (map SerializeFrame hs) \<and> short rest hs \<and> length rest \<le> length x"
  using assms
proof (induction fs arbitrary: x)
  case Nil
  then show ?case using rx_loop_view [of "[]"] by (simp add: short_def)
next
  case (Cons f fs)
  let ?n = "length (f_payload f)"
  have small: "?n \<le> MAX_PAYLOAD_SIZE" using Cons.prems(1) by simp
  have eq: "x @ y = SerializeFrame f @ concat (map SerializeFrame fs)" using Cons.prems(2) by simp
  show ?case
  proof (cases "length x < 18 + ?n")
    case True
    have "rx_loop x = Some ([], x, False)"
      using frame_header [OF small eq] small True rx_loop_view [OF Cons.prems(3)] by (cases "length x < 18") auto
    with Cons.prems(2) True show ?thesis by (intro exI [of _ "[]"] exI [of _ "f # fs"] exI [of _ x]) (auto simp: short_def)
  next
    case False
    then have len: "length (SerializeFrame f) = 18 + ?n" "18 \<le> length x" using small by (auto simp: length_SerializeFrame)
    from False len(1) eq have x: "take (18 + ?n) x = SerializeFrame f"
      by (metis append_eq_append_conv_if append_eq_conv_conj not_less take_append)
    have rest: "drop (18 + ?n) x @ y = concat (map SerializeFrame fs)"
    proof -
      have "SerializeFrame f @ (drop (18 + ?n) x @ y) = SerializeFrame f @ concat (map SerializeFrame fs)"
        using eq x by (metis append_assoc append_take_drop_id)
      then show ?thesis by simp
    qed
    have "\<forall>f \<in> set fs. length (f_payload f) \<le> MAX_PAYLOAD_SIZE" "length (drop (18 + ?n) x) \<le> MAX_ARRAY"
      using Cons.prems(1,3) by simp_all
    from Cons.IH [OF this(1) rest this(2)] obtain gs hs r where
      r: "fs = gs @ hs" "rx_loop (drop (18 + ?n) x) = Some (map (OnFrameReceived \<circ> frame_norm) gs, r, False)"
        "r @ y = concat (map SerializeFrame hs)" "short r hs" "length r \<le> length (drop (18 + ?n) x)" by blast
    note h = frame_header [OF small eq]
    have ev: "rx_event (SerializeFrame f) = OnFrameReceived (frame_norm f)"
      by (simp add: rx_event_def deserializeFrame_SerializeFrame [OF small])
    have total: "nat (rx_total x) = 18 + ?n" "\<not> int (length x) < rx_total x" "\<not> rx_total x < 0"
      "\<not> int MAX_PAYLOAD_SIZE < sint (rx_plen x)" "fr_magic x = FRAME_MAGIC"
      using h len(2) False small by simp_all
    have "rx_loop x = Some (map (OnFrameReceived \<circ> frame_norm) (f # gs), r, False)"
      using len(2) r(2) rx_loop_view [OF Cons.prems(3)] by (simp add: total x ev rx_cons_def)
    with r show ?thesis by (intro exI [of _ "f # gs"] exI [of _ hs] exI [of _ r]) auto
  qed
qed

lemma receive_frames:
  assumes "\<forall>f \<in> set fs. length (f_payload f) \<le> MAX_PAYLOAD_SIZE" "\<forall>r \<in> set reads. flowing r"
    and "rx @ read_bytes reads = concat (map SerializeFrame fs)" "length (rx @ read_bytes reads) \<le> MAX_ARRAY"
    and "short rx fs"
  shows "receive msg reads rx = Some (map (OnFrameReceived \<circ> frame_norm) fs, InRead)"
  using assms
proof (induction reads arbitrary: rx fs)
  case Nil
  have "fs = []" using Nil.prems(1,3,5) by (cases fs) (auto simp: short_def length_SerializeFrame)
  then show ?case by simp
next
  case (Cons r reads)
  from Cons.prems(2) obtain n buffer where r: "r = (True, Read n buffer)" and pos: "\<not> n \<le> 0"
    by (cases r rule: flowing.cases) auto
  let ?x = "rx @ take (nat n) buffer"
  have "length ?x \<le> MAX_ARRAY" using Cons.prems(4) by (simp add: r)
  moreover have "?x @ read_bytes reads = concat (map SerializeFrame fs)" using Cons.prems(3) by (simp add: r)
  ultimately obtain gs hs rest where
    x: "fs = gs @ hs" "rx_loop ?x = Some (map (OnFrameReceived \<circ> frame_norm) gs, rest, False)"
      "rest @ read_bytes reads = concat (map SerializeFrame hs)" "short rest hs" "length rest \<le> length ?x"
    using rx_loop_prefix [OF Cons.prems(1)] by blast
  with Cons.IH [of hs rest] Cons.prems have "receive msg reads rest = Some (map (OnFrameReceived \<circ> frame_norm) hs, InRead)"
    by (auto simp: r)
  with x pos show ?case by (simp add: r)
qed

lemma phone_delivers_frames:
  assumes "k_listener c" "k_inputStream c \<noteq> None" "\<forall>r \<in> set reads. flowing r"
    and "\<forall>f \<in> set fs. length (f_payload f) \<le> MAX_PAYLOAD_SIZE"
    and "read_bytes reads = concat (map SerializeFrame fs)" "length (read_bytes reads) \<le> MAX_ARRAY"
  shows "receiverLoop msg reads c = Some (map (OnFrameReceived \<circ> frame_norm) fs, c)"
proof -
  have "receive msg reads [] = Some (map (OnFrameReceived \<circ> frame_norm) fs, InRead)"
    by (rule receive_frames) (use assms in \<open>auto simp: short_def\<close>)
  with assms(1,2) show ?thesis by (auto simp: receiverLoop_def reaches_def)
qed

text \<open>
  C13. The PC's messages reach the phone. If the PC sends messages and every \<open>SendFrame\<close> answers true, and
  the bytes (less than 2 GB) arrive on a connection that stays up, cut by \<open>read\<close> in any way, then the phone's
  receiving loop comes back to \<open>read\<close> and calls \<open>onFrameReceived\<close> once for each message, in order, with its
  type, its payload and consecutive numbers, and reports no error.
\<close>

theorem pc_to_phone:
  assumes "send_counts w" "t_isConnected t" "t_clientSocket t \<noteq> INVALID_SOCKET"
    and "run_state (send_all w msgs t) l = ((True, t'), l')"
    and "k_listener c" "k_inputStream c \<noteq> None" "\<forall>r \<in> set reads. flowing r"
    and "read_bytes reads = sent_on (t_clientSocket t) (drop (length l) l')" "length (read_bytes reads) \<le> MAX_ARRAY"
  shows "receiverLoop msg reads c
    = Some (map (OnFrameReceived \<circ> frame_norm) (out_frames (t_sequenceCounter t) msgs), c)"
proof -
  obtain x where "l' = l @ x"
    and "sent_on (t_clientSocket t) x = concat (map SerializeFrame (out_frames (t_sequenceCounter t) msgs))"
    and "\<forall>f \<in> set (out_frames (t_sequenceCounter t) msgs). length (f_payload f) \<le> MAX_PAYLOAD_SIZE"
    using send_all_sent [OF assms(1-4)] by blast
  with phone_delivers_frames [OF assms(5-7)] assms(8,9) show ?thesis by simp
qed

subsection \<open>When the loop returns\<close>

text \<open>A header with the length field -18: a frame of 0 bytes, which is never taken off the buffer.\<close>

definition stuck :: "byte list \<Rightarrow> bool" where
  "stuck rx \<longleftrightarrow> 18 \<le> length rx \<and> fr_magic rx = FRAME_MAGIC \<and> rx_plen rx = - 18"

lemma sint_eq_0: "sint (v :: u32) = 0 \<longleftrightarrow> v = 0"
proof
  assume "sint v = 0"
  moreover have "of_int (sint v) = v" by simp
  ultimately show "v = 0" by simp
qed simp

lemma rx_total_0: "rx_total rx = 0 \<longleftrightarrow> rx_plen rx = - 18"
proof -
  have "rx_total rx = 0 \<longleftrightarrow> rx_plen rx + 18 = 0" unfolding rx_total_def sint_eq_0 by (simp add: add.commute)
  then show ?thesis by (simp only: eq_neg_iff_add_eq_0)
qed

text \<open>
  On such a header the loop reports the same error forever. A peer needs 18 bytes to bring the
  phone's receiver thread into it.
\<close>

lemma rx_loop_stuck:
  assumes "length rx \<le> MAX_ARRAY" "stuck rx"
  shows "rx_loop rx = None"
proof (rule ccontr)
  assume "rx_loop rx \<noteq> None"
  then obtain r where r: "rx_loop rx = Some r" by blast
  have "rx_total rx = 0" "sint (rx_plen rx) \<le> int MAX_PAYLOAD_SIZE" using assms(2) by (simp_all add: rx_total_0 stuck_def)
  with assms(2) have "rx_loop rx = map_option (rx_cons (rx_event [])) (rx_loop rx)"
    using rx_loop_view [OF assms(1)] by (simp add: stuck_def)
  then have "r = rx_cons (rx_event []) r" using r by simp
  then have "length (fst r) = Suc (length (fst r))" by (metis fst_conv length_Cons rx_cons_def)
  then show False by simp
qed

lemma rx_loop_cases:
  assumes "length rx \<le> MAX_ARRAY"
  obtains (stop) evs threw where "rx_loop rx = Some (evs, rx, threw)"
    | (again) ev where "18 \<le> length rx" "fr_magic rx = FRAME_MAGIC" "0 \<le> rx_total rx" "rx_total rx \<le> int (length rx)"
      "rx_loop rx = map_option (rx_cons ev) (rx_loop (drop (nat (rx_total rx)) rx))"
  using rx_loop_view [OF assms] by (auto split: if_splits)

lemma rx_loop_returns:
  assumes "length rx \<le> MAX_ARRAY" "\<forall>n. \<not> stuck (drop n rx)"
  shows "\<exists>evs k threw. rx_loop rx = Some (evs, drop k rx, threw)"
  using assms
proof (induction "length rx" arbitrary: rx rule: less_induct)
  case less
  from less.prems(1) show ?case
  proof (cases rule: rx_loop_cases)
    case (stop evs threw)
    then show ?thesis by (intro exI [of _ evs] exI [of _ 0]) simp
  next
    case (again ev)
    moreover have "rx_total rx \<noteq> 0" using again(1,2) less.prems(2) [rule_format, of 0] by (simp add: stuck_def rx_total_0)
    ultimately have "\<exists>evs k threw. rx_loop (drop (nat (rx_total rx)) rx) = Some (evs, drop k (drop (nat (rx_total rx)) rx), threw)"
      using less.prems by (intro less.hyps) auto
    with again(5) show ?thesis by (auto simp: rx_cons_def)
  qed
qed

lemma drop_drop_append: "\<exists>m. drop n (drop k x @ y) = drop m (x @ y)"
proof (cases "k \<le> length x")
  case True
  then have "drop k x @ y = drop k (x @ y)" by simp
  then show ?thesis by (metis drop_drop)
next
  case False
  then have "drop n (drop k x @ y) = drop (n + length x) (x @ y)" by simp
  then show ?thesis by blast
qed

lemma stuck_append: "stuck x \<Longrightarrow> stuck (x @ y)"
  by (auto simp: stuck_def fr_magic_def rx_plen_def)

lemma receive_returns:
  assumes "length (rx @ read_bytes reads) \<le> MAX_ARRAY" "\<forall>n. \<not> stuck (drop n (rx @ read_bytes reads))"
  shows "\<exists>r. receive msg reads rx = Some r"
  using assms
proof (induction reads arbitrary: rx)
  case (Cons r reads)
  show ?case
  proof (cases r rule: flowing.cases)
    case (1 connected n buffer)
    let ?x = "rx @ take (nat n) buffer"
    have whole: "rx @ read_bytes (r # reads) = ?x @ read_bytes reads" by (simp add: 1)
    have "length ?x \<le> MAX_ARRAY" using Cons.prems(1) unfolding whole by simp
    moreover have "\<forall>n. \<not> stuck (drop n ?x)"
      using Cons.prems(2) stuck_append [of "drop _ ?x" "drop (_ - length ?x) (read_bytes reads)"] unfolding whole drop_append by blast
    ultimately obtain evs k threw where x: "rx_loop ?x = Some (evs, drop k ?x, threw)" using rx_loop_returns by blast
    have "\<not> stuck (drop n (drop k ?x @ read_bytes reads))" for n
      using drop_drop_append [of n k ?x "read_bytes reads"] Cons.prems(2) unfolding whole by metis
    then have "\<exists>r. receive msg reads (drop k ?x) = Some r"
      using Cons.prems(1) unfolding whole by (intro Cons.IH) auto
    with x 1 show ?thesis by (auto split: if_splits)
  qed (use Cons in auto)
qed simp

text \<open>
  C33. The phone's receiver comes back to \<open>read\<close>, or ends, on every input in which no 18 bytes look like
  a header with the length field \<open>0xFFFFFFEE\<close>, whatever the bytes, the cuts, the exceptions and the moment at
  which another thread closes the connection.
\<close>

theorem phone_receiver_returns:
  assumes "length (read_bytes reads) \<le> MAX_ARRAY" "\<forall>n. \<not> stuck (drop n (read_bytes reads))"
  shows "\<exists>evs c'. receiverLoop msg reads c = Some (evs, c')"
  using receive_returns [of "[]" reads msg] assms by (auto simp: receiverLoop_def split: option.splits)

definition stuck_header :: "byte list" where
  "stuck_header = put_be32 FRAME_MAGIC @ put_be32 0xFFFFFFEE @ replicate 10 0"

lemma stuck_header: "stuck stuck_header" "length stuck_header = 18"
  by (simp_all add: stuck_def stuck_header_def fr_magic_def rx_plen_def get_put32)

text \<open>
  With that header it does not: after these 18 bytes the receiver thread never returns, never reads
  again and does not notice \<open>close\<close>, since the inner loop does not look at \<open>isConnected\<close>.
\<close>

theorem phone_receiver_hangs:
  assumes "k_inputStream c \<noteq> None"
  shows "receiverLoop msg ((True, Read 18 stuck_header) # reads) c = None"
  using assms rx_loop_stuck [of stuck_header] stuck_header by (auto simp: receiverLoop_def MAX_ARRAY_def)

text \<open>
  After bytes that do not begin with the magic number the phone never delivers a frame again: every
  \<open>read\<close> reports the same error, and the buffer keeps everything that arrives. (The PC skips to the next
  magic number.)
\<close>

theorem phone_never_resynchronises:
  assumes "18 \<le> length rx" "fr_magic rx \<noteq> FRAME_MAGIC" "\<forall>r \<in> set reads. flowing r"
    and "length (rx @ read_bytes reads) \<le> MAX_ARRAY"
  shows "receive msg reads rx = Some (replicate (length reads) (OnError ''Corrupted stream magic/length''), InRead)"
  using assms
proof (induction reads arbitrary: rx)
  case (Cons r reads)
  from Cons.prems(3) obtain n buffer where r: "r = (True, Read n buffer)" and pos: "\<not> n \<le> 0"
    by (cases r rule: flowing.cases) auto
  let ?x = "rx @ take (nat n) buffer"
  have x: "18 \<le> length ?x" "fr_magic ?x \<noteq> FRAME_MAGIC" "length ?x \<le> MAX_ARRAY" "length (?x @ read_bytes reads) \<le> MAX_ARRAY"
    using Cons.prems(1,2,4) by (auto simp: r fr_magic_def)
  then have "rx_loop ?x = Some ([OnError ''Corrupted stream magic/length''], ?x, False)" using rx_loop_view [OF x(3)] by auto
  with Cons.IH [OF x(1,2) _ x(4)] Cons.prems(3) pos show ?case by (simp add: r)
qed simp

section \<open>Sending\<close>

fun written :: "net_op list \<Rightarrow> byte list" where
  "written [] = []"
| "written (Wrote s bs # l) = bs @ written l"
| "written (_ # l) = written l"

lemma written_append [simp]: "written (l @ l') = written l @ written l'"
  by (induction l rule: written.induct) auto

text \<open>The frame of the phone and the frame of the PC for the same message have the same bytes.\<close>

lemma phone_frame_body: "frame_body (phone_frame ty payload seq) = frame_body (out_frame ty payload seq)"
  by (simp add: frame_body_def phone_frame_def out_frame_def TransportFrame_init_def)

lemma sendFrame_bytes:
  assumes "isConnected c" "k_outputStream c = Some out" "18 + length payload \<le> MAX_ARRAY"
    and "f = out_frame ty payload (k_sequenceCounter c)"
  shows "sendFrame Written msg ty payload c = (True, c\<lparr>k_sequenceCounter := k_sequenceCounter c + 1\<rparr>, [],
    [Wrote out (frame_body f @ put_be32 (CalculateCrc32 (Some (frame_body f))))])"
proof -
  have "frame_body (phone_frame ty payload (k_sequenceCounter c)) = frame_body f" by (simp add: assms(4) phone_frame_body)
  with serializeFrame_layout [of "phone_frame ty payload (k_sequenceCounter c)"] assms(1-3) show ?thesis
    by (simp add: sendFrame_def Let_def phone_frame_def)
qed

text \<open>A write that throws leaves a beginning of the same bytes on the stream and the connection marked as lost.\<close>

lemma sendFrame_throws:
  assumes "isConnected c" "k_outputStream c = Some out" "18 + length payload \<le> MAX_ARRAY"
    and "f = out_frame ty payload (k_sequenceCounter c)"
  shows "sendFrame (WriteThrows n why) msg ty payload c =
    (False, c\<lparr>k_sequenceCounter := k_sequenceCounter c + 1, k_isConnected := False\<rparr>,
     reaches c [OnError (''Send frame failed: '' @ why)],
     [Wrote out (take n (frame_body f @ put_be32 (CalculateCrc32 (Some (frame_body f)))))])"
proof -
  have "frame_body (phone_frame ty payload (k_sequenceCounter c)) = frame_body f" by (simp add: assms(4) phone_frame_body)
  with serializeFrame_layout [of "phone_frame ty payload (k_sequenceCounter c)"] assms(1-3) show ?thesis
    by (simp add: sendFrame_def Let_def phone_frame_def reaches_def)
qed

fun phone_send_all :: "(write_answer \<times> TransportMessageType \<times> byte list) list \<Rightarrow> TcpTransportClient
    \<Rightarrow> bool \<times> TcpTransportClient \<times> net_op list" where
  "phone_send_all [] c = (True, c, [])"
| "phone_send_all ((write, ty, payload) # msgs) c =
     (let (ok, c, evs, l) = sendFrame write [] ty payload c in
      if ok then let (ok, c, l') = phone_send_all msgs c in (ok, c, l @ l') else (False, c, l))"

lemma sendFrame_True:
  assumes "sendFrame write msg ty payload c = (True, c', evs, l)"
  shows "write = Written" "isConnected c" "k_outputStream c \<noteq> None"
  using assms by (auto simp: sendFrame_def Let_def split: if_splits option.splits write_answer.splits)

lemma phone_send_all_bytes:
  assumes "phone_send_all msgs c = (True, c', l)" "\<forall>(a, ty, payload) \<in> set msgs. length payload \<le> MAX_PAYLOAD_SIZE"
  shows "written l = concat (map SerializeFrame (out_frames (k_sequenceCounter c) (map snd msgs)))"
  using assms
proof (induction msgs arbitrary: c l)
  case (Cons m msgs)
  obtain a ty payload where m: "m = (a, ty, payload)" by (cases m)
  let ?f = "out_frame ty payload (k_sequenceCounter c)"
  have small: "length payload \<le> MAX_PAYLOAD_SIZE" "18 + length payload \<le> MAX_ARRAY"
    using Cons.prems(2) by (auto simp: m MAX_PAYLOAD_SIZE_def MAX_ARRAY_def)
  from Cons.prems(1) obtain c1 evs l1 where s: "sendFrame a [] ty payload c = (True, c1, evs, l1)"
    by (auto simp: m split: prod.splits if_splits)
  note sendFrame_True [OF s]
  with s sendFrame_bytes [OF _ _ small(2) refl, of c] SerializeFrame_layout [of ?f] small(1)
  have c1: "c1 = c\<lparr>k_sequenceCounter := k_sequenceCounter c + 1\<rparr>" "written l1 = SerializeFrame ?f" by auto
  from Cons.prems(1) s obtain l2 where "phone_send_all msgs c1 = (True, c', l2)" "l = l1 @ l2"
    by (auto simp: m split: prod.splits if_splits)
  with Cons.IH [of c1 l2] Cons.prems(2) c1 show ?case by (simp add: m)
qed simp

text \<open>
  C14. The phone's messages reach the PC. If the phone sends messages of at most 64 KB and every
  \<open>sendFrame\<close> answers true, and the bytes arrive in pieces of any size, then the PC's listener gets exactly
  these messages, once each and in order, numbered consecutively from the phone's counter.
\<close>

theorem phone_to_pc:
  assumes "phone_send_all msgs c = (True, c', l)" "\<forall>(a, ty, payload) \<in> set msgs. length payload \<le> MAX_PAYLOAD_SIZE"
    and "t_listener r" "t_isRunning r" "t_isConnected r" "\<forall>(n, buf) \<in> set recvs. 0 < n" "received recvs = written l"
  shows "ReceiverWorker deliver receiving lose_connection recvs [] (r, es)
    = Some (r, es @ map (OnFrameReceived \<circ> frame_norm) (out_frames (k_sequenceCounter c) (map snd msgs)))"
proof -
  have "length (f_payload f) \<le> MAX_PAYLOAD_SIZE" if "f \<in> set (out_frames seq (map snd msgs))" for f seq
    using assms(2) that by (induction msgs arbitrary: seq) auto
  then have "drain (received recvs) = Some (map (OnFrameReceived \<circ> frame_norm) (out_frames (k_sequenceCounter c) (map snd msgs)), [], False)"
    unfolding assms(7) phone_send_all_bytes [OF assms(1,2)] by (intro drain_frames) blast
  with tcp.worker_frames [of recvs "(r, es)"] assms(3-6) show ?thesis by (simp add: receiving_def fold_deliver)
qed

text \<open>
  The phone has no limit on what it sends: it answers true for a larger payload, and the PC gives up
  the connection.
\<close>

theorem phone_oversized_drops:
  assumes "isConnected c" "k_outputStream c = Some out" "MAX_PAYLOAD_SIZE < length payload" "18 + length payload \<le> MAX_ARRAY"
  shows "\<exists>c' l. sendFrame Written msg ty payload c = (True, c', [], l)
    \<and> drain (written l) = Some ([OnError oversize_error], written l, True)"
proof -
  let ?f = "out_frame ty payload (k_sequenceCounter c)"
  let ?b = "frame_body ?f @ put_be32 (CalculateCrc32 (Some (frame_body ?f)))"
  have "unat (of_nat (length payload) :: u32) = length payload" using assms(4) by (intro unat_small_array) simp
  then have "fr_magic ?b = FRAME_MAGIC" "fr_plen ?b = length payload" "\<not> length ?b < 18"
    by (simp_all add: fr_magic_def fr_plen_def frame_body_def get_put32)
  then have "drain ?b = Some ([OnError oversize_error], ?b, True)"
    using assms(3) by (subst drain_step) simp
  with sendFrame_bytes [OF assms(1,2,4) refl] show ?thesis by simp
qed

section \<open>Sockets\<close>

text \<open>The operations of the transport, in any order; \<open>PReceiver\<close> is a turn of the receiver thread.\<close>

datatype phone_op = PConnect "string + handle" "string option" string nat
  | PSend write_answer TransportMessageType "byte list" | PClose | PReceiver "(bool \<times> read_answer) list"

fun phone_step :: "phone_op \<Rightarrow> TcpTransportClient \<times> net_op list \<Rightarrow> TcpTransportClient \<times> net_op list" where
  "phone_step (PConnect opened streams host port) (c, l) =
     (let (ok, c, evs, l') = connect opened streams host port c in (c, l @ l'))"
| "phone_step (PSend write ty payload) (c, l) = (let (ok, c, evs, l') = sendFrame write [] ty payload c in (c, l @ l'))"
| "phone_step PClose (c, l) = (let (c, l') = close c in (c, l @ l'))"
| "phone_step (PReceiver reads) (c, l) = (case receiverLoop [] reads c of Some (evs, c) \<Rightarrow> (c, l) | None \<Rightarrow> (c, l))"

fun open_sockets :: "net_op list \<Rightarrow> handle multiset" where
  "open_sockets [] = {#}"
| "open_sockets (Opened s # l) = add_mset s (open_sockets l)"
| "open_sockets (_ # l) = open_sockets l"

fun closed_sockets :: "net_op list \<Rightarrow> handle multiset" where
  "closed_sockets [] = {#}"
| "closed_sockets (Closed s # l) = add_mset s (closed_sockets l)"
| "closed_sockets (_ # l) = closed_sockets l"

lemma sockets_append [simp]:
  "open_sockets (l @ l') = open_sockets l + open_sockets l'" "closed_sockets (l @ l') = closed_sockets l + closed_sockets l'"
proof -
  show "open_sockets (l @ l') = open_sockets l + open_sockets l'" by (induction l rule: open_sockets.induct) auto
  show "closed_sockets (l @ l') = closed_sockets l + closed_sockets l'" by (induction l rule: closed_sockets.induct) auto
qed

definition balanced :: "TcpTransportClient \<times> net_op list \<Rightarrow> bool" where
  "balanced s \<longleftrightarrow> open_sockets (snd s) = closed_sockets (snd s) + mset_set (set_option (k_socket (fst s)))"

lemma balanced_step: "balanced s \<Longrightarrow> balanced (phone_step op s)"
proof (cases s)
  case (Pair c l)
  assume "balanced s"
  with Pair show ?thesis
    by (cases op)
      (auto simp: balanced_def close_def connect_def sendFrame_def receiverLoop_def Let_def
        split: option.splits sum.splits write_answer.splits prod.splits)
qed

text \<open>Whatever happens, exactly the current socket is open, and none once \<open>close\<close> has run.\<close>

theorem phone_no_leak:
  assumes "phone_step PClose (fold phone_step ops (TcpTransportClient_init, [])) = (c, l)"
  shows "open_sockets l = closed_sockets l"
proof -
  have "balanced (fold phone_step ops s)" if "balanced s" for s
    using that by (induction ops arbitrary: s) (simp_all add: balanced_step)
  moreover have "balanced (TcpTransportClient_init, [])" by (simp add: balanced_def TcpTransportClient_init_def)
  ultimately have "balanced (c, l)" using balanced_step [of _ PClose] assms by metis
  moreover obtain c0 l0 where "fold phone_step ops (TcpTransportClient_init, []) = (c0, l0)" by fastforce
  then have "k_socket c = None" using assms by (auto simp: close_def)
  ultimately show ?thesis by (simp add: balanced_def)
qed

section \<open>Examples\<close>

definition sample_client :: TcpTransportClient where
  "sample_client = \<lparr>k_socket = Some 5, k_inputStream = Some 5, k_outputStream = Some 5, k_listener = True,
     k_isConnected = True, k_sequenceCounter = 1\<rparr>"

theorem pc_to_phone_witness:
  "\<exists>t' l'. run_state (send_all slow_env [(UNLOCK_REQ, [1, 2])] connected_transport) [] = ((True, t'), l')
     \<and> receiverLoop [] [(True, Read 7 (sent_on 3 l')), (True, Read 4096 (drop 7 (sent_on 3 l')))] sample_client
       = Some ([OnFrameReceived (frame_norm (out_frame UNLOCK_REQ [1, 2] 1))], sample_client)"
proof -
  obtain l' where "run_state (SendFrame slow_env UNLOCK_REQ [1, 2] connected_transport) []
      = ((True, connected_transport\<lparr>t_sequenceCounter := 2\<rparr>), l')"
    using SendFrame_slow_env [of "[1, 2]" connected_transport] by fastforce
  then have r: "run_state (send_all slow_env [(UNLOCK_REQ, [1, 2])] connected_transport) []
      = ((True, connected_transport\<lparr>t_sequenceCounter := 2\<rparr>), l')" by simp
  from send_all_sent [OF send_counts_slow_env _ _ r]
  have len: "length (sent_on 3 l') = 20" by (auto simp: length_SerializeFrame MAX_PAYLOAD_SIZE_def)
  then have all: "read_bytes [(True, Read 7 (sent_on 3 l')), (True, Read 4096 (drop 7 (sent_on 3 l')))] = sent_on 3 l'" by simp
  have c: "k_listener sample_client" "k_inputStream sample_client \<noteq> None" by (simp_all add: sample_client_def)
  from pc_to_phone [OF send_counts_slow_env _ _ r c, of "[(True, Read 7 (sent_on 3 l')), (True, Read 4096 (drop 7 (sent_on 3 l')))]" "[]"]
    r all len show ?thesis by (auto simp: MAX_ARRAY_def)
qed

theorem phone_receiver_returns_witness:
  "\<exists>evs c'. receiverLoop [] [(True, Read 20 (put_be32 FRAME_MAGIC @ put_be32 0xFFFFFFEF @ replicate 12 0)), (False, Read 0 [])]
     sample_client = Some (evs, c')"
proof -
  let ?b = "put_be32 FRAME_MAGIC @ put_be32 0xFFFFFFEF @ replicate 12 (0 :: byte)"
  have b: "?b = [0x50, 0x4B, 0x46, 0x52, 0xFF, 0xFF, 0xFF, 0xEF, 0, 0, 0, 0, 0, 0, 0, 0, 0, 0, 0, 0]"
  proof -
    have "put_be32 FRAME_MAGIC = [0x50, 0x4B, 0x46, 0x52]" by (simp add: put_be32_def FRAME_MAGIC_def)
    moreover have "put_be32 0xFFFFFFEF = [0xFF, 0xFF, 0xFF, 0xEF]" by (simp add: put_be32_def)
    moreover have "replicate 12 (0 :: byte) = [0, 0, 0, 0, 0, 0, 0, 0, 0, 0, 0, 0]" by (simp add: numeral_eq_Suc)
    ultimately show ?thesis by simp
  qed
  have "\<not> stuck (drop n ?b)" for n
  proof -
    have "n = 0 \<or> n = 1 \<or> n = 2 \<or> 3 \<le> n" by linarith
    then show ?thesis unfolding b by (auto simp: stuck_def fr_magic_def rx_plen_def dec_be32_def get_be32_def FRAME_MAGIC_def)
  qed
  with phone_receiver_returns [of "[(True, Read 20 ?b), (False, Read 0 [])]" "[]" sample_client] show ?thesis
    by (simp add: MAX_ARRAY_def)
qed

theorem phone_to_pc_witness:
  "\<exists>c' l. phone_send_all [(Written, UNLOCK_RESP, [1, 2, 3])] sample_client = (True, c', l)
     \<and> ReceiverWorker deliver receiving lose_connection [(5, written l), (999, drop 5 (written l))] [] (connected_transport, [])
       = Some (connected_transport, [OnFrameReceived (frame_norm (out_frame UNLOCK_RESP [1, 2, 3] 1))])"
proof -
  have on: "isConnected sample_client" "k_outputStream sample_client = Some 5" "k_sequenceCounter sample_client = 1"
    by (simp_all add: sample_client_def isConnected_def)
  obtain c' l where s: "phone_send_all [(Written, UNLOCK_RESP, [1, 2, 3])] sample_client = (True, c', l)"
    using sendFrame_bytes [OF on(1,2) _ refl, of "[1, 2, 3]" "[]" UNLOCK_RESP] by (simp add: MAX_ARRAY_def)
  from phone_send_all_bytes [OF s] have "length (written l) = 21"
    by (simp add: on MAX_PAYLOAD_SIZE_def length_SerializeFrame)
  then have "received [(5, written l), (999, drop 5 (written l))] = written l" by simp
  with phone_to_pc [OF s, of connected_transport "[(5, written l), (999, drop 5 (written l))]" "[]"] s on show ?thesis
    by (auto simp: MAX_PAYLOAD_SIZE_def connected_transport_def)
qed

end
