(* ===== verification/Phone_Protocol.thy ===== *)
theory Phone_Protocol
  imports Java_Runtime Protocol
begin

text \<open>
  The phone's codec of the signed payload: \<open>crypto/ProtocolEncoder.kt\<close> and \<open>crypto/ProtocolValidator.kt\<close>,
  compared with \<open>windows/common/Protocol.cpp\<close>. The Kotlin class \<open>AuthPayload\<close> has the fields of the C++ struct,
  but its arrays can have any size, and \<open>expirationTimestampMs\<close> is a signed \<open>Long\<close>.
\<close>

section \<open>Encoding and decoding\<close>

text \<open>The constructor with its default values, as the controller calls it.\<close>

definition AuthPayload_of :: "byte list \<Rightarrow> byte list \<Rightarrow> byte list \<Rightarrow> byte list \<Rightarrow> u64 \<Rightarrow> AuthPayload" where
  "AuthPayload_of deviceId sessionId pcId challenge expirationTimestampMs =
     \<lparr>p_domain = DOMAIN_PREFIX @ drop (length DOMAIN_PREFIX) (replicate 16 0), p_protocolVersion = 0x0100,
      p_algorithmId = 0x0001, p_deviceId = deviceId, p_sessionId = sessionId, p_pcId = pcId,
      p_challenge = challenge, p_expirationTimestampMs = expirationTimestampMs\<rparr>"

definition encode :: "AuthPayload \<Rightarrow> byte list option" where
  "encode payload =
     (if length (p_deviceId payload) \<noteq> 16 \<or> length (p_sessionId payload) \<noteq> 16 \<or> length (p_pcId payload) \<noteq> 16
         \<or> length (p_challenge payload) \<noteq> 32 then None
      else do {
        buffer \<leftarrow> allocate 108;
        domainFixed \<leftarrow> arraycopy (p_domain payload) 0 (replicate 16 0) 0 (min (int (length (p_domain payload))) 16);
        buffer \<leftarrow> bb_put domainFixed buffer;
        buffer \<leftarrow> putShort (p_protocolVersion payload) buffer;
        buffer \<leftarrow> putShort (p_algorithmId payload) buffer;
        buffer \<leftarrow> bb_put (p_deviceId payload) buffer;
        buffer \<leftarrow> bb_put (p_sessionId payload) buffer;
        buffer \<leftarrow> bb_put (p_pcId payload) buffer;
        buffer \<leftarrow> bb_put (p_challenge payload) buffer;
        buffer \<leftarrow> putLong (p_expirationTimestampMs payload) buffer;
        Some (bb_array buffer)
      })"

definition decode :: "byte list \<Rightarrow> AuthPayload option" where
  "decode bytes =
     (if length bytes \<noteq> 108 then None
      else do {
        let buffer = wrap bytes;
        (dmn, buffer) \<leftarrow> bb_get 16 buffer;
        (version, buffer) \<leftarrow> getShort buffer;
        (algorithm, buffer) \<leftarrow> getShort buffer;
        (deviceId, buffer) \<leftarrow> bb_get 16 buffer;
        (sessionId, buffer) \<leftarrow> bb_get 16 buffer;
        (pcId, buffer) \<leftarrow> bb_get 16 buffer;
        (challenge, buffer) \<leftarrow> bb_get 32 buffer;
        (expiration, buffer) \<leftarrow> getLong buffer;
        Some \<lparr>p_domain = dmn, p_protocolVersion = version, p_algorithmId = algorithm, p_deviceId = deviceId,
          p_sessionId = sessionId, p_pcId = pcId, p_challenge = challenge, p_expirationTimestampMs = expiration\<rparr>
      })"

section \<open>Validation\<close>

datatype PhoneErrorCode = K_SUCCESS | K_INVALID_REQUEST | K_INVALID_PROTOCOL_VERSION | K_INVALID_ALGORITHM | K_EXPIRED

text \<open>
  The loop over the expected bytes: true when all agree, false at the first that differs, and
  \<open>None\<close> when the array is too short (\<open>ArrayIndexOutOfBoundsException\<close>).
\<close>

fun check_domain :: "byte list \<Rightarrow> byte list \<Rightarrow> bool option" where
  "check_domain [] ds = Some True"
| "check_domain (e # expected) [] = None"
| "check_domain (e # expected) (b # ds) = (if b \<noteq> e then Some False else check_domain expected ds)"

definition validate :: "AuthPayload \<Rightarrow> u64 \<Rightarrow> PhoneErrorCode option" where
  "validate payload currentTimeMs = do {
     same \<leftarrow> check_domain DOMAIN_PREFIX (p_domain payload);
     Some (if \<not> same then K_INVALID_REQUEST
           else if p_protocolVersion payload \<noteq> 0x0100 then K_INVALID_PROTOCOL_VERSION
           else if p_algorithmId payload \<noteq> 0x0001 then K_INVALID_ALGORITHM
           else if sint currentTimeMs > sint (p_expirationTimestampMs payload) then K_EXPIRED
           else K_SUCCESS)
   }"

section \<open>Agreement with the PC\<close>

lemma encode_layout:
  assumes "length (p_deviceId p) = 16" "length (p_sessionId p) = 16" "length (p_pcId p) = 16" "length (p_challenge p) = 32"
  shows "encode p = Some (fill 16 (p_domain p) @ put_be16 (p_protocolVersion p) @ put_be16 (p_algorithmId p)
    @ p_deviceId p @ p_sessionId p @ p_pcId p @ p_challenge p @ put_be64 (p_expirationTimestampMs p))"
proof -
  have "allocate (of_nat 108) = Some (filling 108 [])" by (rule allocate_filling) (simp add: MAX_ARRAY_def)
  then have alloc: "allocate 108 = Some (filling 108 [])" by simp
  have dom: "arraycopy (p_domain p) 0 (replicate 16 0) 0 (min (int (length (p_domain p))) 16) = Some (fill 16 (p_domain p))"
  proof (cases "length (p_domain p) < 16")
    case True
    then show ?thesis by (simp add: arraycopy_def fill_def min_def)
  next
    case False
    then have "min (int (length (p_domain p))) 16 = 16" by simp
    then show ?thesis using False by (simp add: arraycopy_def fill_def)
  qed
  show ?thesis using assms by (simp add: encode_def alloc dom buffer_simps putShort_def putLong_def)
qed

lemma encode_Serialize: "AuthPayload_wf p \<Longrightarrow> encode p = Some (Serialize p)"
  by (subst encode_layout) (simp_all add: Serialize_layout AuthPayload_wf_def size_defs fill_id)

lemma decode_fields:
  assumes "length buf = 108"
  shows "decode buf = Some \<lparr>p_domain = take 16 buf, p_protocolVersion = dec_be16 (take 2 (drop 16 buf)),
    p_algorithmId = dec_be16 (take 2 (drop 18 buf)), p_deviceId = take 16 (drop 20 buf),
    p_sessionId = take 16 (drop 36 buf), p_pcId = take 16 (drop 52 buf), p_challenge = take 32 (drop 68 buf),
    p_expirationTimestampMs = get_be64 (drop 100 buf)\<rparr>"
  using assms by (simp add: decode_def Let_def buffer_simps)

lemma check_domain_iff: "length ds = length expected \<Longrightarrow> check_domain expected ds = Some (ds = expected)"
  by (induction expected ds rule: check_domain.induct) auto



end
