(* ===== verification/Phone_Unlock.thy ===== *)
theory Phone_Unlock
  imports Phone_Transport Phone_Protocol
begin

text \<open>
  The phone's answer to an unlock request: \<open>engine/UnlockController.kt\<close> with \<open>crypto/BiometricSigner.kt\<close>,
  \<open>crypto/SignatureManager.kt\<close> and the key access of \<open>crypto/KeyManager.kt\<close>. The receiver thread checks the
  request and posts a closure to the user-interface thread, which shows a biometric prompt; the
  prompt's callback signs and sends. The Android Keystore is a parameter; what the prompt reports and
  what the network does with the answer are arguments.
\<close>

section \<open>The controller\<close>

datatype status = OnStatusUpdate string | OnUnlockSuccess | OnUnlockFailed string

record UnlockController =
  u_deviceId :: "byte list"
  u_transport :: TcpTransportClient
  u_statusCallback :: bool

text \<open>Calls \<open>statusCallback?.f(...)\<close>, when a callback is set.\<close>

definition tells :: "UnlockController \<Rightarrow> status list \<Rightarrow> status list" where
  "tells u ss = (if u_statusCallback u then ss else [])"

lemma tells_Nil [simp]: "tells u [] = []"
  by (simp add: tells_def)

definition setStatusCallback :: "UnlockController \<Rightarrow> UnlockController" where
  "setStatusCallback u = u\<lparr>u_statusCallback := True\<rparr>"

text \<open>
  The Android Keystore: the private key of the alias (an exception, \<open>null\<close> or a key), whether
  \<open>Signature.initSign\<close> throws for a key (\<open>KeyPermanentlyInvalidatedException\<close>), and what signing gives.
\<close>

record keystore =
  ks_getKey :: "string + nat option"
  ks_initSign :: "nat \<Rightarrow> string option"
  ks_sign :: "nat \<Rightarrow> byte list \<Rightarrow> string + byte list"

text \<open>What the closure of \<open>runOnUiThread\<close> captures, and what an open prompt will sign.\<close>

record unlock_task =
  k_sessionId :: "byte list"
  k_pcId :: "byte list"
  k_challenge :: "byte list"
  k_expireTime :: u64

type_synonym prompt = "nat \<times> byte list"

definition startConnection :: "string \<Rightarrow> nat \<Rightarrow> UnlockController \<Rightarrow> status list \<times> UnlockController" where
  "startConnection host port u =
     (tells u [OnStatusUpdate (''Connecting to Windows host '' @ host @ '':'' @ decimal port @ ''...'')],
      u\<lparr>u_transport := setListener (u_transport u)\<rparr>)"

text \<open>\<open>None\<close> is an exception in the receiver thread.\<close>

definition handleUnlockRequest :: "u64 \<Rightarrow> byte list \<Rightarrow> UnlockController \<Rightarrow> (status list \<times> unlock_task option) option" where
  "handleUnlockRequest nowMs payload u =
     (if sint (jsize payload) < 80 then Some (tells u [OnUnlockFailed ''Malformed UNLOCK_REQ payload size''], None)
      else do {
        let buffer = wrap payload;
        (sessionId, buffer) \<leftarrow> bb_get 16 buffer;
        (pcId, buffer) \<leftarrow> bb_get 16 buffer;
        (challenge, buffer) \<leftarrow> bb_get 32 buffer;
        (createdTime, buffer) \<leftarrow> getLong buffer;
        (expireTime, buffer) \<leftarrow> getLong buffer;
        if sint nowMs > sint expireTime
        then Some (tells u [OnUnlockFailed ''Received expired challenge from Windows host''], None)
        else Some ([], Some \<lparr>k_sessionId = sessionId, k_pcId = pcId, k_challenge = challenge, k_expireTime = expireTime\<rparr>)
      })"

definition controller_onFrameReceived ::
    "u64 \<Rightarrow> TransportFrame \<Rightarrow> UnlockController \<Rightarrow> (status list \<times> unlock_task option) option" where
  "controller_onFrameReceived nowMs frame u =
     (if f_messageType frame = UNLOCK_REQ then handleUnlockRequest nowMs (f_payload frame) u else Some ([], None))"

definition getPrivateKey :: "keystore \<Rightarrow> string + nat option" where
  "getPrivateKey ks = ks_getKey ks"

text \<open>
  The closure on the user-interface thread; \<open>None\<close> is an exception there, which nothing catches: the
  application ends.
\<close>

definition ui_task :: "keystore \<Rightarrow> unlock_task \<Rightarrow> UnlockController \<Rightarrow> (status list \<times> prompt option) option" where
  "ui_task ks t u =
     (let required = OnStatusUpdate ''Biometric authorization required to unlock Windows PC...'' in
      case getPrivateKey ks of
        Inl e \<Rightarrow> None
      | Inr None \<Rightarrow> Some (tells u [required, OnUnlockFailed ''Android Keystore private key not found''], None)
      | Inr (Some privateKey) \<Rightarrow>
          if ks_initSign ks privateKey \<noteq> None then None
          else do {
            canonicalBytes \<leftarrow> encode (AuthPayload_of (u_deviceId u) (k_sessionId t) (k_pcId t) (k_challenge t) (k_expireTime t));
            Some (tells u [required], Some (privateKey, canonicalBytes))
          })"

text \<open>The controller as the listener of its transport: what it tells the status callback.\<close>

fun controller_event :: "listener_event \<Rightarrow> status list" where
  "controller_event (OnFrameReceived frame) = []"
| "controller_event (OnConnectionStateChanged connected peer) =
     [OnStatusUpdate (if connected then ''Connected to '' @ peer else ''Disconnected'')]"
| "controller_event (OnError e) = [OnUnlockFailed (''Transport error: '' @ e)]"

text \<open>\<open>AuthenticationSucceeded\<close> says whether \<open>cryptoObject?.signature\<close> is there.\<close>

datatype prompt_event = AuthenticationSucceeded bool | AuthenticationError int string | AuthenticationFailed

definition decimal_int :: "int \<Rightarrow> string" where
  "decimal_int n = (if n < 0 then ''-'' @ decimal (nat (- n)) else decimal (nat n))"

definition sign_onError :: "int \<Rightarrow> string \<Rightarrow> status" where
  "sign_onError code e = OnUnlockFailed (''Biometric error ['' @ decimal_int code @ '']: '' @ e)"

text \<open>\<open>SignCallback.onSuccess\<close>: the answer is the payload followed by the signature.\<close>

definition sign_onSuccess ::
    "write_answer \<Rightarrow> string \<Rightarrow> byte list \<Rightarrow> byte list \<Rightarrow> UnlockController \<Rightarrow> status list \<times> UnlockController \<times> net_op list" where
  "sign_onSuccess write msg canonicalBytes signatureDerBytes u =
     (let fullPayload = canonicalBytes @ signatureDerBytes;
          (sendOk, c, evs, l) = sendFrame write msg UNLOCK_RESP fullPayload (u_transport u)
      in (tells u (OnStatusUpdate ''Biometric authentication successful! Transmitting signature...''
            # concat (map controller_event evs)
            @ [if sendOk then OnUnlockSuccess else OnUnlockFailed ''Failed to transmit UNLOCK_RESP over transport'']),
          u\<lparr>u_transport := c\<rparr>, l))"

definition prompt_callback ::
    "keystore \<Rightarrow> write_answer \<Rightarrow> string \<Rightarrow> prompt \<Rightarrow> prompt_event \<Rightarrow> UnlockController
      \<Rightarrow> status list \<times> UnlockController \<times> net_op list" where
  "prompt_callback ks write msg p ev u =
     (case ev of
        AuthenticationSucceeded present \<Rightarrow>
          if present
          then (case ks_sign ks (fst p) (snd p) of
                  Inl e \<Rightarrow> (tells u [sign_onError (- 1) (''Signing failed: '' @ e)], u, [])
                | Inr derSignature \<Rightarrow> sign_onSuccess write msg (snd p) derSignature u)
          else (tells u [sign_onError (- 2) ''CryptoObject signature missing''], u, [])
      | AuthenticationError errorCode errString \<Rightarrow> (tells u [sign_onError errorCode errString], u, [])
      | AuthenticationFailed \<Rightarrow> (tells u [OnUnlockFailed ''Biometric scan failed''], u, []))"

definition stop :: "UnlockController \<Rightarrow> UnlockController \<times> net_op list" where
  "stop u = (let (c, l) = close (u_transport u) in (u\<lparr>u_transport := c\<rparr>, l))"

section \<open>The application\<close>

text \<open>
  The threads of the application share the controller: the receiver thread hands frames to it, the
  user-interface thread runs the posted closures in order and the callbacks of the prompts that are
  open. A prompt stays open after a failed scan and is gone after a success or an error. The last
  three fields record what happened: the frames with the clock at their arrival, the payloads the user
  authorized, and the calls on sockets.
\<close>

record phone_app =
  a_controller :: UnlockController
  a_tasks :: "unlock_task list"
  a_prompts :: "prompt list"
  a_received :: "(u64 \<times> TransportFrame) list"
  a_authorized :: "byte list list"
  a_net :: "net_op list"

definition app_init :: "UnlockController \<Rightarrow> phone_app" where
  "app_init u = \<lparr>a_controller = u, a_tasks = [], a_prompts = [], a_received = [], a_authorized = [], a_net = []\<rparr>"

fun not_send :: "phone_op \<Rightarrow> bool" where
  "not_send (PSend write ty payload) = False"
| "not_send op = True"

inductive app_step :: "keystore \<Rightarrow> phone_app \<Rightarrow> phone_app \<Rightarrow> bool" for ks where
  frame: "length (f_payload f) \<le> MAX_ARRAY \<Longrightarrow> controller_onFrameReceived nowMs f (a_controller a) = Some (ss, task) \<Longrightarrow>
    app_step ks a (a\<lparr>a_tasks := a_tasks a @ (case task of Some t \<Rightarrow> [t] | None \<Rightarrow> []),
      a_received := a_received a @ [(nowMs, f)]\<rparr>)"
| ui: "a_tasks a = t # ts \<Longrightarrow> ui_task ks t (a_controller a) = Some (ss, p) \<Longrightarrow>
    app_step ks a (a\<lparr>a_tasks := ts, a_prompts := a_prompts a @ (case p of Some q \<Rightarrow> [q] | None \<Rightarrow> [])\<rparr>)"
| prompt: "p \<in> set (a_prompts a) \<Longrightarrow> prompt_callback ks write msg p ev (a_controller a) = (ss, u, l) \<Longrightarrow>
    app_step ks a (a\<lparr>a_controller := u, a_prompts := (if ev = AuthenticationFailed then a_prompts a else remove1 p (a_prompts a)),
      a_authorized := a_authorized a @ (if ev = AuthenticationSucceeded True then [snd p] else []), a_net := a_net a @ l\<rparr>)"
| transport: "not_send op \<Longrightarrow> phone_step op (u_transport (a_controller a), []) = (c, l) \<Longrightarrow>
    app_step ks a (a\<lparr>a_controller := (a_controller a)\<lparr>u_transport := c\<rparr>, a_net := a_net a @ l\<rparr>)"

inductive app_reach :: "keystore \<Rightarrow> UnlockController \<Rightarrow> phone_app \<Rightarrow> bool" for ks u where
  start: "app_reach ks u (app_init u)"
| step: "app_reach ks u a \<Longrightarrow> app_step ks a a' \<Longrightarrow> app_reach ks u a'"

section \<open>What the phone signs\<close>

text \<open>The payload that answers a request: the identifiers, the challenge and the expiry it carries.\<close>

definition request_task :: "byte list \<Rightarrow> unlock_task" where
  "request_task payload = \<lparr>k_sessionId = take 16 payload, k_pcId = take 16 (drop 16 payload),
     k_challenge = take 32 (drop 32 payload), k_expireTime = get_be64 (take 8 (drop 72 payload))\<rparr>"

definition answer_payload :: "byte list \<Rightarrow> byte list \<Rightarrow> AuthPayload" where
  "answer_payload deviceId payload = (let t = request_task payload in
     AuthPayload_of deviceId (k_sessionId t) (k_pcId t) (k_challenge t) (k_expireTime t))"

lemma answer_payload_current:
  "length deviceId = 16 \<Longrightarrow> 80 \<le> length payload \<Longrightarrow> AuthPayload_current (answer_payload deviceId payload)"
  by (simp add: answer_payload_def request_task_def AuthPayload_of_def AuthPayload_current_def AuthPayload_wf_def size_defs
      CURRENT_PROTOCOL_VERSION_def ALGORITHM_ECDSA_P256_SHA256_def Let_def)

lemma handleUnlockRequest_view:
  assumes "length payload \<le> MAX_ARRAY"
  shows "handleUnlockRequest now payload u = Some
    (if length payload < 80 then (tells u [OnUnlockFailed ''Malformed UNLOCK_REQ payload size''], None)
     else if sint now > sint (k_expireTime (request_task payload))
     then (tells u [OnUnlockFailed ''Received expired challenge from Windows host''], None)
     else ([], Some (request_task payload)))"
  using assms by (simp add: handleUnlockRequest_def Let_def sint_jsize buffer_simps request_task_def)

text \<open>A request that the phone has accepted: it is long enough and was in time by the phone's clock.\<close>

definition accepted :: "u64 \<times> TransportFrame \<Rightarrow> bool" where
  "accepted r \<longleftrightarrow> f_messageType (snd r) = UNLOCK_REQ \<and> 80 \<le> length (f_payload (snd r))
     \<and> sint (fst r) \<le> sint (k_expireTime (request_task (f_payload (snd r))))"

lemma controller_posts:
  assumes "controller_onFrameReceived now f u = Some (ss, Some t)" "length (f_payload f) \<le> MAX_ARRAY"
  shows "accepted (now, f)" "t = request_task (f_payload f)"
  using assms by (auto simp: controller_onFrameReceived_def handleUnlockRequest_view accepted_def split: if_splits)

lemma ui_task_prompt:
  assumes "ui_task ks t u = Some (ss, Some (key, canonical))"
  shows "encode (AuthPayload_of (u_deviceId u) (k_sessionId t) (k_pcId t) (k_challenge t) (k_expireTime t)) = Some canonical"
    "ks_getKey ks = Inr (Some key)"
  using assms by (auto simp: ui_task_def getPrivateKey_def Let_def bind_eq_Some_conv split: sum.splits option.splits if_splits)

lemma prompt_callback_net:
  assumes "prompt_callback ks write msg p ev u = (ss, u', l)"
  shows "u_deviceId u' = u_deviceId u"
    and "l = [] \<or> (\<exists>out sig n. ev = AuthenticationSucceeded True \<and> ks_sign ks (fst p) (snd p) = Inr sig
      \<and> l = [Wrote out (take n (the (serializeFrame (phone_frame UNLOCK_RESP (snd p @ sig) (k_sequenceCounter (u_transport u))))))])"
proof -
  show "u_deviceId u' = u_deviceId u"
    using assms by (auto simp: prompt_callback_def sign_onSuccess_def Let_def split: prompt_event.splits sum.splits prod.splits if_splits)
  show "l = [] \<or> (\<exists>out sig n. ev = AuthenticationSucceeded True \<and> ks_sign ks (fst p) (snd p) = Inr sig
      \<and> l = [Wrote out (take n (the (serializeFrame (phone_frame UNLOCK_RESP (snd p @ sig) (k_sequenceCounter (u_transport u))))))])"
  proof (cases "\<exists>sig. ev = AuthenticationSucceeded True \<and> ks_sign ks (fst p) (snd p) = Inr sig")
    case True
    then obtain sig where sig: "ev = AuthenticationSucceeded True" "ks_sign ks (fst p) (snd p) = Inr sig" by blast
    have whole: "\<exists>n. x = take n x" for x :: "byte list" by (metis take_all_iff order_refl)
    from assms sig show ?thesis
      by (auto simp: prompt_callback_def sign_onSuccess_def sendFrame_def Let_def
          split: prod.splits if_splits option.splits write_answer.splits intro!: whole)
  qed (use assms in \<open>auto simp: prompt_callback_def split: prompt_event.splits sum.splits if_splits\<close>)
qed

text \<open>Bytes that answer an accepted request among \<open>rs\<close>.\<close>

definition answers :: "byte list \<Rightarrow> (u64 \<times> TransportFrame) list \<Rightarrow> byte list \<Rightarrow> bool" where
  "answers deviceId rs bytes \<longleftrightarrow>
     (\<exists>r \<in> set rs. accepted r \<and> encode (answer_payload deviceId (f_payload (snd r))) = Some bytes)"

fun is_Wrote :: "net_op \<Rightarrow> bool" where
  "is_Wrote (Wrote s bs) = True"
| "is_Wrote _ = False"

definition sends_authorized :: "keystore \<Rightarrow> phone_app \<Rightarrow> bool" where
  "sends_authorized ks a \<longleftrightarrow> length (filter is_Wrote (a_net a)) \<le> length (a_authorized a)
     \<and> (\<forall>out bs. Wrote out bs \<in> set (a_net a) \<longrightarrow> (\<exists>bytes \<in> set (a_authorized a). \<exists>key sig seq n.
         ks_sign ks key bytes = Inr sig \<and> bs = take n (the (serializeFrame (phone_frame UNLOCK_RESP (bytes @ sig) seq)))))"

definition app_inv :: "keystore \<Rightarrow> byte list \<Rightarrow> phone_app \<Rightarrow> bool" where
  "app_inv ks deviceId a \<longleftrightarrow> u_deviceId (a_controller a) = deviceId
     \<and> (\<forall>t \<in> set (a_tasks a). \<exists>r \<in> set (a_received a). accepted r \<and> t = request_task (f_payload (snd r)))
     \<and> (\<forall>p \<in> set (a_prompts a). answers deviceId (a_received a) (snd p))
     \<and> (\<forall>bytes \<in> set (a_authorized a). answers deviceId (a_received a) bytes)
     \<and> sends_authorized ks a"

lemma answers_mono: "answers d rs bytes \<Longrightarrow> set rs \<subseteq> set rs' \<Longrightarrow> answers d rs' bytes"
  by (auto simp: answers_def)

lemma phone_step_silent:
  assumes "not_send op" "phone_step op (c, []) = (c', l)"
  shows "filter is_Wrote l = [] \<and> (\<forall>out bs. Wrote out bs \<notin> set l)"
  using assms
  by (cases op) (auto simp: close_def connect_def Let_def split: sum.splits option.splits prod.splits)

lemma app_inv_step:
  assumes "app_step ks a a'" "app_inv ks d a"
  shows "app_inv ks d a'"
  using assms
proof (induction rule: app_step.induct)
  case (frame f nowMs a ss task)
  have "\<exists>r \<in> set (a_received a @ [(nowMs, f)]). accepted r \<and> t = request_task (f_payload (snd r))" if "task = Some t" for t
    using controller_posts [of nowMs f "a_controller a" ss t] frame(1,2) that by auto
  with frame(3) show ?case
    by (auto simp: app_inv_def sends_authorized_def intro: answers_mono split: option.splits)
next
  case (ui a t ts ss p)
  have "answers d (a_received a) (snd q)" if "p = Some q" for q
  proof -
    from ui(1,3) obtain r where r: "r \<in> set (a_received a)" "accepted r" "t = request_task (f_payload (snd r))"
      by (auto simp: app_inv_def)
    with ui_task_prompt(1) [of ks t "a_controller a" ss "fst q" "snd q"] ui(2,3) that show ?thesis
      by (auto simp: answers_def answer_payload_def app_inv_def Let_def)
  qed
  with ui show ?case by (auto simp: app_inv_def sends_authorized_def split: option.splits)
next
  case (prompt p a answer msg ev ss u l)
  note net = prompt_callback_net [OF prompt(2)]
  have ok: "answers d (a_received a) (snd p)" using prompt(1,3) by (auto simp: app_inv_def)
  from net(2) have "sends_authorized ks (a\<lparr>a_controller := u,
      a_authorized := a_authorized a @ (if ev = AuthenticationSucceeded True then [snd p] else []), a_net := a_net a @ l\<rparr>)"
    using prompt(3) unfolding app_inv_def sends_authorized_def by (elim disjE) (auto, blast+)
  moreover have "set (remove1 p (a_prompts a)) \<subseteq> set (a_prompts a)" by (rule set_remove1_subset)
  ultimately show ?case using prompt(3) ok net(1) by (auto simp: app_inv_def sends_authorized_def)
next
  case (transport op a c l)
  from phone_step_silent [OF transport(1,2)] transport(3) show ?case
    by (auto simp: app_inv_def sends_authorized_def)
qed

lemma app_reach_inv: "app_reach ks u a \<Longrightarrow> app_inv ks (u_deviceId u) a"
proof (induction rule: app_reach.induct)
  case start
  then show ?case by (simp add: app_init_def app_inv_def sends_authorized_def)
qed (rule app_inv_step)

text \<open>
  C4. The phone never signs or sends on its own. In every run of the application, whatever frames
  arrive, however the threads interleave and however the prompts end: what was written to a socket
  is (a beginning of) a response frame whose payload is the answer to an unlock request that was
  complete and in time by the phone's clock when it arrived, with this phone as the device, that the
  user authorized in a biometric prompt for exactly these bytes, followed by the signature the
  Keystore gave for them. And there are at most as many sends as authorizations.
\<close>

theorem phone_sends_only_authorized:
  assumes "app_reach ks u a" "length (u_deviceId u) = 16"
  shows "length (filter is_Wrote (a_net a)) \<le> length (a_authorized a)
    \<and> (\<forall>out bs. Wrote out bs \<in> set (a_net a) \<longrightarrow>
      (\<exists>now f p sig key seq n. (now, f) \<in> set (a_received a) \<and> f_messageType f = UNLOCK_REQ \<and> 80 \<le> length (f_payload f)
        \<and> p = answer_payload (u_deviceId u) (f_payload f) \<and> AuthPayload_current p \<and> sint now \<le> sint (p_expirationTimestampMs p)
        \<and> Serialize p \<in> set (a_authorized a) \<and> ks_sign ks key (Serialize p) = Inr sig
        \<and> bs = take n (the (serializeFrame (phone_frame UNLOCK_RESP (Serialize p @ sig) seq)))))"
proof -
  from app_reach_inv [OF assms(1)] have inv: "\<forall>bytes \<in> set (a_authorized a). answers (u_deviceId u) (a_received a) bytes"
    and sends: "sends_authorized ks a" by (simp_all add: app_inv_def)
  have "\<exists>now f p. (now, f) \<in> set (a_received a) \<and> f_messageType f = UNLOCK_REQ \<and> 80 \<le> length (f_payload f)
      \<and> p = answer_payload (u_deviceId u) (f_payload f) \<and> AuthPayload_current p \<and> sint now \<le> sint (p_expirationTimestampMs p)
      \<and> bytes = Serialize p" if bytes: "bytes \<in> set (a_authorized a)" for bytes
  proof -
    from inv bytes obtain now f where f: "(now, f) \<in> set (a_received a)" "accepted (now, f)"
      "encode (answer_payload (u_deviceId u) (f_payload f)) = Some bytes" by (auto simp: answers_def)
    then have cur: "AuthPayload_current (answer_payload (u_deviceId u) (f_payload f))"
      using answer_payload_current [OF assms(2)] by (simp add: accepted_def)
    then have "bytes = Serialize (answer_payload (u_deviceId u) (f_payload f))"
      using f(3) encode_Serialize by (simp add: AuthPayload_current_def)
    moreover have "p_expirationTimestampMs (answer_payload (u_deviceId u) (f_payload f)) = k_expireTime (request_task (f_payload f))"
      by (simp add: answer_payload_def AuthPayload_of_def Let_def)
    ultimately show ?thesis using f(1,2) cur by (intro exI [of _ now] exI [of _ f]) (simp add: accepted_def)
  qed
  with sends show ?thesis unfolding sends_authorized_def by metis
qed

section \<open>The whole way of one request\<close>

text \<open>With a key, a working Keystore and network and the user's finger, the phone answers.\<close>

lemma phone_answers:
  assumes "f_messageType f = UNLOCK_REQ" "80 \<le> length (f_payload f)" "length (f_payload f) \<le> MAX_ARRAY"
    and "length (u_deviceId u) = 16" "p = answer_payload (u_deviceId u) (f_payload f)"
    and "sint now \<le> sint (p_expirationTimestampMs p)"
    and "ks_getKey ks = Inr (Some key)" "ks_initSign ks key = None" "ks_sign ks key (Serialize p) = Inr sig"
    and "isConnected (u_transport u)" "k_outputStream (u_transport u) = Some out" "108 + length sig \<le> MAX_PAYLOAD_SIZE"
  shows "controller_onFrameReceived now f u = Some ([], Some (request_task (f_payload f)))"
    and "\<exists>ss. ui_task ks (request_task (f_payload f)) u = Some (ss, Some (key, Serialize p))"
    and "\<exists>ss u'. prompt_callback ks Written msg (key, Serialize p) (AuthenticationSucceeded True) u
      = (tells u (ss @ [OnUnlockSuccess]), u',
         [Wrote out (SerializeFrame (out_frame UNLOCK_RESP (Serialize p @ sig) (k_sequenceCounter (u_transport u))))])"
    and "\<exists>ss u'. prompt_callback ks (WriteThrows n why) msg (key, Serialize p) (AuthenticationSucceeded True) u
      = (tells u (ss @ [OnUnlockFailed ''Failed to transmit UNLOCK_RESP over transport'']), u',
         [Wrote out (take n (SerializeFrame (out_frame UNLOCK_RESP (Serialize p @ sig) (k_sequenceCounter (u_transport u)))))])
      \<and> \<not> isConnected (u_transport u')"
proof -
  have cur: "AuthPayload_current p" using answer_payload_current [OF assms(4,2)] by (simp add: assms(5))
  then have wf: "AuthPayload_wf p" by (simp add: AuthPayload_current_def)
  have "sint now \<le> sint (k_expireTime (request_task (f_payload f)))"
    using assms(6) by (simp add: assms(5) answer_payload_def AuthPayload_of_def Let_def)
  with assms(1-3) show "controller_onFrameReceived now f u = Some ([], Some (request_task (f_payload f)))"
    by (simp add: controller_onFrameReceived_def handleUnlockRequest_view)
  have "encode p = Some (Serialize p)" using wf by (rule encode_Serialize)
  then show "\<exists>ss. ui_task ks (request_task (f_payload f)) u = Some (ss, Some (key, Serialize p))"
    using assms(7,8) by (simp add: ui_task_def getPrivateKey_def answer_payload_def assms(5) Let_def)
  have len: "length (Serialize p @ sig) \<le> MAX_PAYLOAD_SIZE" "18 + length (Serialize p @ sig) \<le> MAX_ARRAY"
    using assms(12) length_Serialize [OF wf] by (simp_all add: size_defs MAX_PAYLOAD_SIZE_def MAX_ARRAY_def)
  let ?f = "out_frame UNLOCK_RESP (Serialize p @ sig) (k_sequenceCounter (u_transport u))"
  have layout: "SerializeFrame ?f = frame_body ?f @ put_be32 (CalculateCrc32 (Some (frame_body ?f)))"
    using len(1) by (intro SerializeFrame_layout) simp
  then show "\<exists>ss u'. prompt_callback ks (WriteThrows n why) msg (key, Serialize p) (AuthenticationSucceeded True) u
      = (tells u (ss @ [OnUnlockFailed ''Failed to transmit UNLOCK_RESP over transport'']), u', [Wrote out (take n (SerializeFrame ?f))])
      \<and> \<not> isConnected (u_transport u')"
    using sendFrame_throws [OF assms(10,11) len(2) refl, of n why msg UNLOCK_RESP] assms(9)
    by (simp add: prompt_callback_def sign_onSuccess_def isConnected_def) (metis append_Cons)
  from layout sendFrame_bytes [OF assms(10,11) len(2) refl, of msg UNLOCK_RESP] assms(9)
  show "\<exists>ss u'. prompt_callback ks Written msg (key, Serialize p) (AuthenticationSucceeded True) u
      = (tells u (ss @ [OnUnlockSuccess]), u',
         [Wrote out (SerializeFrame (out_frame UNLOCK_RESP (Serialize p @ sig) (k_sequenceCounter (u_transport u))))])"
    by (simp add: prompt_callback_def sign_onSuccess_def) (metis append_Cons append_Nil)
qed

lemma phone_run:
  assumes "f_messageType f = UNLOCK_REQ" "80 \<le> length (f_payload f)" "length (f_payload f) \<le> MAX_ARRAY"
    and "length (u_deviceId u) = 16" "p = answer_payload (u_deviceId u) (f_payload f)"
    and "sint now \<le> sint (p_expirationTimestampMs p)"
    and "ks_getKey ks = Inr (Some key)" "ks_initSign ks key = None" "ks_sign ks key (Serialize p) = Inr sig"
    and "isConnected (u_transport u)" "k_outputStream (u_transport u) = Some out" "108 + length sig \<le> MAX_PAYLOAD_SIZE"
  shows "\<exists>a bs. app_reach ks u a \<and> a_received a = [(now, f)] \<and> a_authorized a = [Serialize p] \<and> a_net a = [Wrote out bs]"
proof -
  let ?t = "request_task (f_payload f)" and ?q = "(key, Serialize p)"
  note c = phone_answers(1) [OF assms] and ans = phone_answers(2,3) [OF assms]
  from ans(1) obtain ss where t: "ui_task ks ?t u = Some (ss, Some ?q)" by blast
  from ans(2) [of "[]"] obtain ss' u' bs where p: "prompt_callback ks Written [] ?q (AuthenticationSucceeded True) u = (ss', u', [Wrote out bs])"
    by blast
  let ?a1 = "(app_init u)\<lparr>a_tasks := [?t], a_received := [(now, f)]\<rparr>"
  let ?a2 = "?a1\<lparr>a_tasks := [], a_prompts := [?q]\<rparr>"
  let ?a3 = "?a2\<lparr>a_controller := u', a_prompts := [], a_authorized := [Serialize p], a_net := [Wrote out bs]\<rparr>"
  have "app_step ks (app_init u) ?a1" using app_step.frame [of f now "app_init u" "[]" "Some ?t" ks] assms(3) c by (simp add: app_init_def)
  moreover have "app_step ks ?a1 ?a2" using app_step.ui [of ?a1 ?t "[]" ks ss "Some ?q"] t by (simp add: app_init_def)
  moreover have "app_step ks ?a2 ?a3"
    using app_step.prompt [of ?q ?a2 ks Written "[]" "AuthenticationSucceeded True" ss' u' "[Wrote out bs]"] p by (simp add: app_init_def)
  ultimately have "app_reach ks u ?a3" by (meson app_reach.start app_reach.step)
  then show ?thesis by (intro exI [of _ ?a3] exI [of _ bs]) simp
qed

text \<open>
  A key that a new fingerprint enrolment has invalidated ends the application: \<open>initSign\<close> throws inside
  the closure, and nothing catches it. (\<open>isKeyInvalidated\<close> exists, but nobody asks it before signing.)
\<close>

theorem invalidated_key_crashes:
  "ks_getKey ks = Inr (Some key) \<Longrightarrow> ks_initSign ks key = Some e \<Longrightarrow> ui_task ks t u = None"
  by (simp add: ui_task_def getPrivateKey_def)

section \<open>Examples\<close>

definition sample_phone :: UnlockController where
  "sample_phone = \<lparr>u_deviceId = replicate 16 0x11, u_transport = sample_client, u_statusCallback = True\<rparr>"

text \<open>A Keystore that signs everything with 64 bytes 1.\<close>

definition sample_keystore :: keystore where
  "sample_keystore = \<lparr>ks_getKey = Inr (Some 9), ks_initSign = (\<lambda>k. None), ks_sign = (\<lambda>k m. Inr (replicate 64 1))\<rparr>"

definition sample_request :: TransportFrame where
  "sample_request = TransportFrame_init\<lparr>f_messageType := UNLOCK_REQ, f_payload := replicate 79 0 @ [200]\<rparr>"

lemma sample_request_answer:
  "80 \<le> length (f_payload sample_request)" "length (f_payload sample_request) \<le> MAX_ARRAY" "f_messageType sample_request = UNLOCK_REQ"
  "p_expirationTimestampMs (answer_payload (replicate 16 0x11) (f_payload sample_request)) = 200"
proof -
  show "80 \<le> length (f_payload sample_request)" "length (f_payload sample_request) \<le> MAX_ARRAY" "f_messageType sample_request = UNLOCK_REQ"
    by (simp_all add: sample_request_def MAX_ARRAY_def)
  have "get_be64 (take 8 (drop 72 (replicate 79 (0 :: byte) @ [200]))) = 200" by code_simp
  then show "p_expirationTimestampMs (answer_payload (replicate 16 0x11) (f_payload sample_request)) = 200"
    by (simp add: answer_payload_def request_task_def AuthPayload_of_def sample_request_def Let_def)
qed

theorem phone_sends_only_authorized_witness:
  "\<exists>a out bs. app_reach sample_keystore sample_phone a \<and> Wrote out bs \<in> set (a_net a)
     \<and> (\<exists>now f. (now, f) \<in> set (a_received a) \<and> f_messageType f = UNLOCK_REQ
       \<and> Serialize (answer_payload (replicate 16 0x11) (f_payload f)) \<in> set (a_authorized a))"
proof -
  let ?p = "answer_payload (replicate 16 0x11) (f_payload sample_request)"
  have u: "u_deviceId sample_phone = replicate 16 0x11" "isConnected (u_transport sample_phone)" "k_outputStream (u_transport sample_phone) = Some 5"
    by (simp_all add: sample_phone_def sample_client_def isConnected_def)
  have "\<exists>a bs. app_reach sample_keystore sample_phone a \<and> a_received a = [(100, sample_request)] \<and> a_authorized a = [Serialize ?p]
      \<and> a_net a = [Wrote 5 bs]"
    by (rule phone_run [of _ _ _ _ _ 9 "replicate 64 1"])
      (use u sample_request_answer in \<open>simp_all add: sample_keystore_def MAX_PAYLOAD_SIZE_def\<close>)
  then obtain a bs where a: "app_reach sample_keystore sample_phone a" "Wrote 5 bs \<in> set (a_net a)" by auto
  with phone_sends_only_authorized [OF a(1)] u(1) have "\<exists>now f. (now, f) \<in> set (a_received a) \<and> f_messageType f = UNLOCK_REQ
       \<and> Serialize (answer_payload (replicate 16 0x11) (f_payload f)) \<in> set (a_authorized a)" by fastforce
  with a show ?thesis by blast
qed

end
