(* ===== verification/End_To_End.thy ===== *)
theory End_To_End
  imports Agent_Liveness Phone_Unlock
begin

text \<open>
  The two programs together: the agent on the PC (C++) and the application on the phone (Kotlin), with
  the bytes of the one arriving at the other in pieces of any size. An unlock works, from the request
  to the decision; and there is no unlock that the user did not authorize on the phone.
\<close>

section \<open>An unlock works\<close>

text \<open>
  The phone's key pair belongs to the key the PC has registered: CNG accepts what the Keystore signs.
  The signature fits a frame (a DER signature of P-256 has at most 72 bytes).
\<close>

definition key_pair :: "env \<Rightarrow> (byte list \<Rightarrow> byte list) \<Rightarrow> handle \<Rightarrow> keystore \<Rightarrow> nat \<Rightarrow> bool" where
  "key_pair w sha hKey ks key \<longleftrightarrow>
     (\<forall>m. \<exists>sig. ks_sign ks key m = Inr sig \<and> length sig \<le> 72 \<and> cng_accepts w sha hKey m sig)"

lemma request_fields:
  assumes "ChallengeRecord_wf rec"
  shows "k_sessionId (request_task (unlock_request_payload rec)) = c_sessionId rec"
    "k_pcId (request_task (unlock_request_payload rec)) = c_pcId rec"
    "k_challenge (request_task (unlock_request_payload rec)) = c_challenge rec"
    "k_expireTime (request_task (unlock_request_payload rec)) = c_expirationTimestampMs rec"
  using assms by (simp_all add: unlock_request_payload_layout request_task_def)
    (simp_all add: ChallengeRecord_wf_def size_defs get_put64)

text \<open>The answer to the agent's request names the phone and has the request's session, challenge and expiry.\<close>

lemma answer_fields:
  assumes "ChallengeRecord_wf rec" "length dev = 16" "p = answer_payload dev (unlock_request_payload rec)"
  shows "AuthPayload_current p" "p_sessionId p = c_sessionId rec" "p_deviceId p = dev" "p_challenge p = c_challenge rec"
    "p_expirationTimestampMs p = c_expirationTimestampMs rec" "length (unlock_request_payload rec) = 80"
proof -
  show len: "length (unlock_request_payload rec) = 80"
    using assms(1) by (simp add: unlock_request_payload_layout) (simp add: ChallengeRecord_wf_def size_defs)
  show "AuthPayload_current p" "p_sessionId p = c_sessionId rec" "p_deviceId p = dev" "p_challenge p = c_challenge rec"
    "p_expirationTimestampMs p = c_expirationTimestampMs rec"
    using answer_payload_current [OF assms(2), of "unlock_request_payload rec"] len request_fields [OF assms(1)]
    by (simp_all add: assms(3) answer_payload_def AuthPayload_of_def Let_def)
qed

lemma issued_expiry:
  assumes "run_state (InitiateUnlockRequest w t0 uninit dev ag) l = ((rec, ag1), l1)"
  shows "c_expirationTimestampMs rec = t0 + 30000"
  using InitiateUnlockRequest_effect(1) [OF assms] GenerateChallenge_fields by (simp add: Let_def DEFAULT_CHALLENGE_TTL_MS_def)

lemma frame_arrives:
  assumes "length (f_payload f) \<le> MAX_PAYLOAD_SIZE" "t_listener r" "t_isRunning r" "t_isConnected r"
    and "\<forall>(n, buf) \<in> set recvs. 0 < n" "received recvs = SerializeFrame f"
  shows "ReceiverWorker deliver receiving lose_connection recvs [] (r, es) = Some (r, es @ [OnFrameReceived (frame_norm f)])"
  using drain_frames [of "[f]"] tcp.worker_frames [of recvs "(r, es)"] assms by (simp add: receiving_def fold_deliver)

lemma torn_frame_waits:
  assumes "length (f_payload f) \<le> MAX_PAYLOAD_SIZE" "k < length (SerializeFrame f)" "t_isRunning r" "t_isConnected r"
    and "\<forall>(n, buf) \<in> set recvs. 0 < n" "received recvs = take k (SerializeFrame f)"
  shows "ReceiverWorker deliver receiving lose_connection recvs [] (r, es) = Some (r, es)"
  using drain_partial [OF assms(1,2)] tcp.worker_frames [of recvs "(r, es)"] assms(3-) by (simp add: receiving_def)


section \<open>No unlock without the user\<close>

text \<open>
  What a signature scheme promises, for the key \<open>hKey\<close> and the messages \<open>msgs\<close> that its private half has
  signed: CNG accepts a signature under the key only of the digest of one of these.
\<close>

definition unforged :: "env \<Rightarrow> (byte list \<Rightarrow> byte list) \<Rightarrow> handle \<Rightarrow> byte list set \<Rightarrow> bool" where
  "unforged w sha hKey msgs \<longleftrightarrow> (\<forall>l digest raw. a_ok (w l (Cng (BCryptVerifySignature hKey digest raw)))
     \<longrightarrow> (\<exists>m \<in> msgs. digest = fill 32 (sha m)))"

text \<open>No collision of the hash between a message and those that were signed.\<close>

definition no_collision :: "(byte list \<Rightarrow> byte list) \<Rightarrow> byte list set \<Rightarrow> byte list \<Rightarrow> bool" where
  "no_collision sha msgs m \<longleftrightarrow> (\<forall>m' \<in> msgs. fill 32 (sha m') = fill 32 (sha m) \<longrightarrow> m' = m)"

lemma VerifySignature_signed:
  assumes "run_state (VerifySignature w e hKey (Some payload) (Some sig)) l = (Some True, l')"
    and "sha_env w sha" "unforged w sha hKey msgs" "no_collision sha msgs payload" "length payload < 2 ^ 32"
  shows "payload \<in> msgs"
proof -
  have "\<exists>l2 raw. a_ok (w l2 (Cng (BCryptVerifySignature hKey (fill 32 (sha payload)) raw)))"
    using assms(1,2) unfolding VerifySignature_alt sha_env_def dword_blob_id [OF assms(5)]
    by (auto simp: run_if split: if_splits option.splits prod.splits bool.splits)
  with assms(3,4) show ?thesis unfolding unforged_def no_collision_def by metis
qed

lemma unlock_verifies:
  assumes "agent_step w (AFrame now uninit frame) (Some (ag, l)) = (Decided (Some SUCCESS), s)" "p = response_payload frame"
  shows "AuthPayload_current p" "take 108 (f_payload frame) = Serialize p"
    "\<exists>l'. run_state (VerifySignature w (ag_cryptoEngine ag) (GetDevicePublicKey (p_deviceId p) (ag_deviceRegistry ag))
       (Some (Serialize p)) (Some (drop 108 (f_payload frame)))) l = (Some True, l')"
proof -
  from assms(1) obtain ag' l' where o: "run_state (AgentService_OnFrameReceived w now uninit frame ag) l = (Some (Some SUCCESS, ag'), l')"
    by (auto split: option.splits prod.splits)
  then have ty: "f_messageType frame = UNLOCK_RESP" by (auto simp: AgentService_OnFrameReceived_def split: if_splits)
  from o ty obtain ag1 l1 where r: "run_state (ProcessUnlockResponse w now uninit frame ag) l = (Some (SUCCESS, ag1), l1)"
    by (rule OnFrameReceived_unlock) auto
  have "precheck now frame ag = None \<and> (\<exists>l'. run_state (VerifySignature w (ag_cryptoEngine ag)
      (GetDevicePublicKey (p_deviceId p) (ag_deviceRegistry ag)) (Some (take 108 (f_payload frame)))
      (Some (drop 108 (f_payload frame)))) l = (Some True, l'))"
    using r by (cases rule: ProcessUnlockResponse_cases) (auto simp: assms(2) map_option_eq_Some split: if_splits)
  moreover from this have pre: "AuthPayload_current p" "take 108 (f_payload frame) = Serialize p"
    using precheck_None(2,3) [OF _ assms(2)] by blast+
  ultimately show "AuthPayload_current p" "take 108 (f_payload frame) = Serialize p"
    "\<exists>l'. run_state (VerifySignature w (ag_cryptoEngine ag) (GetDevicePublicKey (p_deviceId p) (ag_deviceRegistry ag))
       (Some (Serialize p)) (Some (drop 108 (f_payload frame)))) l = (Some True, l')" by simp_all
qed

text \<open>
  C2. Every unlock was authorized on the phone, for this very challenge. Take any run of the agent that
  starts with no challenge, and any run of the application on the phone; suppose the agent unlocks on
  a response that names the phone's device, under a key whose private half has signed exactly what
  the user authorized on that phone, and that the hash has no collision there. Then the phone has
  received an unlock request in time by its clock, the user has authorized its answer in a prompt,
  and the request carries the session and the challenge bytes of a challenge that this agent issued
  in this run, for this phone and at most 30 seconds ago.
\<close>

theorem unlock_needs_user:
  assumes "ag_challengeStore ag = ChallengeStore_init" "run_ops (agent_step w) ops (Some (ag, l)) = Some (ag2, l2)"
    and "agent_step w (AFrame now uninit frame) (Some (ag2, l2)) = (Decided (Some SUCCESS), s)"
    and "app_reach ks u a" "length (u_deviceId u) = 16" "p_deviceId (response_payload frame) = u_deviceId u"
    and "GetDevicePublicKey (u_deviceId u) (ag_deviceRegistry ag2) = hKey" "sha_env w sha"
    and "unforged w sha hKey (set (a_authorized a))" "no_collision sha (set (a_authorized a)) (take 108 (f_payload frame))"
  shows "\<exists>phoneNow req r. (phoneNow, req) \<in> set (a_received a) \<and> f_messageType req = UNLOCK_REQ
    \<and> sint phoneNow \<le> sint (k_expireTime (request_task (f_payload req)))
    \<and> Serialize (answer_payload (u_deviceId u) (f_payload req)) \<in> set (a_authorized a)
    \<and> r \<in> set (agent_issued w ops (Some (ag, l))) \<and> c_deviceId r = u_deviceId u \<and> c_pcId r = ag_pcId ag
    \<and> take 16 (f_payload req) = c_sessionId r \<and> take 32 (drop 32 (f_payload req)) = c_challenge r
    \<and> now \<le> c_creationTimestampMs r + 30000"
proof -
  let ?p = "response_payload frame"
  note v = unlock_verifies [OF assms(3) refl]
  from v(3) [unfolded assms(6,7)] obtain l3 where ver: "run_state (VerifySignature w (ag_cryptoEngine ag2) hKey
      (Some (Serialize ?p)) (Some (drop 108 (f_payload frame)))) l2 = (Some True, l3)" by (elim exE)
  have "length (Serialize ?p) < 2 ^ 32" by (simp flip: v(2))
  then have auth: "Serialize ?p \<in> set (a_authorized a)"
    by (intro VerifySignature_signed [OF ver assms(8,9)]) (use assms(10) v(2) in simp_all)
  then have "answers (u_deviceId u) (a_received a) (Serialize ?p)"
    using app_reach_inv [OF assms(4)] by (simp add: app_inv_def)
  then obtain phoneNow req where req: "(phoneNow, req) \<in> set (a_received a)" "accepted (phoneNow, req)"
    "encode (answer_payload (u_deviceId u) (f_payload req)) = Some (Serialize ?p)" by (auto simp: answers_def)
  have cur: "AuthPayload_current (answer_payload (u_deviceId u) (f_payload req))"
    using req(2) answer_payload_current [OF assms(5)] by (simp add: accepted_def)
  then have same: "Serialize (answer_payload (u_deviceId u) (f_payload req)) = Serialize ?p"
    using req(3) encode_Serialize by (simp add: AuthPayload_current_def)
  have "Some (True, answer_payload (u_deviceId u) (f_payload req), SUCCESS) = Some (True, ?p, SUCCESS)"
    by (rule trans [OF Deserialize_encoded [OF cur, of AuthPayload_init, unfolded same, symmetric] Deserialize_encoded [OF v(1)]])
  then have p: "answer_payload (u_deviceId u) (f_payload req) = ?p" by simp
  have "p_sessionId ?p = take 16 (f_payload req)" "p_challenge ?p = take 32 (drop 32 (f_payload req))"
    unfolding p [symmetric] by (simp_all add: answer_payload_def AuthPayload_of_def request_task_def Let_def)
  moreover have "fst (agent_step w (AFrame now uninit frame) (Some (ag2, l2))) = Decided (Some SUCCESS)"
    by (simp only: assms(3) fst_conv)
  from unlock_issued [OF assms(1,2) this] obtain r where "r \<in> set (agent_issued w ops (Some (ag, l)))" "c_sessionId r = p_sessionId ?p"
    "c_deviceId r = p_deviceId ?p" "c_challenge r = p_challenge ?p" "c_pcId r = ag_pcId ag" "now \<le> c_creationTimestampMs r + 30000"
    by blast
  ultimately show ?thesis using req(1,2) auth assms(6)
    by (intro exI [of _ phoneNow] exI [of _ req] exI [of _ r]) (simp add: accepted_def p)
qed

section \<open>Examples\<close>

text \<open>A CNG that accepts the signatures of one digest only, on a network that takes everything.\<close>

definition strict_env :: env where
  "strict_env l c = (all_env l c)\<lparr>a_ok := (case c of Cng (BCryptVerifySignature k digest raw) \<Rightarrow> digest = replicate 32 0 | _ \<Rightarrow> True)\<rparr>"

lemma strict_sha: "sha_env strict_env (\<lambda>d. [])" "sha_env all_env (\<lambda>d. [])"
  by (simp_all add: sha_env_def strict_env_def all_env_def)

lemma fill_nothing: "fill 32 [] = replicate 32 0"
  by (simp add: fill_def)

lemma sample_key_pair: "key_pair all_env (\<lambda>d. []) 7 sample_keystore 9" "key_pair strict_env (\<lambda>d. []) 7 sample_keystore 9"
  by (simp_all add: key_pair_def sample_keystore_def cng_accepts_def raw_signature_def strict_env_def all_env_def fill_nothing)

lemma sample_phone_ready:
  "k_listener (u_transport sample_phone)" "k_inputStream (u_transport sample_phone) \<noteq> None" "isConnected (u_transport sample_phone)"
  "k_outputStream (u_transport sample_phone) = Some 5" "ks_getKey sample_keystore = Inr (Some 9)" "ks_initSign sample_keystore 9 = None"
  "u_deviceId sample_phone = replicate 16 0x11"
  by (simp_all add: sample_phone_def sample_client_def isConnected_def sample_keystore_def)

lemma sample_registered: "GetDevicePublicKey (replicate 16 0x11) (ag_deviceRegistry sample_agent) = 7" "(7 :: handle) \<noteq> NULL"
  by (simp_all add: sample_agent_def GetDevicePublicKey_def RegisteredDevice_init_def)


theorem unlock_needs_user_witness:
  "\<exists>rec ag1 l1 g s a req phoneNow.
     agent_step strict_env (AInitiate 1000 sample_record (replicate 16 0x11)) (Some (sample_agent\<lparr>ag_challengeStore := ChallengeStore_init\<rparr>, []))
       = (Issued rec, Some (ag1, l1))
     \<and> agent_step strict_env (AFrame 2000 sample_record g) (Some (ag1, l1)) = (Decided (Some SUCCESS), s)
     \<and> app_reach sample_keystore sample_phone a \<and> (phoneNow, req) \<in> set (a_received a)
     \<and> Serialize (answer_payload (replicate 16 0x11) (f_payload req)) \<in> set (a_authorized a)"
proof -
  let ?ag = "sample_agent\<lparr>ag_challengeStore := ChallengeStore_init\<rparr>" and ?dev = "replicate 16 0x11 :: byte list"
  let ?sig = "replicate 64 1 :: byte list"
  obtain rec ag1 l1 where i: "run_state (InitiateUnlockRequest strict_env 1000 sample_record ?dev ?ag) [] = ((rec, ag1), l1)"
    by (metis surj_pair)
  then have step: "agent_step strict_env (AInitiate 1000 sample_record ?dev) (Some (?ag, [])) = (Issued rec, Some (ag1, l1))" by simp
  have wf0: "ChallengeRecord_wf sample_record" by (simp add: ChallengeRecord_wf_def sample_record_def size_defs)
  have pc: "length (ag_pcId ?ag) = UUID_SIZE" by (simp add: sample_agent_def AgentService_init_def size_defs)
  have wf: "ChallengeRecord_wf rec"
    using GenerateChallenge_wf [OF wf0 _ pc, of ?dev] InitiateUnlockRequest_effect(1) [OF i] by (simp add: size_defs)
  let ?req = "out_frame UNLOCK_REQ (unlock_request_payload rec) 1" and ?p = "answer_payload ?dev (unlock_request_payload rec)"
  have dev: "length ?dev = 16" by simp
  note p = answer_fields [OF wf dev refl] and expiry = issued_expiry [OF i]
  have "\<exists>a bs. app_reach sample_keystore sample_phone a \<and> a_received a = [(1500, ?req)] \<and> a_authorized a = [Serialize ?p] \<and> a_net a = [Wrote 5 bs]"
    by (rule phone_run [of _ _ _ _ _ 9 ?sig])
      (use p(5,6) expiry sample_phone_ready in \<open>simp_all add: out_frame_def sample_keystore_def MAX_ARRAY_def MAX_PAYLOAD_SIZE_def\<close>)
  then obtain a where a: "app_reach sample_keystore sample_phone a" "a_authorized a = [Serialize ?p]" by blast
  let ?g = "out_frame UNLOCK_RESP (Serialize ?p @ ?sig) 1"
  have g: "f_messageType ?g = UNLOCK_RESP" "f_payload ?g = Serialize ?p @ ?sig" by (simp_all add: out_frame_def)
  have accepts: "cng_accepts strict_env (\<lambda>d. []) 7 (Serialize ?p) ?sig"
    using sample_key_pair(2) by (simp add: key_pair_def sample_keystore_def)
  have key: "GetDevicePublicKey ?dev (ag_deviceRegistry ?ag) = 7" using sample_registered by simp
  obtain s where s: "agent_step strict_env (AFrame 2000 sample_record ?g) (Some (ag1, l1)) = (Decided (Some SUCCESS), s)"
    using honest_answer [OF step key sample_registered(2), of "[]" ag1 l1 ?p ?g ?sig 2000 "\<lambda>d. []" sample_record] p(1-4) g strict_sha(1) accepts
    by (simp del: agent_step.simps) blast
  note resp = response_payload_Serialize [OF p(1) g(2)]
  have run: "run_ops (agent_step strict_env) [AInitiate 1000 sample_record ?dev] (Some (?ag, [])) = Some (ag1, l1)"
    by (simp only: run_ops.simps step snd_conv)
  have "GetDevicePublicKey ?dev (ag_deviceRegistry ag1) = 7" using initiate_rest [OF i] key by simp
  moreover have "unforged strict_env (\<lambda>d. []) 7 (set (a_authorized a))" by (simp add: unforged_def strict_env_def a(2) fill_nothing)
  moreover have "no_collision (\<lambda>d. []) (set (a_authorized a)) (take 108 (f_payload ?g))"
    unfolding resp(3) by (simp add: no_collision_def a(2))
  ultimately have "\<exists>phoneNow req. (phoneNow, req) \<in> set (a_received a)
      \<and> Serialize (answer_payload ?dev (f_payload req)) \<in> set (a_authorized a)"
    using unlock_needs_user [OF _ run s a(1), of 7 "\<lambda>d. []"] strict_sha(1) resp(1) p(3) sample_phone_ready(7) by fastforce
  with step s a(1) show ?thesis by blast
qed

end
