(* ===== verification/Phone_Keys.thy ===== *)
theory Phone_Keys
  imports Phone_Unlock
begin

text \<open>
  The phone's signing key and the start of the application: \<open>crypto/KeyManager.kt\<close>, \<open>crypto/KeyMetadata.kt\<close>
  and \<open>onCreate\<close> and \<open>onDestroy\<close> of \<open>MainActivity.kt\<close>. The Android Keystore is a parameter: a store of keys by
  alias, what generating a key does with it, and what it answers about a key.
\<close>

section \<open>The Keystore\<close>

datatype user_auth = AuthenticationParameters int string | ValidityDuration int

text \<open>What \<open>KeyGenParameterSpec.Builder\<close> has been told.\<close>

record key_spec =
  sp_purposes :: string
  sp_curve :: string
  sp_digests :: string
  sp_userAuthenticationRequired :: bool
  sp_invalidatedByBiometricEnrollment :: bool
  sp_userAuth :: user_auth
  sp_strongBox :: bool

type_synonym key_store = "string \<rightharpoonup> key_spec"

datatype key_exception = KeyPermanentlyInvalidated | OtherException

text \<open>
  The SDK level, whether \<open>setIsStrongBoxBacked\<close> throws, \<open>generateKeyPair\<close> (an exception, or none, and
  the store after it), \<open>getKey\<close>, and \<open>isInsideSecureHardware\<close> of the \<open>KeyInfo\<close> of a key.
\<close>

record platform =
  pf_sdk :: nat
  pf_strongBoxThrows :: bool
  pf_generate :: "string \<Rightarrow> key_spec \<Rightarrow> key_store \<Rightarrow> key_exception option \<times> key_store"
  pf_getKey :: "string \<Rightarrow> key_store \<Rightarrow> key_exception + nat option"
  pf_keyInfo :: "nat \<Rightarrow> key_exception + bool"

section \<open>KeyManager\<close>

record KeyMetadata =
  m_alias :: string
  m_algorithm :: string
  m_curve :: string
  m_digest :: string
  m_isUserAuthenticationRequired :: bool
  m_userAuthenticationValidityDurationSeconds :: int
  m_isInvalidatedByBiometricEnrollment :: bool
  m_isStrongBoxBacked :: bool
  m_isHardwareBacked :: bool
  m_isKeyInvalidated :: bool

definition DEFAULT_KEY_ALIAS :: string where "DEFAULT_KEY_ALIAS = ''PhoneKeyAuthKey''"

text \<open>The levels are \<open>Build.VERSION_CODES.R\<close> (30) and \<open>P\<close> (28).\<close>

definition key_spec_of :: "platform \<Rightarrow> bool \<Rightarrow> key_spec" where
  "key_spec_of pf useStrongBox =
     (let builder = \<lparr>sp_purposes = ''PURPOSE_SIGN'', sp_curve = ''secp256r1'', sp_digests = ''SHA-256'',
            sp_userAuthenticationRequired = True, sp_invalidatedByBiometricEnrollment = True,
            sp_userAuth = (if pf_sdk pf \<ge> 30 then AuthenticationParameters 0 ''AUTH_BIOMETRIC_STRONG'' else ValidityDuration (- 1)),
            sp_strongBox = False\<rparr>
      in if useStrongBox \<and> pf_sdk pf \<ge> 28 \<and> \<not> pf_strongBoxThrows pf then builder\<lparr>sp_strongBox := True\<rparr> else builder)"

definition generateKeyInternal :: "platform \<Rightarrow> string \<Rightarrow> bool \<Rightarrow> key_store \<Rightarrow> key_exception option \<times> key_store" where
  "generateKeyInternal pf keyAlias useStrongBox st = pf_generate pf keyAlias (key_spec_of pf useStrongBox) st"

definition isKeyPresent :: "string \<Rightarrow> key_store \<Rightarrow> bool" where
  "isKeyPresent keyAlias st \<longleftrightarrow> st keyAlias \<noteq> None"

definition isKeyInvalidated :: "platform \<Rightarrow> string \<Rightarrow> key_store \<Rightarrow> bool" where
  "isKeyInvalidated pf keyAlias st =
     (case pf_getKey pf keyAlias st of
        Inl e \<Rightarrow> e = KeyPermanentlyInvalidated
      | Inr None \<Rightarrow> True
      | Inr (Some privateKey) \<Rightarrow> pf_keyInfo pf privateKey = Inl KeyPermanentlyInvalidated)"

text \<open>\<open>Inl\<close> is the exception of \<open>getPrivateKey\<close>, which nothing catches here.\<close>

definition getKeyMetadata :: "platform \<Rightarrow> string \<Rightarrow> bool \<Rightarrow> key_store \<Rightarrow> key_exception + KeyMetadata" where
  "getKeyMetadata pf keyAlias isStrongBox st =
     (case pf_getKey pf keyAlias st of
        Inl e \<Rightarrow> Inl e
      | Inr privateKey \<Rightarrow>
          let isHardware = (case privateKey of
                None \<Rightarrow> True
              | Some k \<Rightarrow> (case pf_keyInfo pf k of Inl e \<Rightarrow> True | Inr inside \<Rightarrow> inside))
          in Inr \<lparr>m_alias = keyAlias, m_algorithm = ''EC'', m_curve = ''secp256r1'', m_digest = ''SHA-256'',
                   m_isUserAuthenticationRequired = True, m_userAuthenticationValidityDurationSeconds = 0,
                   m_isInvalidatedByBiometricEnrollment = True, m_isStrongBoxBacked = isStrongBox,
                   m_isHardwareBacked = isHardware, m_isKeyInvalidated = isKeyInvalidated pf keyAlias st\<rparr>)"

text \<open>StrongBox first; any exception leads to a second try without it, whose exception leaves the function.\<close>

definition generateKey :: "platform \<Rightarrow> string \<Rightarrow> key_store \<Rightarrow> (key_exception + KeyMetadata) \<times> key_store" where
  "generateKey pf keyAlias st =
     (case generateKeyInternal pf keyAlias True st of
        (None, st) \<Rightarrow> (getKeyMetadata pf keyAlias True st, st)
      | (Some e, st) \<Rightarrow>
          (case generateKeyInternal pf keyAlias False st of
             (None, st) \<Rightarrow> (getKeyMetadata pf keyAlias False st, st)
           | (Some e, st) \<Rightarrow> (Inl e, st)))"

definition deleteKey :: "string \<Rightarrow> key_store \<Rightarrow> key_store" where
  "deleteKey keyAlias st = (if st keyAlias \<noteq> None then st(keyAlias := None) else st)"

section \<open>MainActivity\<close>

text \<open>
  \<open>onCreate\<close>: the controller it makes, or the exception of \<open>generateKey\<close>. It sets no status callback.
\<close>

definition MainActivity_onCreate :: "platform \<Rightarrow> key_store \<Rightarrow> (key_exception + UnlockController) \<times> key_store" where
  "MainActivity_onCreate pf st =
     (let (r, st) = (if \<not> isKeyPresent DEFAULT_KEY_ALIAS st
                     then (case generateKey pf DEFAULT_KEY_ALIAS st of (Inl e, st) \<Rightarrow> (Some e, st) | (Inr meta, st) \<Rightarrow> (None, st))
                     else (None, st));
          deviceId = replicate 16 0x11
      in (case r of
            Some e \<Rightarrow> Inl e
          | None \<Rightarrow> Inr \<lparr>u_deviceId = deviceId, u_transport = TcpTransportClient_init, u_statusCallback = False\<rparr>, st))"

definition MainActivity_onDestroy :: "UnlockController option \<Rightarrow> UnlockController option \<times> net_op list" where
  "MainActivity_onDestroy unlockController =
     (case unlockController of
        None \<Rightarrow> (None, [])
      | Some u \<Rightarrow> (let (u, l) = stop u in (Some u, l)))"

section \<open>The key asks for the user at every use\<close>

text \<open>
  The key signs only, on P-256 with SHA-256; every use needs a strong biometric (a duration of 0, or
  of -1 before Android 11, asks each time), and a new enrolment makes it invalid.
\<close>

definition guarded :: "key_spec \<Rightarrow> bool" where
  "guarded sp \<longleftrightarrow> sp_purposes sp = ''PURPOSE_SIGN'' \<and> sp_curve sp = ''secp256r1'' \<and> sp_digests sp = ''SHA-256''
     \<and> sp_userAuthenticationRequired sp \<and> sp_invalidatedByBiometricEnrollment sp
     \<and> (sp_userAuth sp = AuthenticationParameters 0 ''AUTH_BIOMETRIC_STRONG'' \<or> sp_userAuth sp = ValidityDuration (- 1))"

text \<open>What the Keystore documents: a key pair that was generated is stored under its alias, as asked for.\<close>

definition installs :: "platform \<Rightarrow> bool" where
  "installs pf \<longleftrightarrow> (\<forall>al sp st st'. pf_generate pf al sp st = (None, st') \<longrightarrow> st' al = Some sp)"

lemma key_spec_guarded: "guarded (key_spec_of pf b)"
  by (simp add: guarded_def key_spec_of_def Let_def)

lemma metadata_strongBox: "getKeyMetadata pf al b st = Inr meta \<Longrightarrow> m_isStrongBoxBacked meta = b \<and> m_alias meta = al"
  by (auto simp: getKeyMetadata_def Let_def split: sum.splits)

lemma generateKey_cases:
  assumes "generateKey pf al st = (Inr meta, st')"
  obtains b st1 where "pf_generate pf al (key_spec_of pf b) st1 = (None, st')" "getKeyMetadata pf al b st' = Inr meta"
  using assms by (auto simp: generateKey_def generateKeyInternal_def split: prod.splits option.splits)

text \<open>
  When \<open>generateKey\<close> returns, with StrongBox or after falling back from it, the alias holds a key that
  signs only after a strong biometric at every use and that a new enrolment invalidates; and the
  metadata say StrongBox for a key that asked for it, and, from Android 9 on, for no other.
\<close>

theorem generated_key_guarded:
  assumes "installs pf" "generateKey pf keyAlias st = (Inr meta, st')"
  shows "\<exists>sp. st' keyAlias = Some sp \<and> guarded sp \<and> isKeyPresent keyAlias st' \<and> m_alias meta = keyAlias
    \<and> (sp_strongBox sp \<longrightarrow> m_isStrongBoxBacked meta)
    \<and> (m_isStrongBoxBacked meta \<and> 28 \<le> pf_sdk pf \<and> \<not> pf_strongBoxThrows pf \<longrightarrow> sp_strongBox sp)"
proof -
  from assms(2) obtain b st1 where b: "pf_generate pf keyAlias (key_spec_of pf b) st1 = (None, st')"
    "getKeyMetadata pf keyAlias b st' = Inr meta" by (rule generateKey_cases)
  with assms(1) have "st' keyAlias = Some (key_spec_of pf b)" by (auto simp: installs_def)
  moreover have "sp_strongBox (key_spec_of pf b) \<longleftrightarrow> b \<and> 28 \<le> pf_sdk pf \<and> \<not> pf_strongBoxThrows pf"
    by (simp add: key_spec_of_def Let_def)
  ultimately show ?thesis using metadata_strongBox [OF b(2)] key_spec_guarded by (auto simp: isKeyPresent_def)
qed

text \<open>A device without StrongBox still gets its key.\<close>

lemma generateKey_falls_back:
  assumes "pf_generate pf al (key_spec_of pf True) st = (Some e, st1)" "pf_generate pf al (key_spec_of pf False) st1 = (None, st2)"
    and "pf_getKey pf al st2 = Inr key"
  shows "\<exists>meta. generateKey pf al st = (Inr meta, st2) \<and> \<not> m_isStrongBoxBacked meta"
  using assms by (simp add: generateKey_def generateKeyInternal_def getKeyMetadata_def Let_def)

text \<open>
  The metadata claim hardware for a key that does not exist and for one whose \<open>KeyInfo\<close> cannot be read;
  the second is reported as valid as well.
\<close>

theorem metadata_claims_hardware:
  "pf_getKey pf al st = Inr None \<Longrightarrow> \<exists>meta. getKeyMetadata pf al b st = Inr meta \<and> m_isHardwareBacked meta \<and> m_isKeyInvalidated meta"
  "pf_getKey pf al st = Inr (Some k) \<Longrightarrow> pf_keyInfo pf k = Inl OtherException
    \<Longrightarrow> \<exists>meta. getKeyMetadata pf al b st = Inr meta \<and> m_isHardwareBacked meta \<and> \<not> m_isKeyInvalidated meta"
  by (simp_all add: getKeyMetadata_def isKeyInvalidated_def Let_def)

section \<open>Nobody hears the status\<close>

lemma app_step_silent: "app_step ks a a' \<Longrightarrow> u_statusCallback (a_controller a') = u_statusCallback (a_controller a)"
proof (induction rule: app_step.induct)
  case (prompt p a answer msg ev ss u l)
  then show ?case
    by (auto simp: prompt_callback_def sign_onSuccess_def Let_def split: prompt_event.splits sum.splits prod.splits if_splits)
qed simp_all

lemma app_reach_silent: "app_reach ks u a \<Longrightarrow> u_statusCallback (a_controller a) = u_statusCallback u"
proof (induction rule: app_reach.induct)
  case (step a a')
  then show ?case using app_step_silent by simp
qed (simp add: app_init_def)

text \<open>
  The application never calls \<open>setStatusCallback\<close>: in every run from \<open>onCreate\<close>, whatever the controller
  reports, errors and success alike, reaches nobody. And every installation has the same device
  identifier.
\<close>

theorem status_never_shown:
  assumes "MainActivity_onCreate pf st = (Inr u, st')" "app_reach ks u a"
  shows "tells (a_controller a) ss = []" "u_deviceId u = replicate 16 0x11"
  using assms app_reach_silent [OF assms(2)]
  by (auto simp: MainActivity_onCreate_def tells_def Let_def split: if_splits option.splits prod.splits sum.splits)

lemma onCreate_guarded:
  assumes "installs pf" "MainActivity_onCreate pf st = (Inr u, st')" "\<not> isKeyPresent DEFAULT_KEY_ALIAS st"
  shows "\<exists>sp. st' DEFAULT_KEY_ALIAS = Some sp \<and> guarded sp"
proof -
  from assms(2,3) obtain meta where "generateKey pf DEFAULT_KEY_ALIAS st = (Inr meta, st')"
    by (auto simp: MainActivity_onCreate_def Let_def split: if_splits option.splits prod.splits sum.splits)
  then obtain b st1 where "pf_generate pf DEFAULT_KEY_ALIAS (key_spec_of pf b) st1 = (None, st')" by (rule generateKey_cases)
  with assms(1) have "st' DEFAULT_KEY_ALIAS = Some (key_spec_of pf b)" unfolding installs_def by blast
  then show ?thesis using key_spec_guarded by blast
qed

section \<open>An example\<close>

text \<open>A phone of Android 10 without StrongBox.\<close>

definition sample_platform :: platform where
  "sample_platform = \<lparr>pf_sdk = 29, pf_strongBoxThrows = False,
     pf_generate = (\<lambda>al sp st. if sp_strongBox sp then (Some OtherException, st) else (None, st(al \<mapsto> sp))),
     pf_getKey = (\<lambda>al st. Inr (map_option (\<lambda>_. 9) (st al))), pf_keyInfo = (\<lambda>k. Inr True)\<rparr>"

theorem generated_key_guarded_witness:
  "\<exists>meta st sp. generateKey sample_platform DEFAULT_KEY_ALIAS Map.empty = (Inr meta, st) \<and> st DEFAULT_KEY_ALIAS = Some sp
     \<and> guarded sp \<and> \<not> m_isStrongBoxBacked meta"
proof -
  have i: "installs sample_platform" by (auto simp: installs_def sample_platform_def split: if_splits)
  have s: "sp_strongBox (key_spec_of sample_platform b) = b" for b by (simp add: key_spec_of_def sample_platform_def Let_def)
  let ?st = "[DEFAULT_KEY_ALIAS \<mapsto> key_spec_of sample_platform False]"
  have p: "pf_generate sample_platform al sp st = (if sp_strongBox sp then (Some OtherException, st) else (None, st(al \<mapsto> sp)))"
    "pf_getKey sample_platform al st = Inr (map_option (\<lambda>_. 9) (st al))" for al sp st by (simp_all add: sample_platform_def)
  have "\<exists>meta. generateKey sample_platform DEFAULT_KEY_ALIAS Map.empty = (Inr meta, ?st) \<and> \<not> m_isStrongBoxBacked meta"
    by (rule generateKey_falls_back [of _ _ _ OtherException Map.empty _ "Some 9"]) (simp_all add: p s)
  then obtain meta st where g: "generateKey sample_platform DEFAULT_KEY_ALIAS Map.empty = (Inr meta, st)" "\<not> m_isStrongBoxBacked meta"
    by blast
  from generated_key_guarded [OF i g(1)] g show ?thesis by blast
qed

end
