(* ===== verification/Phone_Pairing.thy ===== *)
theory Phone_Pairing
  imports Java_Runtime Pairing_Agreement
begin

text \<open>
  Pairing on the phone: \<open>pairing/HkdfManager.kt\<close>, \<open>SasManager.kt\<close>, \<open>EcdhManager.kt\<close> and
  \<open>QrPayloadParser.kt\<close>, and the export of the
  public key in \<open>crypto/KeyManager.kt\<close>, compared with what the PC does. The Java cryptography
  architecture is a parameter: \<open>H\<close> is \<open>HmacSHA256\<close>, \<open>agree\<close> the \<open>ECDH\<close> key agreement, \<open>valid\<close> the points from
  which the key factory makes a key. A \<open>BigInteger\<close> that is not negative is a \<open>nat\<close>.
\<close>

section \<open>Key derivation\<close>

text \<open>\<open>SecretKeySpec\<close> refuses an empty key.\<close>

definition hmacSha256 :: "(byte list \<Rightarrow> byte list \<Rightarrow> byte list) \<Rightarrow> byte list \<Rightarrow> byte list \<Rightarrow> byte list option" where
  "hmacSha256 H key data = (if key = [] then None else Some (H key data))"

definition HkdfManager_extract :: "(byte list \<Rightarrow> byte list \<Rightarrow> byte list) \<Rightarrow> byte list option \<Rightarrow> byte list \<Rightarrow> byte list option" where
  "HkdfManager_extract H salt ikm =
     (let actualSalt = (if salt = None \<or> salt = Some [] then replicate 32 0 else the salt) in hmacSha256 H actualSalt ikm)"

text \<open>
  The loop of \<open>expand\<close>. It would not end if the MAC were empty, so it is a partial function: the outer
  \<open>None\<close> means that it does not return, the inner one an exception. The counter is a \<open>Byte\<close> and wraps.
\<close>

partial_function (option) expand_loop ::
    "(byte list \<Rightarrow> byte list \<Rightarrow> byte list) \<Rightarrow> byte list \<Rightarrow> byte list \<Rightarrow> int \<Rightarrow> byte list \<Rightarrow> byte list \<Rightarrow> byte \<Rightarrow> int
      \<Rightarrow> byte list option option" where
  "expand_loop H prk infoBytes outLen result t counter offset =
     (if offset < outLen
      then (case hmacSha256 H prk (t @ infoBytes @ [counter]) of
              None \<Rightarrow> Some None
            | Some t \<Rightarrow>
                let toCopy = min (int (length t)) (outLen - offset) in
                (case arraycopy t 0 result offset toCopy of
                   None \<Rightarrow> Some None
                 | Some result \<Rightarrow> expand_loop H prk infoBytes outLen result t (counter + 1) (offset + toCopy)))
      else Some (Some result))"

text \<open>\<open>info\<close> is given by its UTF-8 bytes.\<close>

definition HkdfManager_expand ::
    "(byte list \<Rightarrow> byte list \<Rightarrow> byte list) \<Rightarrow> byte list \<Rightarrow> byte list \<Rightarrow> u32 \<Rightarrow> byte list option option" where
  "HkdfManager_expand H prk infoBytes outLen =
     (case new_array outLen of
        None \<Rightarrow> Some None
      | Some result \<Rightarrow> expand_loop H prk infoBytes (sint outLen) result [] 1 0)"

definition deriveKey ::
    "(byte list \<Rightarrow> byte list \<Rightarrow> byte list) \<Rightarrow> byte list option \<Rightarrow> byte list \<Rightarrow> byte list \<Rightarrow> u32 \<Rightarrow> byte list option option" where
  "deriveKey H salt ikm infoBytes outLen =
     (case HkdfManager_extract H salt ikm of None \<Rightarrow> Some None | Some prk \<Rightarrow> HkdfManager_expand H prk infoBytes outLen)"

section \<open>The short authentication string\<close>

text \<open>\<open>mac[i].toInt() and 0xFF\<close>\<close>

definition low_byte :: "byte \<Rightarrow> u32" where
  "low_byte b = scast b AND 0xFF"

text \<open>\<open>"%06d"\<close> pads with zeros on the left, like \<open>setw6\<close>.\<close>

definition computeSasPin :: "(byte list \<Rightarrow> byte list \<Rightarrow> byte list) \<Rightarrow> byte list \<Rightarrow> string option" where
  "computeSasPin H kSas =
     (if kSas = [] then Some ''000000''
      else do {
        mac \<leftarrow> hmacSha256 H kSas sas_info;
        if length mac < 4 then Some ''000000''
        else do {
          let val32 = push_bit 24 (low_byte (mac ! 0)) OR push_bit 16 (low_byte (mac ! 1)) OR push_bit 8 (low_byte (mac ! 2))
                OR low_byte (mac ! 3);
          let unsignedVal = (scast val32 :: u64) AND 0xFFFFFFFF;
          let pin = sint unsignedVal mod 900000 + 100000;
          Some (setw6 (decimal (nat pin)))
        }})"

section \<open>Public points\<close>

text \<open>\<open>x\<close> in \<open>k\<close> bytes, the most significant first.\<close>

definition be_bytes :: "nat \<Rightarrow> nat \<Rightarrow> byte list" where
  "be_bytes k x = map (\<lambda>i. of_nat (x div 256 ^ i)) (rev [0..<k])"

fun bit_length :: "nat \<Rightarrow> nat" where
  "bit_length n = (if n = 0 then 0 else Suc (bit_length (n div 2)))"

declare bit_length.simps [simp del]

text \<open>\<open>BigInteger.toByteArray\<close>: two's complement, as short as the value with its sign bit allows.\<close>

definition toByteArray :: "nat \<Rightarrow> byte list" where
  "toByteArray x = be_bytes (bit_length x div 8 + 1) x"

text \<open>\<open>BigInteger(1, bytes)\<close>\<close>

definition magnitude :: "byte list \<Rightarrow> nat" where
  "magnitude bs = foldl (\<lambda>n b. 256 * n + unat b) 0 bs"

definition getFixedLengthBytes :: "byte list \<Rightarrow> nat \<Rightarrow> byte list option" where
  "getFixedLengthBytes bigIntBytes n =
     (let result = replicate n 0 in
      if length bigIntBytes = n then Some bigIntBytes
      else if length bigIntBytes > n then arraycopy bigIntBytes (int (length bigIntBytes) - int n) result 0 (int n)
      else arraycopy bigIntBytes 0 result (int n - int (length bigIntBytes)) (int (length bigIntBytes)))"

text \<open>The key pair of an \<open>EcdhManager\<close>, \<open>None\<close> for the \<open>null\<close> it starts with.\<close>

record 'k EcdhManager =
  l_private :: 'k
  l_public :: "nat \<times> nat"

definition generateEphemeralKeyPair :: "'k EcdhManager \<Rightarrow> 'k EcdhManager option \<Rightarrow> 'k EcdhManager \<times> 'k EcdhManager option" where
  "generateEphemeralKeyPair keyPair m = (keyPair, Some keyPair)"

definition getPublicPointUncompressed :: "'k EcdhManager option \<Rightarrow> byte list option" where
  "getPublicPointUncompressed m = do {
     kp \<leftarrow> m;
     xBytes \<leftarrow> getFixedLengthBytes (toByteArray (fst (l_public kp))) 32;
     yBytes \<leftarrow> getFixedLengthBytes (toByteArray (snd (l_public kp))) 32;
     Some (0x04 # xBytes @ yBytes)
   }"

text \<open>\<open>KeyManager.getPublicKeyUncompressedXy\<close>, which the PC's registry imports.\<close>

definition getPublicKeyUncompressedXy :: "(nat \<times> nat) option \<Rightarrow> byte list option" where
  "getPublicKeyUncompressedXy key = do {
     w \<leftarrow> key;
     xBytes \<leftarrow> getFixedLengthBytes (toByteArray (fst w)) 32;
     yBytes \<leftarrow> getFixedLengthBytes (toByteArray (snd w)) 32;
     Some (xBytes @ yBytes)
   }"

text \<open>\<open>None\<close> is the \<open>null\<close> for a wrong size, or the exception of the key factory.\<close>

definition parseUncompressedPublicKey :: "(nat \<times> nat \<Rightarrow> bool) \<Rightarrow> byte list \<Rightarrow> (nat \<times> nat) option" where
  "parseUncompressedPublicKey valid xyBytes = do {
     let offset = (if length xyBytes = 65 \<and> xyBytes ! 0 = 0x04 then 1 else 0);
     if length xyBytes - offset \<noteq> 64 then None
     else do {
       xBytes \<leftarrow> arraycopy xyBytes (int offset) (replicate 32 0) 0 32;
       yBytes \<leftarrow> arraycopy xyBytes (int offset + 32) (replicate 32 0) 0 32;
       let point = (magnitude xBytes, magnitude yBytes);
       if valid point then Some point else None
     }}"

definition computeSharedSecret ::
    "(nat \<times> nat \<Rightarrow> bool) \<Rightarrow> ('k \<Rightarrow> nat \<times> nat \<Rightarrow> byte list) \<Rightarrow> 'k EcdhManager option \<Rightarrow> byte list \<Rightarrow> byte list option" where
  "computeSharedSecret valid agree m peerPublicXy = do {
     kp \<leftarrow> m;
     peer \<leftarrow> parseUncompressedPublicKey valid peerPublicXy;
     Some (agree (l_private kp) peer)
   }"

section \<open>The QR code\<close>

record QrPairingPayload =
  q_protocolVersion :: string
  q_sessionIdHex :: string
  q_pcIdHex :: string
  q_pcEcdhPubHex :: string
  q_hostInfo :: string

text \<open>
  \<open>org.json\<close> is a parameter: \<open>print\<close> is \<open>toString\<close> of an object with these names and values, in the order they
  were put, and \<open>parse\<close> gives what \<open>getString\<close> answers for each name of a text, \<open>None\<close> for an exception.
\<close>

definition generateJson :: "((string \<times> string) list \<Rightarrow> string) \<Rightarrow> QrPairingPayload \<Rightarrow> string" where
  "generateJson print payload = print
     [(''protocol_version'', q_protocolVersion payload), (''session_id'', q_sessionIdHex payload), (''pc_id'', q_pcIdHex payload),
      (''pc_ecdh_pub_hex'', q_pcEcdhPubHex payload), (''host_info'', q_hostInfo payload)]"

definition parseJson :: "(string \<Rightarrow> (string \<rightharpoonup> string) option) \<Rightarrow> string \<Rightarrow> QrPairingPayload option" where
  "parseJson parse jsonString = do {
     json \<leftarrow> parse jsonString;
     protocolVersion \<leftarrow> json ''protocol_version'';
     sessionIdHex \<leftarrow> json ''session_id'';
     pcIdHex \<leftarrow> json ''pc_id'';
     pcEcdhPubHex \<leftarrow> json ''pc_ecdh_pub_hex'';
     hostInfo \<leftarrow> json ''host_info'';
     Some \<lparr>q_protocolVersion = protocolVersion, q_sessionIdHex = sessionIdHex, q_pcIdHex = pcIdHex,
           q_pcEcdhPubHex = pcEcdhPubHex, q_hostInfo = hostInfo\<rparr>
   }"

lemma qr_round_trip: "\<forall>fs. distinct (map fst fs) \<longrightarrow> parse (print fs) = Some (map_of fs) \<Longrightarrow> parseJson parse (generateJson print p) = Some p"
  by (simp add: generateJson_def parseJson_def)

text \<open>A text without one of the five names, or no JSON text at all, gives \<open>null\<close>; other names are ignored.\<close>

lemma parseJson_complete:
  "parseJson parse s \<noteq> None \<longleftrightarrow> (\<exists>json. parse s = Some json
     \<and> {''protocol_version'', ''session_id'', ''pc_id'', ''pc_ecdh_pub_hex'', ''host_info''} \<subseteq> dom json)"
  by (auto simp: parseJson_def dom_def bind_eq_Some_conv)

section \<open>The same key and the same PIN\<close>

lemma hkdf_T_length: "\<forall>k d. length (H k d) = 32 \<Longrightarrow> length (hkdf_T H prk info (Suc n)) = 32"
  by simp

lemma blocks_length: "\<forall>k d. length (H k d) = 32 \<Longrightarrow> length (blocks H prk info n) = 32 * n"
  by (induction n) (simp_all add: blocks_Suc, simp_all add: blocks_def)

text \<open>The result array after \<open>n\<close> blocks.\<close>

definition okm_after :: "(byte list \<Rightarrow> byte list \<Rightarrow> byte list) \<Rightarrow> byte list \<Rightarrow> byte list \<Rightarrow> nat \<Rightarrow> nat \<Rightarrow> byte list" where
  "okm_after H prk info L n = take L (blocks H prk info n) @ replicate (L - 32 * n) 0"

lemma expand_loop_blocks:
  assumes "\<forall>k d. length (H k d) = 32" "prk \<noteq> []" "32 * n < L + 32"
  shows "expand_loop H prk info (int L) (okm_after H prk info L n) (hkdf_T H prk info n) (of_nat (Suc n)) (int (min L (32 * n)))
    = Some (Some (hkdf_expand H prk info L))"
  using assms(3)
proof (induction "L - 32 * n" arbitrary: n rule: less_induct)
  case less
  let ?t = "hkdf_T H prk info n" and ?t' = "hkdf_T H prk info (Suc n)" and ?r = "okm_after H prk info L n"
  have len: "length (blocks H prk info m) = 32 * m" for m using assms(1) by (rule blocks_length)
  have T32: "length ?t' = 32" using assms(1) by (rule hkdf_T_length)
  show ?case
  proof (cases "32 * n < L")
    case True
    let ?k = "min 32 (L - 32 * n)"
    have mac: "hmacSha256 H prk (?t @ info @ [of_nat (Suc n)]) = Some ?t'" using assms(2) by (simp add: hmacSha256_def)
    have k: "min (int (length ?t')) (int L - int (min L (32 * n))) = int ?k" using True T32 by auto
    have "arraycopy ?t' 0 ?r (int (32 * n)) (int ?k) = Some (blocks H prk info n @ take ?k ?t' @ drop (32 * n + ?k) ?r)"
      using True T32 len [of n] by (auto simp: arraycopy_def okm_after_def)
    moreover have "blocks H prk info n @ take ?k ?t' @ drop (32 * n + ?k) ?r = okm_after H prk info L (Suc n)"
      using True T32 len [of n] by (cases "32 \<le> L - 32 * n") (simp_all add: okm_after_def blocks_Suc del: hkdf_T.simps)
    ultimately have copy: "arraycopy ?t' 0 ?r (int (min L (32 * n))) (int ?k) = Some (okm_after H prk info L (Suc n))"
      using True by (simp add: min_def)
    have off: "int (min L (32 * n)) + int ?k = int (min L (32 * Suc n))" using True by auto
    have c: "(of_nat (Suc n) :: byte) + 1 = of_nat (Suc (Suc n))" by simp
    have "expand_loop H prk info (int L) ?r ?t (of_nat (Suc n)) (int (min L (32 * n)))
      = expand_loop H prk info (int L) (okm_after H prk info L (Suc n)) ?t' (of_nat (Suc (Suc n))) (int (min L (32 * Suc n)))"
      using True by (subst expand_loop.simps) (simp only: mac option.case Let_def k copy off c, simp)
    moreover have "\<dots> = Some (Some (hkdf_expand H prk info L))" using True less.prems by (intro less.hyps) simp_all
    ultimately show ?thesis by simp
  next
    case False
    with less.prems have n: "(L + 31) div 32 = n" by simp
    from False show ?thesis
      by (subst expand_loop.simps) (simp add: okm_after_def hkdf_expand_def n blocks_def)
  qed
qed

lemma deriveKey_hkdf:
  assumes "\<forall>k d. length (H k d) = 32" "L \<le> MAX_ARRAY"
  shows "deriveKey H salt ikm info (of_nat L)
    = Some (Some (hkdf_expand H (hkdf_extract H (case salt of None \<Rightarrow> [] | Some s \<Rightarrow> s) ikm) info L))"
proof -
  let ?prk = "hkdf_extract H (case salt of None \<Rightarrow> [] | Some s \<Rightarrow> s) ikm"
  have e: "HkdfManager_extract H salt ikm = Some ?prk"
    by (cases salt) (auto simp: HkdfManager_extract_def hmacSha256_def hkdf_extract_def Let_def)
  have "length ?prk = 32" using assms(1) by (simp add: hkdf_extract_def)
  then have "?prk \<noteq> []" by (metis list.size(3) zero_neq_numeral)
  from expand_loop_blocks [OF assms(1) this, of 0 L info] assms(2) show ?thesis
    by (simp add: deriveKey_def e HkdfManager_expand_def new_array_of_nat sint_small okm_after_def blocks_def)
qed

lemma scast_low:
  assumes "LENGTH('a) = m" "LENGTH('a) \<le> LENGTH('b)"
  shows "(scast (b :: 'a::len word) :: 'b::len word) AND mask m = ucast b"
proof (rule bit_word_eqI)
  fix n assume "n < LENGTH('b)"
  show "bit ((scast b :: 'b word) AND mask m) n = bit (ucast b :: 'b word) n"
  proof (cases "n < m")
    case True
    moreover from this have "min (LENGTH('a) - Suc 0) n = n" using assms(1) by simp
    ultimately show ?thesis using \<open>n < LENGTH('b)\<close> by (simp add: bit_simps)
  next
    case False
    moreover from this have "\<not> bit b n" using assms(1) bit_imp_le_length by blast
    ultimately show ?thesis by (simp add: bit_simps)
  qed
qed

lemma low_byte_ucast: "low_byte b = ucast b"
proof -
  have m: "(0xFF :: u32) = mask 8" by (simp add: mask_eq_exp_minus_1)
  show ?thesis unfolding low_byte_def m by (rule scast_low) simp_all
qed

lemma pin_value:
  fixes v :: u32
  shows "nat (sint ((scast v :: u64) AND 0xFFFFFFFF) mod 900000 + 100000) = unat (v mod 900000 + 100000)"
proof -
  have m: "(0xFFFFFFFF :: u64) = mask 32" by (simp add: mask_eq_exp_minus_1)
  have "(scast v :: u64) AND 0xFFFFFFFF = ucast v"
    unfolding m by (rule scast_low) simp_all
  moreover have "signed_take_bit 63 (uint v) = uint v"
  proof (rule signed_take_bit_int_eq_self)
    have "- (2 ^ 63) \<le> (0 :: int)" by simp
    also have "\<dots> \<le> uint v" by simp
    finally show "- (2 ^ 63) \<le> uint v" .
    show "uint v < 2 ^ 63" using uint_lt2p [of v] by simp
  qed
  then have "sint (ucast v :: u64) = int (unat v)" by (simp add: signed_ucast_eq)
  ultimately have "sint ((scast v :: u64) AND 0xFFFFFFFF) = int (unat v)" by simp
  moreover have "int (unat v) mod 900000 + 100000 = int (unat v mod 900000 + 100000)" by (simp add: zmod_int)
  ultimately show ?thesis by (simp only: nat_int pin_bounds)
qed

lemma computeSasPin_value:
  assumes "\<forall>k d. length (H k d) = 32" "k \<noteq> []"
  shows "computeSasPin H k = Some (setw6 (decimal (unat (dec_be32 (take 4 (H k sas_info)) mod 900000 + 100000))))"
proof -
  let ?m = "H k sas_info"
  have "length ?m = 32" using assms(1) by simp
  moreover have "push_bit 24 (low_byte (?m ! 0)) OR push_bit 16 (low_byte (?m ! 1)) OR push_bit 8 (low_byte (?m ! 2)) OR low_byte (?m ! 3)
      = dec_be32 (take 4 ?m)" using calculation by (simp add: low_byte_ucast dec_be32_def get_be32_def)
  ultimately show ?thesis using assms(2)
    by (simp add: computeSasPin_def hmacSha256_def pin_value Let_def flip: sas_info_def)
qed

section \<open>The same points\<close>

lemma length_be_bytes [simp]: "length (be_bytes k x) = k"
  by (simp add: be_bytes_def)

lemma be_bytes_Suc: "be_bytes (Suc k) x = of_nat (x div 256 ^ k) # be_bytes k x"
  by (simp add: be_bytes_def)

lemma drop_be_bytes: "n \<le> k \<Longrightarrow> drop (k - n) (be_bytes k x) = be_bytes n x"
proof (induction k)
  case (Suc k)
  then show ?case by (cases "n = Suc k") (simp_all add: be_bytes_Suc Suc_diff_le)
qed (simp add: be_bytes_def)

lemma be_bytes_pad: "x < 256 ^ n \<Longrightarrow> n \<le> k \<Longrightarrow> be_bytes k x = replicate (k - n) 0 @ be_bytes n x"
proof (induction k)
  case (Suc k)
  show ?case
  proof (cases "n = Suc k")
    case False
    with Suc.prems have le: "n \<le> k" by simp
    have "(256 :: nat) ^ n \<le> 256 ^ k" using le by (rule power_increasing) simp
    with Suc.prems(1) have "x < 256 ^ k" by (rule less_le_trans)
    then have "x div 256 ^ k = 0" by simp
    with Suc le show ?thesis by (simp add: be_bytes_Suc Suc_diff_le)
  qed simp
qed (simp add: be_bytes_def)

lemma bit_length_bound: "x < 2 ^ bit_length x"
proof (induction x rule: bit_length.induct)
  case (1 n)
  show ?case
  proof (cases "n = 0")
    case False
    with 1 have "n div 2 < 2 ^ bit_length (n div 2)" by simp
    with False show ?thesis by (subst bit_length.simps) (simp add: div_less_iff_less_mult)
  qed (simp add: bit_length.simps)
qed

lemma toByteArray_bound: "x < 256 ^ (bit_length x div 8 + 1)"
proof -
  have "bit_length x \<le> 8 * (bit_length x div 8 + 1)" by presburger
  then have "(2 :: nat) ^ bit_length x \<le> 2 ^ (8 * (bit_length x div 8 + 1))" by (rule power_increasing) simp
  also have "\<dots> = 256 ^ (bit_length x div 8 + 1)" by (simp only: power_mult) simp
  finally show ?thesis using bit_length_bound [of x] by linarith
qed

text \<open>
  Whatever the length of \<open>toByteArray\<close>, one sign byte too many or leading zeros missing, the fixed form
  has the value's bytes.
\<close>

lemma getFixedLengthBytes_long: "length bs = n + m \<Longrightarrow> getFixedLengthBytes bs n = Some (drop m bs)"
  by (cases "m = 0") (simp_all add: getFixedLengthBytes_def arraycopy_def Let_def)

lemma getFixedLengthBytes_short: "n = length bs + m \<Longrightarrow> getFixedLengthBytes bs n = Some (replicate m 0 @ bs)"
  by (cases "m = 0") (simp_all add: getFixedLengthBytes_def arraycopy_def Let_def)

lemma fixed_length:
  assumes "x < 256 ^ n"
  shows "getFixedLengthBytes (toByteArray x) n = Some (be_bytes n x)"
proof -
  let ?k = "bit_length x div 8 + 1"
  have k: "length (toByteArray x) = ?k" by (simp add: toByteArray_def)
  show ?thesis
  proof (cases "n \<le> ?k")
    case True
    then have "length (toByteArray x) = n + (?k - n)" using k by simp
    then show ?thesis using drop_be_bytes [OF True, of x] getFixedLengthBytes_long by (metis toByteArray_def)
  next
    case False
    then have "n = length (toByteArray x) + (n - ?k)" using k by simp
    then show ?thesis using be_bytes_pad [OF toByteArray_bound, of x n] False getFixedLengthBytes_short
      by (metis nat_le_linear toByteArray_def)
  qed
qed

lemma magnitude_be_bytes: "x < 256 ^ n \<Longrightarrow> magnitude (be_bytes n x) = x"
proof -
  have gen: "foldl (\<lambda>n b. 256 * n + unat b) a (be_bytes n x) = a * 256 ^ n + x mod 256 ^ n" for a
  proof (induction n arbitrary: a)
    case (Suc n)
    have "unat (of_nat (x div 256 ^ n) :: byte) = x div 256 ^ n mod 256" by (simp add: unat_of_nat take_bit_eq_mod)
    moreover have "x mod 256 ^ Suc n = x mod 256 ^ n + 256 ^ n * (x div 256 ^ n mod 256)"
      using mod_mult2_eq [of x "256 ^ n" 256] by (simp add: mult.commute)
    ultimately show ?case by (simp add: be_bytes_Suc Suc.IH) (simp add: algebra_simps)
  qed (simp add: be_bytes_def)
  show "x < 256 ^ n \<Longrightarrow> magnitude (be_bytes n x) = x" using gen [of 0] by (simp add: magnitude_def)
qed

lemma be_bytes_snoc: "be_bytes (Suc n) (256 * x + unat b) = be_bytes n x @ [b]"
proof -
  have u: "unat b < 256" using unsigned_less [of b, where 'a = nat] by simp
  have "[0..<Suc n] = 0 # map Suc [0..<n]" by (simp add: map_Suc_upt upt_conv_Cons)
  moreover have "(256 * x + unat b) div 256 ^ Suc i = x div 256 ^ i" for i using u by (simp add: div_mult2_eq)
  moreover have "256 * y = (0 :: byte)" for y
  proof -
    have "(256 :: byte) = 0" by simp
    then show ?thesis by (simp only: mult_zero_left)
  qed
  ultimately show ?thesis by (simp add: be_bytes_def rev_map del: upt_Suc power_Suc)
qed

lemma be_bytes_magnitude: "be_bytes (length bs) (magnitude bs) = bs"
proof (induction bs rule: rev_induct)
  case (snoc b bs)
  have "magnitude (bs @ [b]) = 256 * magnitude bs + unat b" by (simp add: magnitude_def)
  then show ?case using snoc.IH be_bytes_snoc [of "length bs" "magnitude bs" b] by simp
qed (simp add: be_bytes_def magnitude_def)

lemma magnitude_bound: "magnitude bs < 256 ^ length bs"
proof (induction bs rule: rev_induct)
  case (snoc b bs)
  have "unat b < 256" using unsigned_less [of b, where 'a = nat] by simp
  with snoc.IH show ?case by (simp add: magnitude_def)
qed (simp add: magnitude_def)

text \<open>The 64 bytes that both programs exchange for a point.\<close>

definition point_bytes :: "nat \<times> nat \<Rightarrow> byte list" where
  "point_bytes Q = be_bytes 32 (fst Q) @ be_bytes 32 (snd Q)"

definition coordinates :: "nat \<times> nat \<Rightarrow> bool" where
  "coordinates Q \<longleftrightarrow> fst Q < 256 ^ 32 \<and> snd Q < 256 ^ 32"

lemma length_point_bytes [simp]: "length (point_bytes Q) = 64"
  by (simp add: point_bytes_def)

lemma point_sent: "coordinates (l_public m) \<Longrightarrow> getPublicPointUncompressed (Some m) = Some (0x04 # point_bytes (l_public m))"
  by (simp add: getPublicPointUncompressed_def coordinates_def point_bytes_def fixed_length)

lemma key_exported: "coordinates Q \<Longrightarrow> getPublicKeyUncompressedXy (Some Q) = Some (point_bytes Q)"
  by (simp add: getPublicKeyUncompressedXy_def coordinates_def point_bytes_def fixed_length)

lemma point_parsed:
  assumes "coordinates Q" "valid Q" "bs \<in> {point_bytes Q, 0x04 # point_bytes Q}"
  shows "parseUncompressedPublicKey valid bs = Some Q"
  using assms
  by (cases Q) (auto simp: parseUncompressedPublicKey_def coordinates_def point_bytes_def arraycopy_def magnitude_be_bytes Let_def)

text \<open>
  C37. The phone and the PC pair. The phone's point, whatever the length of the coordinates it gets from
  \<open>toByteArray\<close>, is the tagged 65 bytes from which the PC computes its secret, and the PC's
  point is one that the phone reads back as the coordinates of the PC's key; the key that the phone
  exports for the registry is the same point without its tag. If the provider's agreement commutes and
  CNG gives its bytes in the order \<open>raw\<close>, the PC's secret is the phone's in that order. And from equal
  secret bytes the two programs go on equally: the loop of \<open>HkdfManager.expand\<close> with its byte counter
  returns the key that \<open>DeriveKey\<close> gives, and \<open>computeSasPin\<close>, with Java's signed arithmetic, the six digits
  of \<open>ComputeSasPin\<close>. (Salt, info string with the 33 bytes around it, and key fit an array of the phone.)
\<close>

theorem phone_pc_pairing:
  assumes "\<forall>k. coordinates (pt k) \<and> valid (pt k)"
    and "\<forall>a b. agree a (pt b) = agree b (pt a) \<and> length (agree a (pt b)) = 32"
    and "\<forall>s. length (raw s) = length s" "\<forall>a b. dh a (point_bytes (pt b)) = raw (agree a (pt b))"
    and "cng_ecdh (\<lambda>k. point_bytes (pt k)) dh w x a" "hmac_env w H" "0 < L" "L \<le> MAX_ARRAY"
    and "length (case salt of None \<Rightarrow> [] | Some t \<Rightarrow> t) \<le> MAX_ARRAY" "length info + 33 \<le> MAX_ARRAY"
    and "m = \<lparr>l_private = b, l_public = pt b\<rparr>" "P = fst (run_state (GetPublicPointUncompressed w x) l\<^sub>1)"
  shows "\<exists>Q s K. getPublicPointUncompressed (Some m) = Some Q \<and> getPublicKeyUncompressedXy (Some (pt b)) = Some (drop 1 Q)
    \<and> computeSharedSecret valid agree (Some m) P = Some s
    \<and> fst (run_state (ComputeSharedSecret w x (Some Q)) l\<^sub>2) = raw s
    \<and> fst (run_state (DeriveKey w salt (Some (raw s)) info L) l\<^sub>3) = K
    \<and> deriveKey H salt (raw s) info (of_nat L) = Some (Some K) \<and> length K = L
    \<and> computeSasPin H K = Some (fst (run_state (ComputeSasPin w (Some K)) l\<^sub>4))"
proof -
  let ?Q = "0x04 # point_bytes (pt b)" and ?s = "agree b (pt a)"
  let ?K = "fst (run_state (DeriveKey w salt (Some (raw ?s)) info L) l\<^sub>3)"
  have H: "\<forall>k d. length (H k d) = 32" using assms(6) by (simp add: hmac_env_def)
  have P: "P = 0x04 # point_bytes (pt a)" using point_exported [OF assms(5)] assms(12) by simp
  then have "parseUncompressedPublicKey valid P = Some (pt a)" using assms(1) by (intro point_parsed) simp_all
  then have s: "computeSharedSecret valid agree (Some m) P = Some ?s" by (simp add: computeSharedSecret_def assms(11))
  have "dh a (point_bytes (pt b)) = raw ?s" "length (raw ?s) = 32" using assms(2-4) by simp_all
  then have S: "fst (run_state (ComputeSharedSecret w x (Some ?Q)) l\<^sub>2) = raw ?s"
    using secret_agreed [OF assms(5), of b ?Q l\<^sub>2] by simp
  have "length (case salt of None \<Rightarrow> [] | Some t \<Rightarrow> t) < 2 ^ 32" "length (case Some (raw ?s) of None \<Rightarrow> [] | Some d \<Rightarrow> d) < 2 ^ 32"
    "length info + 33 < 2 ^ 32" using assms(2,3,9,10) by (simp_all add: MAX_ARRAY_def)
  note K = DeriveKey_computes [OF assms(6,7) this, of l\<^sub>3]
  have K': "deriveKey H salt (raw ?s) info (of_nat L) = Some (Some ?K)"
    using conjunct1 [OF K] deriveKey_hkdf [OF H assms(8), of salt "raw ?s" info] by simp
  have L: "length ?K = L" using conjunct2 [OF K] .
  with assms(7,8) have "?K \<noteq> []" "length ?K < 2 ^ 32" by (auto simp: MAX_ARRAY_def)
  then have "computeSasPin H ?K = Some (fst (run_state (ComputeSasPin w (Some ?K)) l\<^sub>4))"
    using computeSasPin_value [OF H] pin_computed [OF assms(6)] by simp
  moreover have "getPublicPointUncompressed (Some m) = Some ?Q" "getPublicKeyUncompressedXy (Some (pt b)) = Some (drop 1 ?Q)"
    using point_sent [of m] key_exported [of "pt b"] assms(1,11) by simp_all
  ultimately show ?thesis using s S K' L by blast
qed

section \<open>A concrete pairing\<close>

definition toy_point :: "byte \<Rightarrow> nat \<times> nat" where
  "toy_point a = (magnitude (replicate 32 a), magnitude (replicate 32 a))"

definition toy_agree :: "byte \<Rightarrow> nat \<times> nat \<Rightarrow> byte list" where
  "toy_agree a Q = toy_dh a (be_bytes 32 (fst Q))"

lemma toy_point_bytes: "point_bytes (toy_point a) = toy_pub a" "be_bytes 32 (fst (toy_point a)) = replicate 32 a"
  using be_bytes_magnitude [of "replicate 32 a"] by (simp_all add: point_bytes_def toy_point_def toy_pub_def flip: replicate_add)

lemma toy_coordinates: "coordinates (toy_point a)"
  using magnitude_bound [of "replicate 32 a"] by (simp add: coordinates_def toy_point_def)

theorem phone_pc_pairing_witness:
  "\<exists>Q s K. getPublicPointUncompressed (Some \<lparr>l_private = 5 :: byte, l_public = toy_point 5\<rparr>) = Some Q
    \<and> fst (run_state (ComputeSharedSecret (toy_env 3) toy_exchange (Some Q)) []) = s
    \<and> computeSharedSecret (\<lambda>_. True) toy_agree (Some \<lparr>l_private = 5, l_public = toy_point 5\<rparr>)
        (fst (run_state (GetPublicPointUncompressed (toy_env 3) toy_exchange) [])) = Some s
    \<and> deriveKey sample_hmac (Some [1]) s [2] 32 = Some (Some K)
    \<and> fst (run_state (DeriveKey (toy_env 3) (Some [1]) (Some s) [2] 32) []) = K
    \<and> computeSasPin sample_hmac K = Some (fst (run_state (ComputeSasPin (toy_env 3) (Some K)) []))"
proof -
  have h: "\<forall>k. coordinates (toy_point k) \<and> True"
    "\<forall>a b. toy_agree a (toy_point b) = toy_agree b (toy_point a) \<and> length (toy_agree a (toy_point b)) = 32"
    "\<forall>s :: byte list. length (id s) = length s" "\<forall>a b. toy_dh a (point_bytes (toy_point b)) = id (toy_agree a (toy_point b))"
    by (simp_all add: toy_coordinates toy_agree_def toy_point_bytes toy_dh_def toy_pub_def mult.commute)
  have c: "cng_ecdh (\<lambda>k. point_bytes (toy_point k)) toy_dh (toy_env 3) toy_exchange 3"
    using toy_cng by (simp add: toy_point_bytes)
  have L: "0 < (32 :: nat)" "32 \<le> MAX_ARRAY" "length (case Some [1 :: byte] of None \<Rightarrow> [] | Some t \<Rightarrow> t) \<le> MAX_ARRAY"
    "length [2 :: byte] + 33 \<le> MAX_ARRAY" by (simp_all add: MAX_ARRAY_def)
  from phone_pc_pairing [OF h c toy_hmac L refl refl, of 5 "[]" "[]" "[]" "[]"]
  show ?thesis by (elim exE conjE) (intro exI conjI, auto)
qed

end
