(* ===== verification/Spec2Isabelle.thy ===== *)
theory Spec2Isabelle
  imports Agent_Races Agent_Main Agent_Liveness Tcp_Shutdown Tcp_Senders Pairing_Agreement Device_Manager Pipe_Shutdown
    Logon Ctap2_Bridge End_To_End Phone_Keys Phone_Pairing
begin

text \<open>
  \<^bold>\<open>PhoneKey: a phone unlocks a Windows PC.\<close>

  The program has two sides. The Windows side (\<open>windows/\<close>, C++) has three layers. \<open>windows/common\<close> holds the
  signed payload, the framed transport, the signature checks, pairing cryptography and the local
  pipe; \<open>windows/agent\<close> holds the desktop agent with its challenge store, device registry and
  stored devices; \<open>windows/credential-provider\<close> is the library that Winlogon loads. A phone connects
  to the agent over TCP; the agent issues a single-use challenge, the phone signs a canonical
  payload that contains it, the agent checks the response. The credential provider asks the agent
  over a named pipe and hands what it gets to Winlogon. The phone side (\<open>android/\<close>, Kotlin) has the same
  wire format written a second time, a client for the connection, a controller that turns a request
  into a biometric prompt and the prompt's success into a signed answer, and the phone's half of pairing.

  \<^bold>\<open>How the code is modelled.\<close> A class is a \<open>record\<close> of its members and each method a definition with
  the method's branches and early returns, in the order of the source; an out-parameter is returned
  with the value the call leaves in it. A pointer with a size is a \<open>byte list option\<close>, a read outside
  the size is a result \<open>None\<close>. Machine integers keep their width. Windows (CNG, DPAPI, files, Winsock,
  named pipes, COM, the registry) is a parameter \<open>w\<close> that answers each call as an arbitrary function
  of the calls made before (theory \<open>Win_Api\<close>): nothing is assumed of it but what a theorem names as
  documented behaviour, and the log of the calls shows which handles are open, so that leaks and
  double closes are theorems. Clock readings and the content of uninitialised locals are arguments.
  On the phone an exception is a result \<open>None\<close> or \<open>Inl\<close>, \<open>Int\<close> and \<open>Long\<close> are words read as signed numbers, and
  what sockets, the Keystore, the prompt and the Java libraries answer are arguments.

  \<^bold>\<open>Theories and what they show.\<close>
  \<^item> \<open>Prelude\<close>: machine types, checked reads, big-endian codecs (locale \<open>be_codec\<close>), hexadecimal and
    decimal text, tables (locale \<open>keyed_table\<close>). \<open>Win_Api\<close>: the system calls, the log, resources and
    the rules of \<open>spends\<close> that walk through a computation.
  \<^item> \<open>Protocol\<close> (\<open>Protocol.cpp\<close>): the 108-byte payload; round trips in both directions and the exact
    error of every input.
  \<^item> \<open>Crc32\<close>, \<open>Frame_Protocol\<close> (\<open>FrameProtocol.cpp\<close>): the checksum is IEEE CRC-32 by polynomial
    division; the parser accepts exactly what the writer writes and rejects damage to the magic or the
    checksum and bursts of up to 32 bits in what the checksum covers, except in the length field.
  \<^item> \<open>Crypto_Engine\<close> (\<open>CryptoEngine.cpp\<close>, \<open>PublicKeyImporter.cpp\<close>): signature conversion, verification
    and key import; a true answer means CNG accepted this payload under this key in this call.
  \<^item> \<open>Single_Use\<close>: the locale of a store of tokens that can be won once, interpreted on the challenge
    store, the agent and the racing agent. \<open>Challenge_Store\<close> (\<open>ChallengeStore.cpp\<close>,
    \<open>ChallengeGenerator.cpp\<close>): a challenge is consumed at most as often as it was added, and a settled
    one never changes.
  \<^item> \<open>Device_Registry\<close> (\<open>DeviceRegistry.cpp\<close>): refines a map to key handles and owns exactly the keys
    of its entries.
  \<^item> \<open>Tcp_Transport\<close> (\<open>TcpTransport.cpp\<close>, \<open>BluetoothTransport.cpp\<close>): frames are delivered once and in
    order however the stream is cut (locale \<open>listener\<close>: the receiver against any listener that leaves the
    connection up), sending is all or nothing, the receive buffer holds at most 69649 bytes (65553 between
    two calls of \<open>recv\<close>, each of which brings at most 4096), sockets do not leak. \<open>Shutdown\<close>: the locale of a stop that
    joins a worker thread. \<open>Tcp_Shutdown\<close> interprets it on \<open>Close\<close> interleaved with the worker and the
    peer: \<open>Close\<close> returns without the peer's help, and what an accept at the same time leaves behind.
    \<open>Tcp_Senders\<close>: concurrent \<open>SendFrame\<close> calls around the mutex deliver what one sender would, and
    what the test outside the mutex lets through.
  \<^item> \<open>Agent_Service\<close>, \<open>Agent_Runs\<close> (\<open>AgentService.cpp\<close>): when a response unlocks, in one call and in all
    sequences of operations. \<open>Agent_Races\<close>: the same with the steps of any number of responses
    interleaved; a thread goes by the clock it read when it took the response up, which may be long ago.
    \<open>Agent_Liveness\<close>: the request reaches the phone, and an answer in time that repeats the request's
    fields unlocks whatever wrong answers came before. \<open>Agent_Main\<close> (\<open>PhoneKeyAgent.cpp\<close>): the executable
    gives back what it acquired, but for the one socket that an accept during \<open>Close\<close> can leave behind.
  \<^item> \<open>Pairing_Crypto\<close> (\<open>HkdfEngine.cpp\<close>, \<open>SasEngine.cpp\<close>, \<open>EcdhKeyExchange.cpp\<close>): HKDF of RFC 5869 up to its limit of 255 blocks, the
    range of the PIN, resources of a pairing. \<open>Pairing_Agreement\<close>: two parties that run this code get
    the same secret, key and PIN.
  \<^item> \<open>Device_Manager\<close> (\<open>DpapiStorage.cpp\<close>, \<open>MultiDeviceManager.cpp\<close>): what was saved and flushed is loaded
    (the flush is not checked); the list
    of phones refines a map (locale \<open>map_impl\<close>); what the answers mean.
  \<^item> \<open>Named_Pipe\<close> (\<open>NamedPipeIpc.cpp\<close>): client and server understand each other; the worker's loop on its own. \<open>Pipe_Shutdown\<close>: \<open>Stop\<close> interleaved with the worker thread (the locale
    \<open>shutdown\<close> again): it returns unless the worker is blocked in a call on the pipe or in the handler, and the
    races it has.
  \<^item> \<open>Com_Lifetime\<close>, \<open>Credential_Provider\<close> (\<open>PhoneKeyCredential.cpp\<close>, \<open>PhoneKeyCredentialProvider.cpp\<close>,
    \<open>dllmain.cpp\<close>): reference counting as the locale \<open>com_class\<close>, interpreted on the three classes;
    the tile hands out a credential only on the agent's word. \<open>Logon\<close>: the tile in one process and the
    pipe server in another; Winlogon gets exactly what the handler answered, undecrypted.
  \<^item> \<open>Ctap2_Bridge\<close> (\<open>Ctap2Bridge.cpp\<close>): authenticator data and the translation of WebAuthn requests.

  \<^item> \<open>Java_Runtime\<close>: Java's arrays, \<open>ByteBuffer\<close> and \<open>CRC32\<close>. \<open>Phone_Frames\<close> (\<open>FrameProtocol.kt\<close>, \<open>ITransport.kt\<close>) and
    \<open>Phone_Protocol\<close> (\<open>ProtocolEncoder.kt\<close>, \<open>ProtocolValidator.kt\<close>): the two programs write and accept the same
    bytes, and where they differ. \<open>Phone_Transport\<close> (\<open>TcpTransportClient.kt\<close>, \<open>BleTransportHandler.kt\<close>): what one
    side sends the other delivers, in both directions; when the phone's receiver returns, and the
    header on which it does not.
  \<^item> \<open>Phone_Unlock\<close> (\<open>UnlockController.kt\<close>, \<open>BiometricSigner.kt\<close>, \<open>SignatureManager.kt\<close>): the phone sends only what
    the user authorized, in every interleaving of its threads. \<open>Phone_Keys\<close> (\<open>KeyManager.kt\<close>,
    \<open>MainActivity.kt\<close>): the key asks for the user at every use; nobody hears the status.
    \<open>Phone_Pairing\<close> (\<open>HkdfManager.kt\<close>, \<open>SasManager.kt\<close>, \<open>EcdhManager.kt\<close>, \<open>QrPayloadParser.kt\<close>): the phone derives
    the key and the PIN of the PC.
  \<^item> \<open>End_To_End\<close>: both programs together. An unlock works from the request to the decision if the
    response is written, what happens if that write throws (it is made on Android's main thread), and no
    unlock happens that the user did not authorize on the phone for that challenge.

  \<^bold>\<open>Steps, loops and bounds.\<close> A method that holds one mutex for its whole body is one atomic step. The
  loops of the receiver, the sender, HKDF and the key search are recursive functions with termination
  proofs, so they always return. \<open>ServerWorker\<close> runs until another thread clears its flag; it takes
  a bound on its turns, and \<open>ServerWorker_ends\<close> shows that \<open>N + 1\<close> turns are enough when the flag is clear
  after \<open>N\<close> system calls, because every turn makes at least one. In \<open>Agent_Races\<close>, \<open>Pipe_Shutdown\<close>,
  \<open>Tcp_Shutdown\<close> and \<open>Tcp_Senders\<close> a step is what happens between two accesses to shared state; the
  bounds 20 (\<open>Pipe_Shutdown\<close>) and 19 (\<open>Tcp_Shutdown\<close>) on the steps left after a stop are the ranks of the two program
  counters. In \<open>Pipe_Shutdown\<close> the return of a blocking call is a step of the environment, so nothing is
  assumed of what \<open>CloseHandle\<close> does to a thread that is blocked in a call. A size that the code casts to
  \<open>ULONG\<close> or \<open>DWORD\<close> is taken modulo \<open>2 ^ 32\<close> (\<open>dword_blob\<close>); theorems that need the whole buffer assume it smaller. The
  phone's receiving loop and its HKDF loop need not end for every input, so they are partial functions
  in which \<open>None\<close> is not returning; that they return is \<open>phone_receiver_returns\<close> and part of
  \<open>phone_pc_pairing\<close>.

  \<^bold>\<open>Not modelled.\<close> The layout of the phone's screen (\<open>PhoneKeyAppUI\<close>), which is declarative; \<open>equals\<close> and
  \<open>hashCode\<close> of its data classes; \<open>getPublicKeyDer\<close>, a call of the Keystore; the tests, installer and build
  scripts, which are no part of the product; console output; the mathematics inside CNG, DPAPI and the
  Java providers (hash functions, elliptic curves, encryption), which enters as named hypotheses; the
  memory model of data races beyond the interleaving of their accesses; \<open>Close\<close> while a \<open>SendFrame\<close> is
  under way; \<open>DisableThreadLibraryCalls\<close>.
\<close>

end
